(* ===== verification/Prelude.thy ===== *)
theory Prelude
  imports Main "HOL-Library.Word"
begin

text \<open>
  Shared vocabulary of the development: bytes and byte slices, the big-endian integer
  encodings of Go's \<^verbatim>\<open>encoding/binary\<close>, in-place writes into a byte slice, and the
  binary search of \<^verbatim>\<open>sort.Search\<close>'s specification on lists.

  A Go \<^verbatim>\<open>[]byte\<close> is a list of 8-bit words, a Go \<^verbatim>\<open>string\<close> (an immutable byte
  sequence) is an Isabelle string, whose characters are bytes; \<open>string_bytes\<close> and
  \<open>bytes_string\<close> are the conversions \<^verbatim>\<open>[]byte(s)\<close> and \<^verbatim>\<open>string(b)\<close>.
\<close>

unbundle bit_operations_syntax

named_theorems slice_simps \<open>reading back what was written into a byte slice\<close>
named_theorems len_simps \<open>lengths of encodings\<close>

type_synonym byte = "8 word"
type_synonym bytes = "8 word list"

section \<open>Strings as byte sequences\<close>

definition string_bytes :: "string \<Rightarrow> bytes" where
  "string_bytes s = map of_char s"

definition bytes_string :: "bytes \<Rightarrow> string" where
  "bytes_string bs = map (\<lambda>b. char_of (unat b)) bs"

lemma length_string_bytes [simp, len_simps]: "length (string_bytes s) = length s"
  by (simp add: string_bytes_def)

lemma length_bytes_string [simp, len_simps]: "length (bytes_string b) = length b"
  by (simp add: bytes_string_def)

lemma unat_byte_less: "unat (b :: byte) < 256"
  by (rule order_less_le_trans [OF unsigned_less]) simp

lemma of_char_char_of_byte [simp]: "of_char (char_of (unat b)) = (b :: byte)"
proof -
  have "(of_char (char_of (unat b) :: char) :: byte) = of_nat (of_char (char_of (unat b) :: char) :: nat)"
    by (simp only: of_nat_of_char)
  also have "\<dots> = of_nat (unat b mod 256)"
    by (simp only: of_char_of)
  also have "\<dots> = b"
    by (simp add: unat_byte_less)
  finally show ?thesis .
qed

lemma char_of_unat_of_char [simp]: "char_of (unat (of_char c :: byte)) = c"
proof -
  have "(of_char c :: byte) = of_nat (of_char c :: nat)"
    by (simp only: of_nat_of_char)
  then have "unat (of_char c :: byte) = (of_char c :: nat)"
    by (simp only: unat_of_nat) simp
  then show ?thesis by simp
qed

lemma bytes_string_string_bytes [simp]: "bytes_string (string_bytes s) = s"
  by (simp add: string_bytes_def bytes_string_def comp_def)

lemma string_bytes_bytes_string [simp]: "string_bytes (bytes_string b) = b"
  by (simp add: string_bytes_def bytes_string_def comp_def)

lemma string_bytes_inject [simp]: "string_bytes s = string_bytes t \<longleftrightarrow> s = t"
  by (metis bytes_string_string_bytes)

section \<open>Big-endian integers\<close>

text \<open>\<^verbatim>\<open>binary.BigEndian.PutUint16/32/64\<close> and \<^verbatim>\<open>Uint16/32/64\<close>: the most significant
  byte first.\<close>

fun be_put :: "nat \<Rightarrow> 'a::len word \<Rightarrow> bytes" where
  "be_put 0 w = []"
| "be_put (Suc n) w = ucast (drop_bit (8 * n) w) # be_put n w"

definition be_step :: "'a::len word \<Rightarrow> byte \<Rightarrow> 'a word" where
  "be_step a b = push_bit 8 a OR ucast b"

definition be_get :: "bytes \<Rightarrow> 'a::len word" where
  "be_get bs = foldl be_step 0 bs"

lemma length_be_put [simp, len_simps]: "length (be_put n w) = n"
  by (induction n) auto

lemma be_put_eq_Nil [simp]: "be_put n w = [] \<longleftrightarrow> n = 0"
  by (cases n) auto

lemma be_step_take_bit:
  fixes a w :: "'a::len word"
  assumes "8 * Suc n \<le> LENGTH('a)"
  shows "push_bit (8 * n) (be_step a (ucast (drop_bit (8 * n) w))) OR take_bit (8 * n) w
       = push_bit (8 * Suc n) a OR take_bit (8 * Suc n) w"
proof (rule bit_word_eqI)
  fix i assume "i < LENGTH('a)"
  then show "bit (push_bit (8 * n) (be_step a (ucast (drop_bit (8 * n) w))) OR take_bit (8 * n) w) i
    = bit (push_bit (8 * Suc n) a OR take_bit (8 * Suc n) w) i"
    using assms
    by (cases "8 * n \<le> i")
       (auto simp: be_step_def bit_or_iff bit_push_bit_iff bit_take_bit_iff bit_ucast_iff
          bit_drop_bit_eq algebra_simps)
qed

lemma foldl_be_put:
  fixes a w :: "'a::len word"
  assumes "8 * n \<le> LENGTH('a)"
  shows "foldl be_step a (be_put n w) = push_bit (8 * n) a OR take_bit (8 * n) w"
  using assms
proof (induction n arbitrary: a)
  case 0
  then show ?case by simp
next
  case (Suc n)
  then have "foldl be_step a (be_put (Suc n) w)
      = push_bit (8 * n) (be_step a (ucast (drop_bit (8 * n) w))) OR take_bit (8 * n) w"
    by simp
  also have "\<dots> = push_bit (8 * Suc n) a OR take_bit (8 * Suc n) w"
    using Suc.prems by (rule be_step_take_bit)
  finally show ?case .
qed

lemma be_get_put:
  fixes w :: "'a::len word"
  assumes "8 * n = LENGTH('a)"
  shows "be_get (be_put n w) = w"
  using foldl_be_put [of n 0 w] assms by (simp add: be_get_def take_bit_word_eq_self)

abbreviation PutUint16 :: "16 word \<Rightarrow> bytes" where "PutUint16 \<equiv> be_put 2"
abbreviation PutUint32 :: "32 word \<Rightarrow> bytes" where "PutUint32 \<equiv> be_put 4"
abbreviation PutUint64 :: "64 word \<Rightarrow> bytes" where "PutUint64 \<equiv> be_put 8"
abbreviation Uint16 :: "bytes \<Rightarrow> 16 word" where "Uint16 \<equiv> be_get"
abbreviation Uint32 :: "bytes \<Rightarrow> 32 word" where "Uint32 \<equiv> be_get"
abbreviation Uint64 :: "bytes \<Rightarrow> 64 word" where "Uint64 \<equiv> be_get"

lemma Uint16_PutUint16 [simp]: "Uint16 (PutUint16 w) = w"
  by (rule be_get_put) simp

lemma Uint32_PutUint32 [simp]: "Uint32 (PutUint32 w) = w"
  by (rule be_get_put) simp

lemma Uint64_PutUint64 [simp]: "Uint64 (PutUint64 w) = w"
  by (rule be_get_put) simp

lemma PutUint16_bytes: "PutUint16 w = [ucast (drop_bit 8 w), ucast w]"
  by (simp add: numeral_2_eq_2)

lemma PutUint32_bytes:
  "PutUint32 w = [ucast (drop_bit 24 w), ucast (drop_bit 16 w), ucast (drop_bit 8 w), ucast w]"
  by (simp add: numeral_eq_Suc)

lemma PutUint64_bytes:
  "PutUint64 w = [ucast (drop_bit 56 w), ucast (drop_bit 48 w), ucast (drop_bit 40 w), ucast (drop_bit 32 w),
     ucast (drop_bit 24 w), ucast (drop_bit 16 w), ucast (drop_bit 8 w), ucast w]"
  by (simp add: numeral_eq_Suc)

lemmas Put_bytes = PutUint16_bytes PutUint32_bytes PutUint64_bytes

section \<open>Signed readings\<close>

lemma sint_of_nat32: "n < 2 ^ 31 \<Longrightarrow> sint (of_nat n :: 32 word) = int n"
  by (simp add: signed_of_nat signed_take_bit_int_eq_self)

lemma unat_of_nat16: "n < 65536 \<Longrightarrow> unat (of_nat n :: 16 word) = n"
  by (simp add: unat_of_nat)

lemma sint_scast_8_32: "sint (scast (w :: 8 word) :: 32 word) = sint w"
  using sint_ge [of w] sint_lt [of w] by (simp add: signed_scast_eq signed_take_bit_int_eq_self)

lemma sint_scast_16_32: "sint (scast (w :: 16 word) :: 32 word) = sint w"
  using sint_ge [of w] sint_lt [of w] by (simp add: signed_scast_eq signed_take_bit_int_eq_self)

section \<open>Slices and in-place writes\<close>

text \<open>\<open>sub p off n\<close> is the slice \<^verbatim>\<open>p[off : off+n]\<close>, \<open>splice p off bs\<close> the slice \<open>p\<close>
  after \<^verbatim>\<open>copy(p[off:], bs)\<close>; both are used inside bounds only (the callers check, or
  raise the panic Go raises).\<close>

definition sub :: "'a list \<Rightarrow> nat \<Rightarrow> nat \<Rightarrow> 'a list" where
  "sub p off n = take n (drop off p)"

definition splice :: "'a list \<Rightarrow> nat \<Rightarrow> 'a list \<Rightarrow> 'a list" where
  "splice p off bs = take off p @ bs @ drop (off + length bs) p"

lemma length_sub: "off + n \<le> length p \<Longrightarrow> length (sub p off n) = n"
  by (simp add: sub_def)

lemma length_splice [simp, len_simps]:
  "off + length bs \<le> length p \<Longrightarrow> length (splice p off bs) = length p"
  by (simp add: splice_def)

lemma nth_splice:
  assumes "off + length bs \<le> length p" "i < length p"
  shows "splice p off bs ! i = (if off \<le> i \<and> i < off + length bs then bs ! (i - off) else p ! i)"
  using assms by (auto simp: splice_def nth_append min_def)

lemma nth_sub: "off + n \<le> length p \<Longrightarrow> i < n \<Longrightarrow> sub p off n ! i = p ! (off + i)"
  by (simp add: sub_def)

lemma sub_eqI:
  assumes "off + n \<le> length p" "length bs = n" "\<And>i. i < n \<Longrightarrow> p ! (off + i) = bs ! i"
  shows "sub p off n = bs"
  using assms by (intro nth_equalityI) (auto simp: length_sub nth_sub)

lemma sub_splice_same [slice_simps]:
  "off + length bs \<le> length p \<Longrightarrow> n = length bs \<Longrightarrow> sub (splice p off bs) off n = bs"
  by (simp add: sub_def splice_def)

lemma sub_splice_other [slice_simps]:
  assumes "off + length bs \<le> length p" "o2 + n \<le> length p" "o2 + n \<le> off \<or> off + length bs \<le> o2"
  shows "sub (splice p off bs) o2 n = sub p o2 n"
  using assms by (intro nth_equalityI) (auto simp: length_sub nth_sub nth_splice)

lemma splice_splice_same:
  "off + length bs \<le> length p \<Longrightarrow> length cs = length bs \<Longrightarrow>
    splice (splice p off bs) off cs = splice p off cs"
  by (simp add: splice_def)

lemma sub_sub:
  "i + n \<le> m \<Longrightarrow> off + m \<le> length p \<Longrightarrow> sub (sub p off m) i n = sub p (off + i) n"
  by (intro nth_equalityI) (auto simp: length_sub nth_sub add.assoc)

lemma splice_sub_id: "off + n \<le> length p \<Longrightarrow> splice p off (sub p off n) = p"
  by (intro nth_equalityI) (auto simp: nth_splice length_sub nth_sub)

end
