(* ===== verification/GoTypes.thy ===== *)
theory GoTypes
  imports Prelude
begin

text \<open>
  Go's run-time types and values as the reflection-based parts of the program see them
  (\<^verbatim>\<open>reflect.Type\<close>, \<^verbatim>\<open>reflect.Value\<close>, \<^verbatim>\<open>any\<close>).

  A \<open>gtype\<close> is a finite Go type: self-referential struct types and named non-struct types
  are outside the model, and every kind the code has no branch for is \<open>TOther\<close> with its
  name and whether Go can compare its values with \<^verbatim>\<open>==\<close>. A struct field carries its name, its \<^verbatim>\<open>PkgPath\<close> (empty iff exported), the value of
  \<^verbatim>\<open>Tag.Get("keeper")\<close> and its type. A \<open>gval\<close> is a value; \<open>VNil\<close> is the nil interface
  (an invalid \<^verbatim>\<open>reflect.Value\<close>), \<open>VPtr t None\<close> a typed nil pointer, \<open>VIface None\<close> a nil
  field of interface type. Signed integers are kept at their width, floats are their IEEE
  bit patterns, and a \<^verbatim>\<open>time.Time\<close> is its Unix second and nanosecond.
\<close>

datatype gtype =
    TString
  | TBool
  | TInt
  | TInt8
  | TInt16
  | TInt32
  | TInt64
  | TFloat32
  | TFloat64
  | TUint8
  | TTime
  | TSlice gtype
  | TPtr gtype
  | TInterface
  | TStruct string "gfield list"
  | TOther string bool
and gfield = GField (fldName: string) (fldPkgPath: string) (fldTag: string) (fldType: gtype)

datatype gval =
    VNil
  | VString string
  | VBool bool
  | VInt "64 word"
  | VInt8 "8 word"
  | VInt16 "16 word"
  | VInt32 "32 word"
  | VInt64 "64 word"
  | VFloat32 "32 word"
  | VFloat64 "64 word"
  | VBytes bytes
  | VTime "64 word" "32 word"
  | VPtr gtype "gval option"
  | VIface "gval option"
  | VStruct string "gfield list" "gval list"
  | VPlaceholder string "(string \<times> gval) list"
  | VOther gtype

text \<open>\<^verbatim>\<open>reflect.Value.Type()\<close>; the placeholder the decoder builds is a
  \<^verbatim>\<open>*StructPlaceholder\<close>.\<close>

fun typeOf :: "gval \<Rightarrow> gtype" where
  "typeOf VNil = TInterface"
| "typeOf (VString _) = TString"
| "typeOf (VBool _) = TBool"
| "typeOf (VInt _) = TInt"
| "typeOf (VInt8 _) = TInt8"
| "typeOf (VInt16 _) = TInt16"
| "typeOf (VInt32 _) = TInt32"
| "typeOf (VInt64 _) = TInt64"
| "typeOf (VFloat32 _) = TFloat32"
| "typeOf (VFloat64 _) = TFloat64"
| "typeOf (VBytes _) = TSlice TUint8"
| "typeOf (VTime _ _) = TTime"
| "typeOf (VPtr t _) = TPtr t"
| "typeOf (VIface _) = TInterface"
| "typeOf (VStruct n fs _) = TStruct n fs"
| "typeOf (VPlaceholder _ _) = TPtr (TOther ''masterkeeper.StructPlaceholder'' False)"
| "typeOf (VOther t) = t"

text \<open>The loop \<^verbatim>\<open>for v.Kind() == reflect.Ptr || v.Kind() == reflect.Interface \{ if v.IsNil()
  \{ return nil \}; v = v.Elem() \}\<close> that most functions start with: \<open>None\<close> when a nil is met.\<close>

fun deref :: "gval \<Rightarrow> gval option" where
  "deref VNil = None"
| "deref (VPtr t None) = None"
| "deref (VPtr t (Some v)) = deref v"
| "deref (VIface None) = None"
| "deref (VIface (Some v)) = deref v"
| "deref v = Some v"

text \<open>A dereferenced value is neither a pointer nor an interface, and dereferencing is
  idempotent.\<close>

fun is_indirect :: "gval \<Rightarrow> bool" where
  "is_indirect VNil = True"
| "is_indirect (VPtr _ _) = True"
| "is_indirect (VIface _) = True"
| "is_indirect _ = False"

lemma deref_direct [simp]: "\<not> is_indirect v \<Longrightarrow> deref v = Some v"
  by (cases v) auto

lemma deref_not_indirect: "deref v = Some w \<Longrightarrow> \<not> is_indirect w"
  by (induction v rule: deref.induct) auto

lemma deref_idem: "deref v = Some w \<Longrightarrow> deref w = Some w"
  by (simp add: deref_not_indirect)

lemma size_deref: "deref v = Some w \<Longrightarrow> size w \<le> size v"
  by (induction v rule: deref.induct) auto

end
