(* ===== verification/Errors.thy ===== *)
theory Errors
  imports GoTypes
begin

text \<open>
  The errors of the program (\<^verbatim>\<open>src/errors.go\<close> and the messages built in place), Go's
  run-time panics, and the outcome type of every fallible operation.

  \<open>Err\<close> is a returned non-nil \<^verbatim>\<open>error\<close>, \<open>Panic\<close> a run-time panic (which code that
  ignores an error does not ignore), \<open>NoFuel\<close> the exhaustion of the step bound of a model
  of an unbounded loop; it never comes from the program, and the theorems about such loops
  show that the chosen bound is enough.
\<close>

datatype go_panic =
    IndexOutOfRange
  | SliceOutOfRange
  | MakeSliceLen
  | NilDereference
  | TypeAssertion
  | ReflectPanic
  | UnhashableKey

datatype error =
    NotActiveTransactionError
  | NestedTransactionNotSupportedError
  | DatabaseClosedError
  | RollbackOnlyTransactionError string
  | InvalidTransactionWaitTimeoutError
  | InvalidTransactionContextError
  | TransactionWaitTimeoutError
  | ContextDeadlineExceeded
  | ContextCanceled
  | DuplicateIndexError string string gval
  | InvalidTableNameError
  | IncompatibleTypesError
  | IoEOF
  | IoErrUnexpectedEOF
  | IoErrShortWrite
  | OsErrInvalid
  | OsError string
  | InvalidPageSizeError
  | PageChecksumError
  | InvalidSuperblockMagic
  | CatalogPageOverflow
  | InvalidCatalogMagic
  | PageOverflow
  | InvalidPageMagic
  | BothSuperblocksCorrupt
  | InvalidStringLength int
  | OnlyStructsAtTopLevel
  | UnmarshalTargetNotStruct
  | MetadataMissing
  | UnsupportedSliceType
  | UnsupportedType
  | UnknownTag byte
  | CannotCast
  | IntegerOverflow
  | CompositeKeyTooShort
  | CompositeKeyCorrupt
  | WalMagicMismatch
  | WalUnknownOperation byte
  | WalInvalidPayloadLength int
  | WalChecksumMismatch
  | CorruptPointerSize int
  | CorruptPointerOffset int
  | RecordUnexpectedEOF int int
  | WrapError string error
  | Errorf string

datatype 'a res = Ok 'a | Err error | Panic go_panic | NoFuel

fun bindR :: "'a res \<Rightarrow> ('a \<Rightarrow> 'b res) \<Rightarrow> 'b res" where
  "bindR (Ok x) f = f x"
| "bindR (Err e) f = Err e"
| "bindR (Panic p) f = Panic p"
| "bindR NoFuel f = NoFuel"

definition mapR :: "('a \<Rightarrow> 'b) \<Rightarrow> 'a res \<Rightarrow> 'b res" where
  "mapR f r = bindR r (\<lambda>x. Ok (f x))"

text \<open>Running a fallible step over a list, stopping at the first failure.\<close>

fun foldR :: "('s \<Rightarrow> 'a \<Rightarrow> 's res) \<Rightarrow> 's \<Rightarrow> 'a list \<Rightarrow> 's res" where
  "foldR f s [] = Ok s"
| "foldR f s (x # xs) = bindR (f s x) (\<lambda>s'. foldR f s' xs)"

lemma bindR_Ok_iff: "bindR r f = Ok y \<longleftrightarrow> (\<exists>x. r = Ok x \<and> f x = Ok y)"
  by (cases r) auto

lemma bindR_OkE [elim!]:
  assumes "bindR r f = Ok y"
  obtains x where "r = Ok x" "f x = Ok y"
  using assms by (auto simp: bindR_Ok_iff)

lemma bindR_NoFuel_iff: "bindR r f = NoFuel \<longleftrightarrow> r = NoFuel \<or> (\<exists>x. r = Ok x \<and> f x = NoFuel)"
  by (cases r) auto

lemma bindR_cong [fundef_cong]:
  "r = r' \<Longrightarrow> (\<And>x. r' = Ok x \<Longrightarrow> f x = f' x) \<Longrightarrow> bindR r f = bindR r' f'"
  by (cases r') auto

lemma bindR_assoc: "bindR (bindR r f) g = bindR r (\<lambda>x. bindR (f x) g)"
  by (cases r) auto

lemma mapR_simps [simp]:
  "mapR f (Ok x) = Ok (f x)" "mapR f (Err e) = Err e" "mapR f (Panic p) = Panic p"
  "mapR f NoFuel = NoFuel"
  by (simp_all add: mapR_def)

lemma mapR_Ok_iff: "mapR f r = Ok y \<longleftrightarrow> (\<exists>x. r = Ok x \<and> y = f x)"
  by (cases r) auto

lemma foldR_append: "foldR f s (xs @ ys) = bindR (foldR f s xs) (\<lambda>s'. foldR f s' ys)"
  by (induction xs arbitrary: s) (auto simp: bindR_assoc)

lemma foldR_Ok:
  "(\<And>s x. x \<in> set xs \<Longrightarrow> f s x = Ok (g s x)) \<Longrightarrow> foldR f s xs = Ok (foldl g s xs)"
  by (induction xs arbitrary: s) auto

lemma foldR_invariant:
  assumes "foldR f s xs = Ok t" "P s"
    and "\<And>s x s'. x \<in> set xs \<Longrightarrow> P s \<Longrightarrow> f s x = Ok s' \<Longrightarrow> P s'"
  shows "P t"
  using assms
proof (induction xs arbitrary: s)
  case Nil
  then show ?case by simp
next
  case (Cons x xs)
  from Cons.prems(1) obtain s' where s': "f s x = Ok s'" "foldR f s' xs = Ok t"
    by auto
  moreover from s'(1) Cons.prems(2,3) have "P s'" by auto
  ultimately show ?case using Cons.IH Cons.prems(3) by (meson list.set_intros(2))
qed

text \<open>\<^verbatim>\<open>errors.Is\<close> for the errors the program compares: the timeout error also matches
  \<^verbatim>\<open>context.DeadlineExceeded\<close>, through its \<^verbatim>\<open>Is\<close> method; a wrapped error matches what it
  wraps.\<close>

fun errors_Is :: "error \<Rightarrow> error \<Rightarrow> bool" where
  "errors_Is TransactionWaitTimeoutError target =
     (target = TransactionWaitTimeoutError \<or> target = ContextDeadlineExceeded)"
| "errors_Is (WrapError m e) target = (target = WrapError m e \<or> errors_Is e target)"
| "errors_Is e target = (e = target)"

section \<open>Table names\<close>

definition isTableNameChar :: "char \<Rightarrow> bool" where
  "isTableNameChar c =
     ((97 \<le> (of_char c :: nat) \<and> (of_char c :: nat) \<le> 122)
      \<or> (65 \<le> (of_char c :: nat) \<and> (of_char c :: nat) \<le> 90)
      \<or> (48 \<le> (of_char c :: nat) \<and> (of_char c :: nat) \<le> 57)
      \<or> c = CHR ''_'' \<or> c = CHR ''-'')"

text \<open>The Go loop ranges over runes; every byte of a non-ASCII rune is above 127, so it is
  rejected here as its rune is there.\<close>

definition isValidTableName :: "string \<Rightarrow> bool" where
  "isValidTableName tableName = (length tableName \<noteq> 0 \<and> list_all isTableNameChar tableName)"

text \<open>A valid table name is not empty and has no path separator, dot, quote or NUL, so that the
  file names derived from it stay inside the database directory.\<close>

theorem valid_table_name_is_plain:
  assumes "isValidTableName name"
  shows "name \<noteq> [] \<and> (\<forall>c \<in> set name. c \<notin> {CHR ''/'', CHR 0x5C, CHR ''.'', CHR 0x22, CHR '':'', CHR '' '', CHR 0x00})"
  using assms by (auto simp: isValidTableName_def isTableNameChar_def list_all_iff)

theorem valid_table_name_is_plain_witness:
  "isValidTableName ''users_2-b'' \<and> CHR ''/'' \<notin> set ''users_2-b''"
proof
  show v: "isValidTableName ''users_2-b''" by code_simp
  show "CHR ''/'' \<notin> set ''users_2-b''" using valid_table_name_is_plain [OF v] by blast
qed

end
