(* ===== verification/GoRuntime.thy ===== *)
theory GoRuntime
  imports Errors
begin

text \<open>
  What the program uses of Go's standard library: reading fixed-width values from an
  \<^verbatim>\<open>io.Reader\<close> (\<^verbatim>\<open>io.ReadFull\<close>, \<^verbatim>\<open>binary.Read\<close>), checked slicing, \<^verbatim>\<open>sort.Search\<close>,
  \<^verbatim>\<open>bytes.Compare\<close>, the ASCII string functions of \<^verbatim>\<open>strings\<close>, \<^verbatim>\<open>hash/crc32\<close> with the
  Castagnoli polynomial, and positional file I/O. A reader is the list of the bytes still
  to be read.
\<close>

section \<open>Readers\<close>

text \<open>\<^verbatim>\<open>io.ReadFull\<close> into a buffer of \<open>n\<close> bytes: \<^verbatim>\<open>io.EOF\<close> when nothing could be read,
  \<^verbatim>\<open>io.ErrUnexpectedEOF\<close> when only a part could.\<close>

definition readFull :: "nat \<Rightarrow> bytes \<Rightarrow> (bytes \<times> bytes) res" where
  "readFull n bs =
     (if n \<le> length bs then Ok (take n bs, drop n bs)
      else if bs = [] then Err IoEOF else Err IoErrUnexpectedEOF)"

definition readByte :: "bytes \<Rightarrow> (byte \<times> bytes) res" where
  "readByte bs = (case bs of [] \<Rightarrow> Err IoEOF | b # r \<Rightarrow> Ok (b, r))"

definition readInt32 :: "bytes \<Rightarrow> (32 word \<times> bytes) res" where
  "readInt32 bs = bindR (readFull 4 bs) (\<lambda>(b, r). Ok (Uint32 b, r))"

definition readInt64 :: "bytes \<Rightarrow> (64 word \<times> bytes) res" where
  "readInt64 bs = bindR (readFull 8 bs) (\<lambda>(b, r). Ok (Uint64 b, r))"

definition readBool :: "bytes \<Rightarrow> (bool \<times> bytes) res" where
  "readBool bs = bindR (readByte bs) (\<lambda>(b, r). Ok (b \<noteq> 0, r))"

text \<open>The contract between a writer and a reader of one value: reading what was written
  gives the value back and leaves exactly the bytes after it. Sequences of such values
  follow once, for every codec.\<close>

locale stream_codec =
  fixes put :: "'a \<Rightarrow> bytes"
    and get :: "bytes \<Rightarrow> ('a \<times> bytes) res"
    and valid :: "'a \<Rightarrow> bool"
  assumes get_put: "valid x \<Longrightarrow> get (put x @ rest) = Ok (x, rest)"
begin

lemma put_inj:
  assumes "valid x" "valid y" "put x @ r = put y @ s"
  shows "x = y \<and> r = s"
proof -
  have "Ok (x, r) = get (put y @ s)"
    using get_put [OF assms(1), of r] unfolding assms(3) by (rule sym)
  then show ?thesis using get_put [OF assms(2), of s] by simp
qed

lemma get_put_all: "valid x \<Longrightarrow> get (put x) = Ok (x, [])"
  using get_put [of x "[]"] by simp

end

lemma readFull_append [simp]: "n = length b \<Longrightarrow> readFull n (b @ r) = Ok (b, r)"
  by (simp add: readFull_def)

interpretation byte_codec: stream_codec "\<lambda>b. [b]" readByte "\<lambda>_. True"
  by unfold_locales (simp add: readByte_def)

interpretation int32_codec: stream_codec PutUint32 readInt32 "\<lambda>_. True"
  by unfold_locales (simp add: readInt32_def)

interpretation int64_codec: stream_codec PutUint64 readInt64 "\<lambda>_. True"
  by unfold_locales (simp add: readInt64_def)

interpretation bool_codec: stream_codec "\<lambda>b. [if b then 1 else 0]" readBool "\<lambda>_. True"
  by unfold_locales (simp add: readBool_def readByte_def)

lemmas read_put [simp] = int32_codec.get_put [OF TrueI] int64_codec.get_put [OF TrueI]

lemma readByte_Cons [simp]: "readByte (b # r) = Ok (b, r)"
  by (simp add: readByte_def)

lemma readFull_shorter: "readFull n bs = Ok (b, r) \<Longrightarrow> length bs = n + length r"
  by (auto simp: readFull_def split: if_splits)

lemma readByte_shorter: "readByte bs = Ok (b, r) \<Longrightarrow> length bs = Suc (length r)"
  by (auto simp: readByte_def split: list.splits)

lemma readInt32_shorter: "readInt32 bs = Ok (w, r) \<Longrightarrow> length bs = 4 + length r"
  by (auto simp: readInt32_def dest: readFull_shorter)

lemma readInt64_shorter: "readInt64 bs = Ok (w, r) \<Longrightarrow> length bs = 8 + length r"
  by (auto simp: readInt64_def dest: readFull_shorter)

lemmas read_shorter = readFull_shorter readByte_shorter readInt32_shorter readInt64_shorter

section \<open>Checked slicing\<close>

text \<open>\<^verbatim>\<open>p[a:b]\<close> panics unless \<open>a \<le> b \<le> len(p)\<close>; \<^verbatim>\<open>p[i]\<close> panics outside the slice.\<close>

definition slice :: "'a list \<Rightarrow> nat \<Rightarrow> nat \<Rightarrow> 'a list res" where
  "slice p a b = (if a \<le> b \<and> b \<le> length p then Ok (sub p a (b - a)) else Panic SliceOutOfRange)"

definition index_at :: "'a list \<Rightarrow> nat \<Rightarrow> 'a res" where
  "index_at p i = (if i < length p then Ok (p ! i) else Panic IndexOutOfRange)"

lemma slice_Ok [simp]: "a \<le> b \<Longrightarrow> b \<le> length p \<Longrightarrow> slice p a b = Ok (sub p a (b - a))"
  by (simp add: slice_def)

lemma index_at_Ok [simp]: "i < length p \<Longrightarrow> index_at p i = Ok (p ! i)"
  by (simp add: index_at_def)

section \<open>sort.Search\<close>

text \<open>The binary search of the standard library: the smallest \<open>i\<close> in \<open>[lo, hi)\<close> with
  \<open>f i\<close> true, if \<open>f\<close> is monotone, else \<open>hi\<close>. The predicate may panic.\<close>

function sort_search_loop :: "(nat \<Rightarrow> bool res) \<Rightarrow> nat \<Rightarrow> nat \<Rightarrow> nat res" where
  "sort_search_loop f i j =
     (if i < j then
        bindR (f ((i + j) div 2)) (\<lambda>b.
          if \<not> b then sort_search_loop f (Suc ((i + j) div 2)) j
          else sort_search_loop f i ((i + j) div 2))
      else Ok i)"
  by pat_completeness auto
termination
  by (relation "measure (\<lambda>(f, i, j). j - i)") auto

declare sort_search_loop.simps [simp del]

definition sort_Search :: "nat \<Rightarrow> (nat \<Rightarrow> bool res) \<Rightarrow> nat res" where
  "sort_Search n f = sort_search_loop f 0 n"

lemma sort_search_loop_correct:
  assumes "\<And>h. i \<le> h \<Longrightarrow> h < j \<Longrightarrow> f h = Ok (m \<le> h)" "i \<le> m" "m \<le> j"
  shows "sort_search_loop f i j = Ok m"
  using assms
proof (induction f i j rule: sort_search_loop.induct)
  case (1 f i j)
  show ?case
  proof (cases "i < j")
    case False
    with "1.prems" show ?thesis by (simp add: sort_search_loop.simps)
  next
    case True
    let ?h = "(i + j) div 2"
    from True have h: "i \<le> ?h" "?h < j" by auto
    then have fh: "f ?h = Ok (m \<le> ?h)" using "1.prems"(1) by simp
    show ?thesis
    proof (cases "m \<le> ?h")
      case True
      then have "sort_search_loop f i ?h = Ok m"
        using "1.IH"(2) [OF \<open>i < j\<close> fh] "1.prems" h by auto
      with True \<open>i < j\<close> fh show ?thesis by (subst sort_search_loop.simps) simp
    next
      case False
      then have "sort_search_loop f (Suc ?h) j = Ok m"
        using "1.IH"(1) [OF \<open>i < j\<close> fh] "1.prems" h by auto
      with False \<open>i < j\<close> fh show ?thesis by (subst sort_search_loop.simps) simp
    qed
  qed
qed

lemma sort_Search_correct:
  assumes "\<And>h. h < n \<Longrightarrow> f h = Ok (m \<le> h)" "m \<le> n"
  shows "sort_Search n f = Ok m"
  unfolding sort_Search_def by (rule sort_search_loop_correct) (use assms in auto)

lemma sort_search_loop_bounds:
  "sort_search_loop f i j = Ok m \<Longrightarrow> i \<le> j \<Longrightarrow> i \<le> m \<and> m \<le> j"
proof (induction f i j rule: sort_search_loop.induct)
  case (1 f i j)
  show ?case
  proof (cases "i < j")
    case False
    with "1.prems" show ?thesis by (simp add: sort_search_loop.simps)
  next
    case True
    let ?h = "(i + j) div 2"
    from "1.prems"(1) True obtain b where b: "f ?h = Ok b"
      and r: "(if \<not> b then sort_search_loop f (Suc ?h) j else sort_search_loop f i ?h) = Ok m"
      by (subst (asm) sort_search_loop.simps) auto
    from True have h: "i \<le> ?h" "Suc ?h \<le> j" by auto
    show ?thesis
      using "1.IH"(1) [OF True b] "1.IH"(2) [OF True b] r h by (cases b) auto
  qed
qed

lemma sort_Search_bound: "sort_Search n f = Ok m \<Longrightarrow> m \<le> n"
  unfolding sort_Search_def using sort_search_loop_bounds by blast

section \<open>bytes.Compare\<close>

fun bytes_Compare :: "bytes \<Rightarrow> bytes \<Rightarrow> int" where
  "bytes_Compare [] [] = 0"
| "bytes_Compare [] (b # bs) = -1"
| "bytes_Compare (a # as) [] = 1"
| "bytes_Compare (a # as) (b # bs) =
     (if a < b then -1 else if b < a then 1 else bytes_Compare as bs)"

lemma bytes_Compare_eq_0 [simp]: "bytes_Compare a b = 0 \<longleftrightarrow> a = b"
  by (induction a b rule: bytes_Compare.induct) auto

lemma bytes_Compare_swap: "bytes_Compare b a = - bytes_Compare a b"
  by (induction a b rule: bytes_Compare.induct) auto

lemma bytes_Compare_range: "bytes_Compare a b \<in> {-1, 0, 1}"
  by (induction a b rule: bytes_Compare.induct) auto

lemma bytes_Compare_Nil [simp]: "bytes_Compare [] b \<le> 0"
  by (cases b) auto

lemma bytes_Compare_trans:
  "bytes_Compare a b \<le> 0 \<Longrightarrow> bytes_Compare b c \<le> 0 \<Longrightarrow> bytes_Compare a c \<le> 0"
proof (induction a b arbitrary: c rule: bytes_Compare.induct)
  case (4 a as b bs)
  then show ?case by (cases c) (auto split: if_splits)
qed auto

section \<open>ASCII string functions\<close>

definition toLower_char :: "char \<Rightarrow> char" where
  "toLower_char c = (let n = of_char c :: nat in if 65 \<le> n \<and> n \<le> 90 then char_of (n + 32) else c)"

definition strings_ToLower :: "string \<Rightarrow> string" where
  "strings_ToLower s = map toLower_char s"

definition strings_EqualFold :: "string \<Rightarrow> string \<Rightarrow> bool" where
  "strings_EqualFold s t = (strings_ToLower s = strings_ToLower t)"

definition isSpace :: "char \<Rightarrow> bool" where
  "isSpace c = (let n = of_char c :: nat in n = 32 \<or> (9 \<le> n \<and> n \<le> 13))"

definition strings_TrimSpace :: "string \<Rightarrow> string" where
  "strings_TrimSpace s = rev (dropWhile isSpace (rev (dropWhile isSpace s)))"

fun strings_Split :: "char \<Rightarrow> string \<Rightarrow> string list" where
  "strings_Split c [] = [[]]"
| "strings_Split c (x # xs) =
     (if x = c then [] # strings_Split c xs
      else (case strings_Split c xs of [] \<Rightarrow> [[x]] | p # ps \<Rightarrow> (x # p) # ps))"

section \<open>CRC-32 (Castagnoli)\<close>

text \<open>\<^verbatim>\<open>crc32.Checksum(data, crc32.MakeTable(crc32.Castagnoli))\<close>: the reflected polynomial
  0x82f63b78, bit by bit. Feeding a hash in pieces gives the checksum of the
  concatenation.\<close>

definition crc_bit :: "32 word \<Rightarrow> 32 word" where
  "crc_bit c = (if c AND 1 = 1 then drop_bit 1 c XOR 0x82f63b78 else drop_bit 1 c)"

definition crc_byte :: "32 word \<Rightarrow> byte \<Rightarrow> 32 word" where
  "crc_byte c b = (crc_bit ^^ 8) (c XOR ucast b)"

definition crc32c :: "bytes \<Rightarrow> 32 word" where
  "crc32c bs = NOT (foldl crc_byte (NOT 0) bs)"

lemma crc_byte_steps:
  "crc_byte c b = crc_bit (crc_bit (crc_bit (crc_bit (crc_bit (crc_bit (crc_bit (crc_bit (c XOR ucast b))))))))"
  by (simp add: crc_byte_def numeral_eq_Suc)

lemma crc32c_start: "crc32c bs = NOT (foldl crc_byte 0xFFFFFFFF bs)"
proof -
  have "NOT 0 = (0xFFFFFFFF :: 32 word)" by code_simp
  then show ?thesis by (simp only: crc32c_def)
qed

lemmas crc_eval = crc32c_start crc_byte_steps crc_bit_def

text \<open>The check value of CRC-32C, of the bytes of \<^verbatim>\<open>"123456789"\<close>.\<close>

lemma crc32c_check: "crc32c [0x31, 0x32, 0x33, 0x34, 0x35, 0x36, 0x37, 0x38, 0x39] = 0xE3069283"
  by (simp add: crc_eval)

section \<open>Positional file I/O\<close>

text \<open>The outcome of a write as the operating system reports it: all bytes written, or an
  error after a prefix of \<open>k\<close> bytes.\<close>

datatype write_outcome = WOk | WFail nat error

definition writeAt :: "bytes \<Rightarrow> nat \<Rightarrow> bytes \<Rightarrow> bytes" where
  "writeAt f off bs =
     (let g = f @ replicate (off - length f) 0
      in take off g @ bs @ drop (off + length bs) g)"

definition readAt :: "bytes \<Rightarrow> nat \<Rightarrow> nat \<Rightarrow> bytes res" where
  "readAt f off n = (if off + n \<le> length f \<or> n = 0 then Ok (sub f off n) else Err IoEOF)"

lemma writeAt_end [simp]: "writeAt f (length f) bs = f @ bs"
  by (simp add: writeAt_def)

lemma readAt_append: "off + n \<le> length f \<Longrightarrow> readAt (f @ g) off n = readAt f off n"
  by (auto simp: readAt_def sub_def)

lemma readAt_writeAt_same:
  "off \<le> length f \<Longrightarrow> n = length bs \<Longrightarrow> readAt (writeAt f off bs) off n = Ok bs"
  by (simp add: readAt_def writeAt_def sub_def)

lemma readAt_writeAt_before:
  "o2 + n \<le> off \<Longrightarrow> o2 + n \<le> length f \<Longrightarrow> readAt (writeAt f off bs) o2 n = readAt f o2 n"
  by (auto simp: readAt_def writeAt_def sub_def drop_take)

end
