(* ===== verification/Floats.thy ===== *)
theory Floats
  imports GoRuntime
begin

text \<open>
  IEEE-754 binary64 and binary32 as bit patterns, with what the program uses of Go's
  floating-point arithmetic: the comparison \<^verbatim>\<open><\<close>, the conversion of integers to
  \<^verbatim>\<open>float64\<close> (round to nearest, ties to even) and the conversions between the two widths.
\<close>

definition f64_isNaN :: "64 word \<Rightarrow> bool" where
  "f64_isNaN b = (take_bit 63 b > push_bit 52 2047)"

text \<open>Sign and magnitude read as one integer: order-isomorphic to the real order on
  non-NaN patterns, with both zeros at 0.\<close>

definition f64_key :: "64 word \<Rightarrow> int" where
  "f64_key b = (if bit b 63 then - uint (take_bit 63 b) else uint b)"

definition f64_less :: "64 word \<Rightarrow> 64 word \<Rightarrow> bool" where
  "f64_less a b = (\<not> f64_isNaN a \<and> \<not> f64_isNaN b \<and> f64_key a < f64_key b)"

function bitlen :: "int \<Rightarrow> int" where
  "bitlen n = (if n \<le> 0 then 0 else 1 + bitlen (n div 2))"
  by pat_completeness auto
termination
  by (relation "measure nat") auto

declare bitlen.simps [simp del]

text \<open>\<open>m / 2^k\<close> rounded to nearest, ties to even.\<close>

definition round_even :: "int \<Rightarrow> int \<Rightarrow> int" where
  "round_even m k =
     (if k \<le> 0 then m
      else let q = m div 2 ^ nat k; r = m mod 2 ^ nat k; h = 2 ^ nat (k - 1)
           in if r > h \<or> (r = h \<and> q mod 2 = 1) then q + 1 else q)"

definition f64_of_int :: "int \<Rightarrow> 64 word" where
  "f64_of_int n =
     (if n = 0 then 0
      else let m = \<bar>n\<bar>; e = bitlen m - 1;
               sig = (if e \<le> 52 then m * 2 ^ nat (52 - e) else round_even m (e - 52));
               mag = (e + 1022) * 2 ^ 52 + sig
           in word_of_int (if n < 0 then 2 ^ 63 + mag else mag))"

text \<open>A NaN is made quiet by setting the top bit of its fraction.\<close>

definition f64_of_f32 :: "32 word \<Rightarrow> 64 word" where
  "f64_of_f32 b =
     (let e = uint (take_bit 8 (drop_bit 23 b)); f = uint (take_bit 23 b);
          mag = (if e = 255 then
                   2047 * 2 ^ 52 + (if f = 0 then 0 else 2 ^ 51 + (f mod 2 ^ 22) * 2 ^ 29)
                 else if e = 0 then
                   (if f = 0 then 0
                    else let l = bitlen f - 1 in (l + 873) * 2 ^ 52 + f * 2 ^ nat (52 - l))
                 else (e + 896) * 2 ^ 52 + f * 2 ^ 29)
      in word_of_int (if bit b 31 then 2 ^ 63 + mag else mag))"

definition f32_of_f64 :: "64 word \<Rightarrow> 32 word" where
  "f32_of_f64 b =
     (let e = uint (take_bit 11 (drop_bit 52 b)); f = uint (take_bit 52 b);
          mag = (if e = 2047 then
                   255 * 2 ^ 23 + (if f = 0 then 0 else 2 ^ 22 + (f div 2 ^ 29) mod 2 ^ 22)
                 else let sig = (if e = 0 then f else f + 2 ^ 52);
                          ex = max e 1 - 1075;
                          q = max (bitlen sig + ex - 24) (-149);
                          m = (q + 149) * 2 ^ 23 + round_even sig (q - ex)
                      in if sig = 0 then 0 else min m (255 * 2 ^ 23))
      in word_of_int (if bit b 63 then 2 ^ 31 + mag else mag))"

lemma f64_less_asym: "f64_less a b \<Longrightarrow> \<not> f64_less b a"
  by (simp add: f64_less_def)

lemma f64_less_trans: "f64_less a b \<Longrightarrow> f64_less b c \<Longrightarrow> f64_less a c"
  by (auto simp: f64_less_def)

lemma f64_less_NaN [simp]: "f64_isNaN a \<Longrightarrow> \<not> f64_less a b" "f64_isNaN a \<Longrightarrow> \<not> f64_less b a"
  by (auto simp: f64_less_def)

lemma f64_of_int_examples:
  "f64_of_int 1 = 0x3ff0000000000000" "f64_of_int (- 2) = 0xc000000000000000"
  "f64_of_int 9007199254740993 = f64_of_int 9007199254740992"
  by (simp_all add: f64_of_int_def bitlen.simps round_even_def)

end
