(* ===== verification/Values.thy ===== *)
theory Values
  imports Floats
begin

text \<open>
  \<^verbatim>\<open>src/state.go\<close>: table and database states, the struct metadata derived from the
  \<^verbatim>\<open>keeper\<close> tags, the primary key and the fields of a record, and the comparison and
  canonicalisation of dynamic values.

  \<^verbatim>\<open>fmt.Sprintf("%v", v)\<close> is a parameter \<open>fmt\<close> of the functions that fall back to it:
  what is proved holds for every formatting. The map of tables is the list of its entries in
  iteration order. The process-wide \<^verbatim>\<open>structCache\<close> only
  memoises \<open>getStructMetadata\<close> and is left out.
\<close>

section \<open>Table and database states\<close>

record IndexMetadata =
  IndexName :: string
  FieldName :: string
  Unique :: bool
  Ordered :: bool

record TableState =
  TableName :: string
  IdType :: gtype
  EntityType :: gtype
  IndexMetadataList :: "IndexMetadata list"

definition NewTableState :: "string \<Rightarrow> gtype \<Rightarrow> gtype \<Rightarrow> IndexMetadata list \<Rightarrow> TableState" where
  "NewTableState tableName idType entityType indexMetadataList =
     \<lparr>TableName = tableName, IdType = idType, EntityType = entityType,
      IndexMetadataList = indexMetadataList\<rparr>"

definition TableState_Copy :: "TableState \<Rightarrow> TableState" where
  "TableState_Copy tableState =
     \<lparr>TableName = TableName tableState, IdType = IdType tableState,
      EntityType = EntityType tableState, IndexMetadataList = IndexMetadataList tableState\<rparr>"

record DatabaseState =
  Generation :: "64 word"
  Tables :: "(string \<times> TableState) list"

definition NewDatabaseState :: "64 word \<Rightarrow> DatabaseState" where
  "NewDatabaseState generation = \<lparr>Generation = generation, Tables = []\<rparr>"

definition DatabaseState_Copy :: "DatabaseState \<Rightarrow> 64 word \<Rightarrow> DatabaseState" where
  "DatabaseState_Copy databaseState nextGeneration =
     \<lparr>Generation = nextGeneration,
      Tables = map (\<lambda>(tableName, tableState). (tableName, TableState_Copy tableState)) (Tables databaseState)\<rparr>"

section \<open>Struct metadata\<close>

record structFieldMarshalInfo =
  mf_index :: nat
  mf_name :: string

record structFieldInfo =
  sf_name :: string
  sf_index :: nat
  isID :: bool
  isIndex :: bool
  isUnique :: bool
  isOrdered :: bool

record structMetadata =
  idField :: structFieldInfo
  md_fields :: "string \<rightharpoonup> structFieldInfo"
  marshalFields :: "structFieldMarshalInfo list"

definition zeroFieldInfo :: structFieldInfo where
  "zeroFieldInfo = \<lparr>sf_name = [], sf_index = 0, isID = False, isIndex = False, isUnique = False,
     isOrdered = False\<rparr>"

text \<open>The struct fields of a type: \<^verbatim>\<open>time.Time\<close> is a struct with unexported fields only.\<close>

fun structFields :: "gtype \<Rightarrow> gfield list option" where
  "structFields (TPtr t) = structFields t"
| "structFields (TStruct n fs) = Some fs"
| "structFields TTime = Some []"
| "structFields _ = None"

definition keeperKeywords :: "string list" where
  "keeperKeywords = [''id'', ''index'', ''unique'', ''ordered'']"

fun applyTagPart :: "structFieldInfo \<Rightarrow> string \<Rightarrow> structFieldInfo" where
  "applyTagPart fi part =
     (let p = strings_TrimSpace part in
      if p = ''id'' then fi\<lparr>isID := True\<rparr>
      else if p = ''index'' then fi\<lparr>isIndex := True\<rparr>
      else if p = ''unique'' then fi\<lparr>isUnique := True\<rparr>
      else if p = ''ordered'' then fi\<lparr>isOrdered := True\<rparr>
      else fi)"

definition metaFieldName :: "gfield \<Rightarrow> string" where
  "metaFieldName structField =
     (let tag = fldTag structField in
      if tag \<noteq> [] then
        (let part0 = strings_TrimSpace (hd (strings_Split CHR '','' tag)) in
         if part0 \<notin> set keeperKeywords then part0 else fldName structField)
      else fldName structField)"

definition metaFieldInfo :: "nat \<Rightarrow> gfield \<Rightarrow> structFieldInfo" where
  "metaFieldInfo index structField =
     (let fi = zeroFieldInfo\<lparr>sf_name := fldName structField, sf_index := index\<rparr>;
          tag = fldTag structField
      in if tag \<noteq> [] then foldl applyTagPart fi (strings_Split CHR '','' tag) else fi)"

definition metaStep :: "structMetadata \<Rightarrow> nat \<times> gfield \<Rightarrow> structMetadata" where
  "metaStep metadata p =
     (case p of (index, structField) \<Rightarrow>
       if fldPkgPath structField \<noteq> [] then metadata
       else
         let fieldInfo = metaFieldInfo index structField;
             fieldName = metaFieldName structField;
             metadata1 = metadata\<lparr>md_fields := (md_fields metadata)
                (strings_ToLower (fldName structField) \<mapsto> fieldInfo,
                 strings_ToLower fieldName \<mapsto> fieldInfo)\<rparr>;
             metadata2 = (if isID fieldInfo then metadata1\<lparr>idField := fieldInfo\<rparr> else metadata1)
         in metadata2\<lparr>marshalFields :=
              marshalFields metadata2 @ [\<lparr>mf_index = index, mf_name = fieldName\<rparr>]\<rparr>)"

definition getStructMetadata :: "gtype \<Rightarrow> structMetadata option" where
  "getStructMetadata reflectType =
     (case structFields reflectType of
        None \<Rightarrow> None
      | Some fs \<Rightarrow>
          let metadata = foldl metaStep
                \<lparr>idField = zeroFieldInfo, md_fields = Map.empty, marshalFields = []\<rparr>
                (enumerate 0 fs)
          in Some (if sf_name (idField metadata) = [] then
                     (case md_fields metadata ''id'' of
                        Some fieldInfo \<Rightarrow>
                          metadata\<lparr>idField := fieldInfo\<lparr>isID := True\<rparr>,
                            md_fields := (md_fields metadata)(''id'' \<mapsto> fieldInfo\<lparr>isID := True\<rparr>)\<rparr>
                      | None \<Rightarrow> metadata)
                   else metadata))"

section \<open>Fields of a record\<close>

text \<open>\<^verbatim>\<open>reflectValue.Field(i)\<close> of a struct value, and whether the value is of struct kind.\<close>

fun structValues :: "gval \<Rightarrow> gval list option" where
  "structValues (VStruct n fs vs) = Some vs"
| "structValues (VTime s ns) = Some []"
| "structValues _ = None"

definition fieldAt :: "gval list \<Rightarrow> nat \<Rightarrow> gval" where
  "fieldAt vs i = (if i < length vs then vs ! i else VNil)"

definition derefOrNil :: "gval \<Rightarrow> gval" where
  "derefOrNil v = (case deref v of None \<Rightarrow> VNil | Some w \<Rightarrow> w)"

definition getPrimaryKey :: "gval \<Rightarrow> gval" where
  "getPrimaryKey record =
     (case deref record of
        None \<Rightarrow> VNil
      | Some reflectValue \<Rightarrow>
          (case structValues reflectValue of
             None \<Rightarrow> VNil
           | Some vs \<Rightarrow>
               (case getStructMetadata (typeOf reflectValue) of
                  None \<Rightarrow> VNil
                | Some metadata \<Rightarrow>
                    if sf_name (idField metadata) = [] then VNil
                    else derefOrNil (fieldAt vs (sf_index (idField metadata))))))"

definition getFieldValue :: "gval \<Rightarrow> string \<Rightarrow> gval" where
  "getFieldValue record fieldName =
     (case deref record of
        None \<Rightarrow> VNil
      | Some reflectValue \<Rightarrow>
          (case structValues reflectValue of
             None \<Rightarrow> VNil
           | Some vs \<Rightarrow>
               (case getStructMetadata (typeOf reflectValue) of
                  None \<Rightarrow> VNil
                | Some metadata \<Rightarrow>
                    (case md_fields metadata (strings_ToLower fieldName) of
                       None \<Rightarrow> VNil
                     | Some fieldInfo \<Rightarrow> derefOrNil (fieldAt vs (sf_index fieldInfo))))))"

section \<open>Comparing dynamic values\<close>

fun asFloat :: "gval \<Rightarrow> 64 word option" where
  "asFloat (VFloat64 v) = Some v"
| "asFloat (VFloat32 v) = Some (f64_of_f32 v)"
| "asFloat _ = None"

fun asInteger :: "gval \<Rightarrow> int option" where
  "asInteger (VInt v) = Some (sint v)"
| "asInteger (VInt64 v) = Some (sint v)"
| "asInteger (VInt32 v) = Some (sint v)"
| "asInteger (VInt16 v) = Some (sint v)"
| "asInteger (VInt8 v) = Some (sint v)"
| "asInteger _ = None"

definition asFloatOrInteger :: "gval \<Rightarrow> 64 word option" where
  "asFloatOrInteger value =
     (case asFloat value of
        Some f \<Rightarrow> Some f
      | None \<Rightarrow> (case asInteger value of Some i \<Rightarrow> Some (f64_of_int i) | None \<Rightarrow> None))"

definition string_less :: "string \<Rightarrow> string \<Rightarrow> bool" where
  "string_less s t = (bytes_Compare (string_bytes s) (string_bytes t) < 0)"

fun time_Before :: "64 word \<times> 32 word \<Rightarrow> 64 word \<times> 32 word \<Rightarrow> bool" where
  "time_Before (s1, n1) (s2, n2) = (sint s1 < sint s2 \<or> (s1 = s2 \<and> sint n1 < sint n2))"

text \<open>The three-way results all have the shape "-1 if left < right, 1 if left > right, else
  0".\<close>

definition three_way :: "('a \<Rightarrow> 'a \<Rightarrow> bool) \<Rightarrow> 'a \<Rightarrow> 'a \<Rightarrow> int" where
  "three_way lt l r = (if lt l r then -1 else if lt r l then 1 else 0)"

definition bool_less :: "bool \<Rightarrow> bool \<Rightarrow> bool" where
  "bool_less l r = (\<not> l \<and> r)"

text \<open>The type switch at the end of \<open>compareValues\<close>, with the formatted fallback.\<close>

definition compareTyped :: "(gval \<Rightarrow> string) \<Rightarrow> gval \<Rightarrow> gval \<Rightarrow> int" where
  "compareTyped fmt leftValue rightValue =
     (let fallback = three_way string_less (fmt leftValue) (fmt rightValue) in
      case leftValue of
        VString left \<Rightarrow>
          (case rightValue of VString right \<Rightarrow> three_way string_less left right | _ \<Rightarrow> fallback)
      | VBool left \<Rightarrow>
          (case rightValue of VBool right \<Rightarrow> three_way bool_less left right | _ \<Rightarrow> fallback)
      | VTime ls ln \<Rightarrow>
          (case rightValue of VTime rs rn \<Rightarrow> three_way time_Before (ls, ln) (rs, rn) | _ \<Rightarrow> fallback)
      | _ \<Rightarrow> fallback)"

definition compareValues :: "(gval \<Rightarrow> string) \<Rightarrow> gval \<Rightarrow> gval \<Rightarrow> int" where
  "compareValues fmt leftValue rightValue =
     (if leftValue = VNil \<and> rightValue = VNil then 0
      else if leftValue = VNil then -1
      else if rightValue = VNil then 1
      else
        case (asInteger leftValue, asInteger rightValue) of
          (Some leftInt, Some rightInt) \<Rightarrow> three_way (<) leftInt rightInt
        | _ \<Rightarrow>
          (case (asFloatOrInteger leftValue, asFloatOrInteger rightValue) of
             (Some leftNum, Some rightNum) \<Rightarrow> three_way f64_less leftNum rightNum
           | _ \<Rightarrow> compareTyped fmt leftValue rightValue))"

definition valuesEqual :: "(gval \<Rightarrow> string) \<Rightarrow> gval \<Rightarrow> gval \<Rightarrow> bool" where
  "valuesEqual fmt leftValue rightValue = (compareValues fmt leftValue rightValue = 0)"

section \<open>Canonical index keys\<close>

fun comparable :: "gtype \<Rightarrow> bool" and comparable_field :: "gfield \<Rightarrow> bool" where
  "comparable (TSlice t) = False"
| "comparable (TStruct n fs) = list_all comparable_field fs"
| "comparable (TOther n c) = c"
| "comparable _ = True"
| "comparable_field (GField n p t ty) = comparable ty"

text \<open>The type behind the pointers: a placeholder's struct holds a map, which is not
  comparable.\<close>

fun keyType :: "gval \<Rightarrow> gtype" where
  "keyType (VPlaceholder n fs) = TOther ''masterkeeper.StructPlaceholder'' False"
| "keyType v = typeOf v"

definition canonicalizeKey :: "(gval \<Rightarrow> string) \<Rightarrow> gval \<Rightarrow> gval" where
  "canonicalizeKey fmt value =
     (case deref value of
        None \<Rightarrow> VNil
      | Some v \<Rightarrow>
          if comparable (keyType v) then v
          else (case v of VBytes b \<Rightarrow> VString (bytes_string b) | _ \<Rightarrow> VString (fmt v)))"

section \<open>Laws of the comparison\<close>

lemma three_way_swap:
  assumes "\<And>x y. lt x y \<Longrightarrow> \<not> lt y x"
  shows "three_way lt r l = - three_way lt l r"
  using assms by (auto simp: three_way_def)

lemma three_way_self:
  assumes "\<And>x y. lt x y \<Longrightarrow> \<not> lt y x"
  shows "three_way lt x x = 0"
  using assms by (auto simp: three_way_def)

lemma string_less_asym: "string_less s t \<Longrightarrow> \<not> string_less t s"
  using bytes_Compare_swap [of "string_bytes s" "string_bytes t"] by (simp add: string_less_def)

lemma three_way_string: "three_way string_less s t = bytes_Compare (string_bytes s) (string_bytes t)"
proof -
  let ?c = "bytes_Compare (string_bytes s) (string_bytes t)"
  have "?c = -1 \<or> ?c = 0 \<or> ?c = 1"
    using bytes_Compare_range [of "string_bytes s" "string_bytes t"] by blast
  then show ?thesis
    using bytes_Compare_swap [of "string_bytes t" "string_bytes s"]
    by (auto simp: three_way_def string_less_def simp del: bytes_Compare_eq_0)
qed

lemma time_Before_asym: "time_Before a b \<Longrightarrow> \<not> time_Before b a"
  by (cases a; cases b) auto

lemma bool_less_asym: "bool_less a b \<Longrightarrow> \<not> bool_less b a"
  by (simp add: bool_less_def)

lemmas three_way_swaps =
  three_way_swap [where lt = "(<) :: int \<Rightarrow> int \<Rightarrow> bool", OF less_not_sym]
  three_way_swap [where lt = f64_less, OF f64_less_asym]
  three_way_swap [where lt = string_less, OF string_less_asym]
  three_way_swap [where lt = time_Before, OF time_Before_asym]
  three_way_swap [where lt = bool_less, OF bool_less_asym]

lemma three_way_sum:
  assumes "\<And>x y. lt x y \<Longrightarrow> \<not> lt y x"
  shows "three_way lt r l + three_way lt l r = 0"
  using assms by (auto simp: three_way_def)

lemma compareTyped_swap: "compareTyped fmt b a = - compareTyped fmt a b"
proof -
  have "compareTyped fmt b a + compareTyped fmt a b = 0"
    unfolding compareTyped_def Let_def
    by (cases a; cases b)
       (simp_all add: three_way_sum string_less_asym bool_less_asym time_Before_asym)
  then show ?thesis by linarith
qed

lemma asInteger_asFloat: "asInteger v = Some i \<Longrightarrow> asFloat v = None"
  by (cases v) auto

lemma asInteger_asFloatOrInteger:
  "asInteger v = Some i \<Longrightarrow> asFloatOrInteger v = Some (f64_of_int i)"
  by (simp add: asFloatOrInteger_def asInteger_asFloat)

text \<open>Which of the four stages decides, as a rule for proofs about the comparison.\<close>

lemma compareValues_cases [case_names nil int num typed]:
  assumes "a = VNil \<or> b = VNil \<Longrightarrow> P"
    and "\<And>i j. a \<noteq> VNil \<Longrightarrow> b \<noteq> VNil \<Longrightarrow> asInteger a = Some i \<Longrightarrow> asInteger b = Some j \<Longrightarrow> P"
    and "\<And>x y. a \<noteq> VNil \<Longrightarrow> b \<noteq> VNil \<Longrightarrow> asInteger a = None \<or> asInteger b = None \<Longrightarrow>
          asFloatOrInteger a = Some x \<Longrightarrow> asFloatOrInteger b = Some y \<Longrightarrow> P"
    and "a \<noteq> VNil \<Longrightarrow> b \<noteq> VNil \<Longrightarrow> asInteger a = None \<or> asInteger b = None \<Longrightarrow>
          asFloatOrInteger a = None \<or> asFloatOrInteger b = None \<Longrightarrow> P"
  shows P
  using assms by (metis not_None_eq)

lemma compareValues_int:
  "asInteger a = Some i \<Longrightarrow> asInteger b = Some j \<Longrightarrow> compareValues fmt a b = three_way (<) i j"
  by (auto simp: compareValues_def)

lemma compareValues_num:
  "asInteger a = None \<or> asInteger b = None \<Longrightarrow> asFloatOrInteger a = Some x \<Longrightarrow>
   asFloatOrInteger b = Some y \<Longrightarrow> compareValues fmt a b = three_way f64_less x y"
  by (auto simp: compareValues_def asFloatOrInteger_def split: option.splits)

lemma compareValues_typed:
  "a \<noteq> VNil \<Longrightarrow> b \<noteq> VNil \<Longrightarrow> asInteger a = None \<or> asInteger b = None \<Longrightarrow>
   asFloatOrInteger a = None \<or> asFloatOrInteger b = None \<Longrightarrow>
   compareValues fmt a b = compareTyped fmt a b"
  by (auto simp: compareValues_def split: option.splits)

lemma compareValues_neg_swap: "compareValues fmt b a = - compareValues fmt a b"
proof (cases a b rule: compareValues_cases)
  case nil
  then show ?thesis by (auto simp: compareValues_def)
next
  case (int i j)
  then show ?thesis by (simp add: compareValues_int three_way_swaps(1) [of j i])
next
  case (num x y)
  then have "compareValues fmt a b = three_way f64_less x y"
    "compareValues fmt b a = three_way f64_less y x"
    by (auto intro: compareValues_num)
  then show ?thesis by (simp add: three_way_swaps(2) [of y x])
next
  case typed
  then have "compareValues fmt a b = compareTyped fmt a b"
    "compareValues fmt b a = compareTyped fmt b a"
    by (auto intro: compareValues_typed)
  then show ?thesis by (simp add: compareTyped_swap [of fmt b a])
qed

lemma three_way_range: "three_way lt x y \<in> {-1, 0, 1}"
  by (simp add: three_way_def)

lemma compareValues_range: "compareValues fmt a b \<in> {-1, 0, 1}"
proof (cases a b rule: compareValues_cases)
  case nil
  then show ?thesis by (auto simp: compareValues_def)
next
  case (int i j)
  then show ?thesis by (simp only: compareValues_int three_way_range)
next
  case (num x y)
  then show ?thesis unfolding compareValues_num [OF num(3-5)] by (simp only: three_way_range)
next
  case typed
  have "compareTyped fmt a b \<in> {-1, 0, 1}"
    unfolding compareTyped_def Let_def by (cases a; cases b) (simp_all only: gval.simps three_way_range)
  then show ?thesis unfolding compareValues_typed [OF typed] .
qed

section \<open>Properties of the comparison\<close>

text \<open>Comparing two values in the other order negates the result, for every pair of values
  of any kinds; the result is -1, 0 or 1, and a value is equal to itself.\<close>

theorem compareValues_swap:
  "compareValues fmt b a = - compareValues fmt a b \<and> compareValues fmt a b \<in> {-1, 0, 1} \<and>
   valuesEqual fmt a a"
  using compareValues_neg_swap [of fmt b a] compareValues_neg_swap [of fmt a a] compareValues_range [of fmt a b]
  by (simp add: valuesEqual_def)

end
