(* ===== verification/Codec.thy ===== *)
theory Codec
  imports Values "HOL-Library.AList"
begin

text \<open>
  \<^verbatim>\<open>src/codec.go\<close> and the key functions of \<^verbatim>\<open>src/index.go\<close>: the binary format of records
  and keys.

  A writer appends to a \<^verbatim>\<open>bytes.Buffer\<close>, so writing returns the bytes written or the error;
  a reader is the list of remaining bytes. A decoded \<^verbatim>\<open>map[string]any\<close> is an association
  list without duplicate keys. What Go leaves open is the record \<open>go_env\<close>: the text
  \<^verbatim>\<open>fmt.Sprintf("%v", v)\<close> produces, \<^verbatim>\<open>reflect\<close>'s conversions into kinds outside the model,
  and the order in which a map is ranged over.
\<close>

record go_env =
  Sprintf :: "gval \<Rightarrow> string"
  Convert :: "gval \<Rightarrow> gtype \<Rightarrow> gval option"
  MapOrder :: "string list \<Rightarrow> string list"

section \<open>Writing\<close>

definition writeString :: "string \<Rightarrow> bytes" where
  "writeString strValue = PutUint32 (of_nat (length strValue)) @ string_bytes strValue"

text \<open>\<open>writeStructFields t es\<close>: the marshalled fields of a struct of type \<open>t\<close>, where \<open>es\<close>
  holds the encoding of each field value by field index (the recursion of \<open>writeValue\<close> goes
  through that list); the first failing field stops the writing.\<close>

definition writeStructFields :: "gtype \<Rightarrow> bytes res list \<Rightarrow> bytes res" where
  "writeStructFields t es =
     (case getStructMetadata t of
        None \<Rightarrow> Err MetadataMissing
      | Some metadata \<Rightarrow>
          foldR (\<lambda>buffer fieldInfo.
              bindR (if mf_index fieldInfo < length es then es ! mf_index fieldInfo
                     else Panic ReflectPanic)
                (\<lambda>b. Ok (buffer @ writeString (mf_name fieldInfo) @ b)))
            (PutUint32 (of_nat (length (marshalFields metadata))))
            (marshalFields metadata))"

fun writeValue :: "gval \<Rightarrow> bytes res" where
  "writeValue VNil = Ok [0]"
| "writeValue (VPtr t None) = Ok [0]"
| "writeValue (VPtr t (Some v)) = writeValue v"
| "writeValue (VIface None) = Ok [0]"
| "writeValue (VIface (Some v)) = writeValue v"
| "writeValue (VString s) = Ok (1 # writeString s)"
| "writeValue (VBytes b) = Ok (2 # PutUint32 (of_nat (length b)) @ b)"
| "writeValue (VTime sec nsec) = Ok (3 # PutUint64 sec @ PutUint32 nsec)"
| "writeValue (VStruct n fs vs) =
     bindR (writeStructFields (TStruct n fs) (map writeValue vs)) (\<lambda>b. Ok (9 # writeString n @ b))"
| "writeValue (VInt w) = Ok (5 # PutUint64 w)"
| "writeValue (VInt8 w) = Ok (4 # PutUint32 (scast w))"
| "writeValue (VInt16 w) = Ok (4 # PutUint32 (scast w))"
| "writeValue (VInt32 w) = Ok (4 # PutUint32 w)"
| "writeValue (VInt64 w) = Ok (5 # PutUint64 w)"
| "writeValue (VFloat32 f) = Ok (6 # PutUint64 (f64_of_f32 f))"
| "writeValue (VFloat64 f) = Ok (6 # PutUint64 f)"
| "writeValue (VBool b) = Ok [7, if b then 1 else 0]"
| "writeValue (VPlaceholder n fs) = Err UnsupportedType"
| "writeValue (VOther t) = (case t of TSlice _ \<Rightarrow> Err UnsupportedSliceType | _ \<Rightarrow> Err UnsupportedType)"

definition Marshal :: "gval \<Rightarrow> bytes res" where
  "Marshal value =
     (case deref value of
        None \<Rightarrow> Ok []
      | Some reflectValue \<Rightarrow>
          (case structValues reflectValue of
             None \<Rightarrow> Err OnlyStructsAtTopLevel
           | Some vs \<Rightarrow> writeStructFields (typeOf reflectValue) (map writeValue vs)))"

section \<open>Reading\<close>

definition maxStringLength :: int where
  "maxStringLength = 1024 * 1024 * 16"

definition readString :: "bytes \<Rightarrow> (string \<times> bytes) res" where
  "readString reader =
     bindR (readInt32 reader) (\<lambda>(len, r).
       if sint len < 0 \<or> sint len > maxStringLength then Err (InvalidStringLength (sint len))
       else bindR (readFull (nat (sint len)) r) (\<lambda>(b, r'). Ok (bytes_string b, r')))"

text \<open>\<^verbatim>\<open>time.Unix\<close> normalises the nanoseconds into \<open>[0, 10^9)\<close>; Go's division truncates.\<close>

definition time_Unix :: "64 word \<Rightarrow> int \<Rightarrow> gval" where
  "time_Unix sec nsec =
     (if nsec < 0 \<or> nsec \<ge> 1000000000 then
        VTime (sec + word_of_int (nsec div 1000000000)) (word_of_int (nsec mod 1000000000))
      else VTime sec (word_of_int nsec))"

text \<open>The cases of \<open>readValue\<close> that read no nested value; a negative length given to
  \<^verbatim>\<open>make([]byte, length)\<close> is a run-time panic.\<close>

definition readScalar :: "byte \<Rightarrow> bytes \<Rightarrow> (gval \<times> bytes) res" where
  "readScalar tag r =
     (if tag = 0 then Ok (VNil, r)
      else if tag = 1 then bindR (readString r) (\<lambda>(s, r'). Ok (VString s, r'))
      else if tag = 2 then
        bindR (readInt32 r) (\<lambda>(len, r1).
          if sint len < 0 then Panic MakeSliceLen
          else bindR (readFull (nat (sint len)) r1) (\<lambda>(b, r2). Ok (VBytes b, r2)))
      else if tag = 3 then
        bindR (readInt64 r) (\<lambda>(seconds, r1).
          bindR (readInt32 r1) (\<lambda>(nanoseconds, r2). Ok (time_Unix seconds (sint nanoseconds), r2)))
      else if tag = 4 then bindR (readInt32 r) (\<lambda>(w, r'). Ok (VInt32 w, r'))
      else if tag = 5 then bindR (readInt64 r) (\<lambda>(w, r'). Ok (VInt64 w, r'))
      else if tag = 6 then bindR (readInt64 r) (\<lambda>(w, r'). Ok (VFloat64 w, r'))
      else if tag = 7 then bindR (readByte r) (\<lambda>(b, r'). Ok (VBool (b \<noteq> 0), r'))
      else Err (UnknownTag tag))"

text \<open>The decoder recurses once per nested struct; the first argument bounds the nesting, and
  \<open>readValue\<close> starts it above the number of bytes, which every nesting level consumes.\<close>

fun readValue_f :: "nat \<Rightarrow> bytes \<Rightarrow> (gval \<times> bytes) res"
  and readFields_f :: "nat \<Rightarrow> nat \<Rightarrow> (string \<times> gval) list \<Rightarrow> bytes \<Rightarrow> ((string \<times> gval) list \<times> bytes) res"
where
  "readValue_f 0 reader = NoFuel"
| "readValue_f (Suc fuel) reader =
     bindR (readByte reader) (\<lambda>(tag, r).
       if tag = 9 then
         bindR (readString r) (\<lambda>(structName, r1).
           bindR (readInt32 r1) (\<lambda>(count, r2).
             bindR (readFields_f fuel (nat (sint count)) [] r2) (\<lambda>(fs, r3).
               Ok (VPlaceholder structName fs, r3))))
       else readScalar tag r)"
| "readFields_f fuel 0 fs reader = Ok (fs, reader)"
| "readFields_f fuel (Suc n) fs reader =
     bindR (readString reader) (\<lambda>(name, r1).
       bindR (readValue_f fuel r1) (\<lambda>(fieldValue, r2).
         readFields_f fuel n (AList.update name fieldValue fs) r2))"

definition readValue :: "bytes \<Rightarrow> (gval \<times> bytes) res" where
  "readValue reader = readValue_f (Suc (length reader)) reader"

definition readFields :: "nat \<Rightarrow> bytes \<Rightarrow> ((string \<times> gval) list \<times> bytes) res" where
  "readFields n reader = readFields_f (Suc (length reader)) n [] reader"

section \<open>Casting a decoded value to a field's type\<close>

definition int_of_signed :: "gval \<Rightarrow> int option" where
  "int_of_signed value =
     (case value of VInt32 w \<Rightarrow> Some (sint w) | VInt64 w \<Rightarrow> Some (sint w) | VInt w \<Rightarrow> Some (sint w)
      | _ \<Rightarrow> None)"

fun castSignedInteger :: "gval \<Rightarrow> gtype \<Rightarrow> gval res" where
  "castSignedInteger value targetType =
     (case int_of_signed value of
        None \<Rightarrow> Err CannotCast
      | Some number \<Rightarrow>
          (case targetType of
             TInt8 \<Rightarrow> if sint (word_of_int number :: 8 word) \<noteq> number then Err IntegerOverflow
                      else Ok (VInt8 (word_of_int number))
           | TInt16 \<Rightarrow> if sint (word_of_int number :: 16 word) \<noteq> number then Err IntegerOverflow
                      else Ok (VInt16 (word_of_int number))
           | TInt32 \<Rightarrow> if sint (word_of_int number :: 32 word) \<noteq> number then Err IntegerOverflow
                      else Ok (VInt32 (word_of_int number))
           | TInt64 \<Rightarrow> Ok (VInt64 (word_of_int number))
           | _ \<Rightarrow> Ok (VInt (word_of_int number))))"

definition zeroTimeSeconds :: "64 word" where
  "zeroTimeSeconds = word_of_int (- 62135596800)"

fun zeroValue :: "gtype \<Rightarrow> gval" and zeroField :: "gfield \<Rightarrow> gval" where
  "zeroValue TString = VString []"
| "zeroValue TBool = VBool False"
| "zeroValue TInt = VInt 0"
| "zeroValue TInt8 = VInt8 0"
| "zeroValue TInt16 = VInt16 0"
| "zeroValue TInt32 = VInt32 0"
| "zeroValue TInt64 = VInt64 0"
| "zeroValue TFloat32 = VFloat32 0"
| "zeroValue TFloat64 = VFloat64 0"
| "zeroValue TTime = VTime zeroTimeSeconds 0"
| "zeroValue (TSlice t) = (if t = TUint8 then VBytes [] else VOther (TSlice t))"
| "zeroValue (TPtr t) = VPtr t None"
| "zeroValue TInterface = VIface None"
| "zeroValue (TStruct n fs) = VStruct n fs (map zeroField fs)"
| "zeroValue TUint8 = VOther TUint8"
| "zeroValue (TOther n c) = VOther (TOther n c)"
| "zeroField (GField n p t ty) = zeroValue ty"

definition returnValue :: "gval \<Rightarrow> bool \<Rightarrow> gval" where
  "returnValue value isPointer = (if isPointer then VPtr (typeOf value) (Some value) else value)"

text \<open>Assigning the decoded fields to a struct: \<open>cs\<close> maps each key to its cast (a function of
  the field's type), and the keys are visited in the order of the map iteration.\<close>

definition assignFields ::
  "go_env \<Rightarrow> (error \<Rightarrow> error) \<Rightarrow> structMetadata \<Rightarrow> gfield list \<Rightarrow> (string \<times> (gtype \<Rightarrow> gval res)) list \<Rightarrow>
   gval list \<Rightarrow> gval list res"
where
  "assignFields env wrap metadata fs cs vs0 =
     foldR (\<lambda>vs keyName.
         case map_of cs keyName of
           None \<Rightarrow> Ok vs
         | Some castFunction \<Rightarrow>
             (case md_fields metadata (strings_ToLower keyName) of
                None \<Rightarrow> Ok vs
              | Some fieldInfo \<Rightarrow>
                  (case castFunction (fldType (fs ! sf_index fieldInfo)) of
                     Ok v \<Rightarrow> Ok (vs[sf_index fieldInfo := v])
                   | Err e \<Rightarrow> Err (wrap e)
                   | Panic p \<Rightarrow> Panic p
                   | NoFuel \<Rightarrow> NoFuel)))
       vs0 (MapOrder env (map fst cs))"

definition baseTypeOf :: "gtype \<Rightarrow> gtype" where
  "baseTypeOf t = (case t of TPtr b \<Rightarrow> b | _ \<Rightarrow> t)"

definition isPtrType :: "gtype \<Rightarrow> bool" where
  "isPtrType t = (case t of TPtr b \<Rightarrow> True | _ \<Rightarrow> False)"

text \<open>The last two tests of \<open>castValue\<close>: assignability, then convertibility.\<close>

definition castFallback :: "go_env \<Rightarrow> gval \<Rightarrow> gtype \<Rightarrow> gval res" where
  "castFallback env value baseType =
     (if baseType = TInterface then Ok (VIface (Some value))
      else if typeOf value = baseType then Ok value
      else (case (value, baseType) of
              (VFloat64 f, TFloat32) \<Rightarrow> Ok (VFloat32 (f32_of_f64 f))
            | (VString s, TSlice TUint8) \<Rightarrow> Ok (VBytes (string_bytes s))
            | _ \<Rightarrow> (case Convert env value baseType of Some v \<Rightarrow> Ok v | None \<Rightarrow> Err CannotCast)))"

definition castScalar :: "go_env \<Rightarrow> gval \<Rightarrow> gtype \<Rightarrow> gval res" where
  "castScalar env value baseType =
     (case baseType of
        TString \<Rightarrow> Ok (VString (case value of VString s \<Rightarrow> s | _ \<Rightarrow> Sprintf env value))
      | TInt \<Rightarrow> castSignedInteger value TInt
      | TInt8 \<Rightarrow> castSignedInteger value TInt8
      | TInt16 \<Rightarrow> castSignedInteger value TInt16
      | TInt32 \<Rightarrow> castSignedInteger value TInt32
      | TInt64 \<Rightarrow> castSignedInteger value TInt64
      | TFloat64 \<Rightarrow> Ok (VFloat64 (case value of VFloat64 f \<Rightarrow> f | VFloat32 f \<Rightarrow> f64_of_f32 f
                        | _ \<Rightarrow> (case int_of_signed value of Some i \<Rightarrow> f64_of_int i | None \<Rightarrow> 0)))
      | TBool \<Rightarrow> Ok (VBool (case value of VBool b \<Rightarrow> b | _ \<Rightarrow> False))
      | _ \<Rightarrow> castFallback env value baseType)"

text \<open>Setting a field of type pointer-to-interface to the pointer \<open>returnValue\<close> builds (a
  pointer to the value's own type) is a reflection panic.\<close>

fun castValue :: "go_env \<Rightarrow> gval \<Rightarrow> gtype \<Rightarrow> gval res" where
  "castValue env VNil targetType = Ok (zeroValue targetType)"
| "castValue env (VPlaceholder n fields') targetType =
     (let baseType = baseTypeOf targetType;
          cs = map (\<lambda>(k, v). (k, castValue env v)) fields'
      in case baseType of
           TStruct sn fs \<Rightarrow>
             (case getStructMetadata baseType of
                None \<Rightarrow> Err MetadataMissing
              | Some metadata \<Rightarrow>
                  bindR (assignFields env (\<lambda>e. e) metadata fs cs (map zeroField fs))
                    (\<lambda>vs. Ok (returnValue (VStruct sn fs vs) (isPtrType targetType))))
         | TTime \<Rightarrow> Ok (returnValue (zeroValue TTime) (isPtrType targetType))
         | _ \<Rightarrow> Err CannotCast)"
| "castValue env value targetType =
     (if targetType = TPtr TInterface then Panic ReflectPanic
      else bindR (castScalar env value (baseTypeOf targetType))
             (\<lambda>v. Ok (returnValue v (isPtrType targetType))))"

definition wrapCast :: "error \<Rightarrow> error" where
  "wrapCast e = WrapError ''failed to cast field'' e"

definition Unmarshal :: "go_env \<Rightarrow> bytes \<Rightarrow> gtype \<Rightarrow> gval res" where
  "Unmarshal env data targetType =
     (if data = [] then Ok (zeroValue targetType)
      else case targetType of
        TStruct n fs \<Rightarrow>
          bindR (readInt32 data) (\<lambda>(count, r).
            bindR (readFields (nat (sint count)) r) (\<lambda>(decoded, _).
              case getStructMetadata targetType of
                None \<Rightarrow> Err MetadataMissing
              | Some metadata \<Rightarrow>
                  bindR (assignFields env wrapCast metadata fs
                           (map (\<lambda>(k, v). (k, castValue env v)) decoded) (map zeroField fs))
                    (\<lambda>vs. Ok (VStruct n fs vs))))
      | TTime \<Rightarrow>
          bindR (readInt32 data) (\<lambda>(count, r).
            bindR (readFields (nat (sint count)) r) (\<lambda>_. Ok (zeroValue TTime)))
      | _ \<Rightarrow> Err UnmarshalTargetNotStruct)"

section \<open>Field tags\<close>

record FieldMeta =
  fm_FieldName :: string
  IsID :: bool
  IsIndex :: bool
  IsUnique :: bool
  IsOrdered :: bool

definition strings_ToUpper_is_ID :: "string \<Rightarrow> bool" where
  "strings_ToUpper_is_ID s = strings_EqualFold s ''ID''"

definition parseTagPart :: "FieldMeta \<Rightarrow> nat \<times> string \<Rightarrow> FieldMeta" where
  "parseTagPart m p =
     (case p of (index, part0) \<Rightarrow>
       let part = strings_TrimSpace part0 in
       if index = 0 \<and> part \<notin> set keeperKeywords then m\<lparr>fm_FieldName := part\<rparr>
       else if part = ''id'' then m\<lparr>IsID := True\<rparr>
       else if part = ''index'' then m\<lparr>IsIndex := True\<rparr>
       else if part = ''unique'' then m\<lparr>IsUnique := True, IsIndex := True\<rparr>
       else if part = ''ordered'' then m\<lparr>IsOrdered := True\<rparr>
       else m)"

definition parseFieldTag :: "gfield \<Rightarrow> FieldMeta" where
  "parseFieldTag structField =
     (let m = \<lparr>fm_FieldName = fldName structField, IsID = False, IsIndex = False, IsUnique = False,
               IsOrdered = False\<rparr>;
          tag = fldTag structField
      in if tag = [] then (if strings_ToUpper_is_ID (fldName structField) then m\<lparr>IsID := True\<rparr> else m)
         else foldl parseTagPart m (enumerate 0 (strings_Split CHR '','' tag)))"

definition getFieldName :: "gfield \<Rightarrow> string" where
  "getFieldName structField = fm_FieldName (parseFieldTag structField)"

section \<open>Index keys\<close>

definition serializeKey :: "gval \<Rightarrow> bytes res" where
  "serializeKey key = (if key = VNil then Ok [] else writeValue key)"

definition deserializeKey :: "bytes \<Rightarrow> gval res" where
  "deserializeKey data = (if data = [] then Ok VNil else mapR fst (readValue data))"

definition SerializeCompositeKey :: "gval \<Rightarrow> gval \<Rightarrow> bytes res" where
  "SerializeCompositeKey secondaryKey primaryKey =
     bindR (serializeKey secondaryKey) (\<lambda>secondaryBytes.
       bindR (serializeKey primaryKey) (\<lambda>primaryBytes.
         Ok (PutUint16 (of_nat (length secondaryBytes)) @ secondaryBytes
             @ PutUint16 (of_nat (length primaryBytes)) @ primaryBytes)))"

definition DeserializeCompositeKey :: "bytes \<Rightarrow> (gval \<times> gval) res" where
  "DeserializeCompositeKey buffer =
     (if length buffer < 4 then Err CompositeKeyTooShort
      else
        let secondaryLen = unat (Uint16 (sub buffer 0 2)) in
        if length buffer < 2 + secondaryLen + 2 then Err CompositeKeyCorrupt
        else
          let secondaryBytes = sub buffer 2 secondaryLen;
              offset = 2 + secondaryLen;
              primaryLen = unat (Uint16 (sub buffer offset 2))
          in if length buffer < offset + 2 + primaryLen then Err CompositeKeyCorrupt
             else
               let primaryBytes = sub buffer (offset + 2) primaryLen in
               bindR (deserializeKey secondaryBytes) (\<lambda>secondaryVal.
                 bindR (deserializeKey primaryBytes) (\<lambda>primaryVal.
                   Ok (secondaryVal, primaryVal))))"

section \<open>What decoding gives back\<close>

text \<open>\<open>decoded v\<close> is what \<open>readValue\<close> returns for the encoding of \<open>v\<close>: pointers are followed,
  the small integer kinds come back as \<^verbatim>\<open>int32\<close>, \<^verbatim>\<open>int\<close> as \<^verbatim>\<open>int64\<close>, and a struct as a
  placeholder of its marshalled fields. \<open>encodable\<close> is the set of values the format
  represents: supported kinds, strings within the reader's limit, lengths below 2^31 and
  normalised times.\<close>

fun decoded :: "gval \<Rightarrow> gval" where
  "decoded (VPtr t None) = VNil"
| "decoded (VPtr t (Some v)) = decoded v"
| "decoded (VIface None) = VNil"
| "decoded (VIface (Some v)) = decoded v"
| "decoded (VInt w) = VInt64 w"
| "decoded (VInt8 w) = VInt32 (scast w)"
| "decoded (VInt16 w) = VInt32 (scast w)"
| "decoded (VFloat32 f) = VFloat64 (f64_of_f32 f)"
| "decoded (VStruct n fs vs) =
     (let ds = map decoded vs in
      VPlaceholder n
        (case getStructMetadata (TStruct n fs) of
           None \<Rightarrow> []
         | Some md \<Rightarrow> foldl (\<lambda>acc m. AList.update (mf_name m) (ds ! mf_index m) acc) [] (marshalFields md)))"
| "decoded v = v"

definition encodableName :: "string \<Rightarrow> bool" where
  "encodableName s = (int (length s) \<le> maxStringLength)"

fun encodable :: "gval \<Rightarrow> bool" where
  "encodable (VPtr t None) = True"
| "encodable (VPtr t (Some v)) = encodable v"
| "encodable (VIface None) = True"
| "encodable (VIface (Some v)) = encodable v"
| "encodable (VString s) = encodableName s"
| "encodable (VBytes b) = (int (length b) < 2 ^ 31)"
| "encodable (VTime sec nsec) = (0 \<le> sint nsec \<and> sint nsec < 1000000000)"
| "encodable (VStruct n fs vs) =
     (let es = map encodable vs in
      encodableName n \<and>
      (case getStructMetadata (TStruct n fs) of
         None \<Rightarrow> False
       | Some md \<Rightarrow> int (length (marshalFields md)) < 2 ^ 31 \<and>
           list_all (\<lambda>m. encodableName (mf_name m) \<and> mf_index m < length es \<and> es ! mf_index m) (marshalFields md)))"
| "encodable (VPlaceholder n fs) = False"
| "encodable (VOther t) = False"
| "encodable v = True"

definition fieldsRoundtrip :: "bytes list \<Rightarrow> gval list \<Rightarrow> structFieldMarshalInfo \<Rightarrow> bool" where
  "fieldsRoundtrip bs ds m = (encodableName (mf_name m) \<and> mf_index m < length bs \<and>
     (\<forall>rest. readValue (bs ! mf_index m @ rest) = Ok (ds ! mf_index m, rest)))"

definition encodeFields :: "bytes list \<Rightarrow> structFieldMarshalInfo list \<Rightarrow> bytes" where
  "encodeFields bs ms = concat (map (\<lambda>m. writeString (mf_name m) @ bs ! mf_index m) ms)"

definition roundtrips :: "gval \<Rightarrow> bool" where
  "roundtrips v = (\<exists>b. writeValue v = Ok b \<and> (\<forall>rest. readValue (b @ rest) = Ok (decoded v, rest)))"

text \<open>The records that come back unchanged: \<open>wfStruct\<close> asks that the (case-insensitive) name of
  every marshalled field leads back to that field, \<open>storable v t\<close> that \<open>v\<close> is a value of
  type \<open>t\<close> made of the kinds the decoder restores exactly (no interfaces, no \<^verbatim>\<open>float32\<close>, no
  pointers to pointers), with the unexported fields, which are not stored, at their zero
  values. \<open>wf_env\<close>: ranging over a map visits exactly its keys.\<close>

definition exported :: "gfield \<Rightarrow> bool" where
  "exported f = (fldPkgPath f = [])"

definition wfStruct :: "string \<Rightarrow> gfield list \<Rightarrow> bool" where
  "wfStruct n fs =
     (case getStructMetadata (TStruct n fs) of
        None \<Rightarrow> False
      | Some md \<Rightarrow> list_all (\<lambda>m. map_option sf_index (md_fields md (strings_ToLower (mf_name m)))
                              = Some (mf_index m)) (marshalFields md))"

fun storable :: "gval \<Rightarrow> gtype \<Rightarrow> bool" where
  "storable (VString s) t = (t = TString)"
| "storable (VBool b) t = (t = TBool)"
| "storable (VInt w) t = (t = TInt)"
| "storable (VInt8 w) t = (t = TInt8)"
| "storable (VInt16 w) t = (t = TInt16)"
| "storable (VInt32 w) t = (t = TInt32)"
| "storable (VInt64 w) t = (t = TInt64)"
| "storable (VFloat64 f) t = (t = TFloat64)"
| "storable (VBytes b) t = (t = TSlice TUint8)"
| "storable (VTime s ns) t = (t = TTime)"
| "storable (VPtr b None) t = (t = TPtr b)"
| "storable (VPtr b (Some v)) t = (t = TPtr b \<and> \<not> isPtrType b \<and> storable v b)"
| "storable (VStruct n fs vs) t =
     (let ss = map storable vs in
      t = TStruct n fs \<and> length vs = length fs \<and> wfStruct n fs \<and>
      list_all (\<lambda>i. if exported (fs ! i) then (ss ! i) (fldType (fs ! i)) else vs ! i = zeroField (fs ! i))
        [0..<length fs])"
| "storable v t = False"

definition wf_env :: "go_env \<Rightarrow> bool" where
  "wf_env env = (\<forall>ks. set (MapOrder env ks) = set ks)"

fun marshalInfo :: "nat \<times> gfield \<Rightarrow> structFieldMarshalInfo" where
  "marshalInfo (i, f) = \<lparr>mf_index = i, mf_name = metaFieldName f\<rparr>"

end
