(* ===== verification/CodecLaws.thy ===== *)
theory CodecLaws
  imports Codec
begin

text \<open>
  The laws of the binary format: strings and values are read back as written, leaving the
  bytes after them (so that encodings can be concatenated), the decoder terminates within
  its nesting bound on every input, and marshalled records are unmarshalled to themselves
  whatever the map iteration order.
\<close>

section \<open>Strings\<close>

lemma readString_writeString:
  "int (length s) \<le> maxStringLength \<Longrightarrow> readString (writeString s @ rest) = Ok (s, rest)"
  by (simp add: readString_def writeString_def maxStringLength_def sint_of_nat32)

lemma readString_writeString_too_long:
  "maxStringLength < int (length s) \<Longrightarrow> length s < 2 ^ 31 \<Longrightarrow>
   readString (writeString s @ rest) = Err (InvalidStringLength (int (length s)))"
  by (simp add: readString_def writeString_def sint_of_nat32)

lemma readString_shorter: "readString bs = Ok (s, r) \<Longrightarrow> 4 + length r \<le> length bs"
  by (auto simp: readString_def dest!: read_shorter split: if_splits)

lemma read_NoFuel [simp]:
  "readFull n bs \<noteq> NoFuel" "readByte bs \<noteq> NoFuel" "readInt32 bs \<noteq> NoFuel" "readInt64 bs \<noteq> NoFuel"
  "readString bs \<noteq> NoFuel"
  by (auto simp: readFull_def readByte_def readInt32_def readInt64_def readString_def
      bindR_NoFuel_iff split: list.splits if_splits prod.splits)

lemma readScalar_NoFuel [simp]: "readScalar tag r \<noteq> NoFuel"
  by (auto simp: readScalar_def bindR_NoFuel_iff split: if_splits)

lemma readScalar_shorter: "readScalar tag r = Ok (v, r') \<Longrightarrow> length r' \<le> length r"
  by (auto simp: readScalar_def dest!: read_shorter readString_shorter split: if_splits)

lemma readFields_f_shorter_aux:
  assumes "\<And>bs v r. readValue_f fuel bs = Ok (v, r) \<Longrightarrow> length r < length bs"
  shows "readFields_f fuel n fs bs = Ok (gs, r) \<Longrightarrow> length r \<le> length bs"
proof (induction n arbitrary: fs bs)
  case (Suc n)
  from Suc.prems obtain s r1 v r2 where "readString bs = Ok (s, r1)" "readValue_f fuel r1 = Ok (v, r2)"
    and "readFields_f fuel n (AList.update s v fs) r2 = Ok (gs, r)" by auto
  then show ?case using Suc.IH assms readString_shorter by fastforce
qed simp

lemma readValue_f_shorter: "readValue_f fuel bs = Ok (v, r) \<Longrightarrow> length r < length bs"
proof (induction fuel arbitrary: bs v r)
  case (Suc fuel)
  have fields: "length r' \<le> length r2" if "readFields_f fuel n fs r2 = Ok (gs, r')" for n fs r2 gs r'
    using Suc.IH that by (rule readFields_f_shorter_aux)
  from Suc.prems show ?case
    by (fastforce dest!: read_shorter readString_shorter readScalar_shorter fields split: if_splits)
qed simp

lemmas readFields_f_shorter = readFields_f_shorter_aux [OF readValue_f_shorter]

lemma readFields_f_fuel_aux:
  assumes "\<And>bs. length bs < fuel \<Longrightarrow> readValue_f fuel bs \<noteq> NoFuel"
  shows "length bs < fuel \<Longrightarrow> readFields_f fuel n fs bs \<noteq> NoFuel"
proof (induction n arbitrary: fs bs)
  case (Suc n)
  have "readFields_f fuel n gs r2 \<noteq> NoFuel"
    if "readString bs = Ok (s, r1)" "readValue_f fuel r1 = Ok (v, r2)" for s r1 v r2 gs
    using that Suc.prems readString_shorter readValue_f_shorter by (intro Suc.IH) fastforce
  moreover have "readValue_f fuel r1 \<noteq> NoFuel" if "readString bs = Ok (s, r1)" for s r1
    using that Suc.prems readString_shorter by (intro assms) fastforce
  ultimately show ?case by (auto simp: bindR_NoFuel_iff)
qed simp

lemma readValue_f_fuel: "length bs < fuel \<Longrightarrow> readValue_f fuel bs \<noteq> NoFuel"
proof (induction fuel arbitrary: bs)
  case (Suc fuel)
  have fields: "readFields_f fuel n fs r2 \<noteq> NoFuel"
    if "readByte bs = Ok (t, r)" "readString r = Ok (s, r1)" "readInt32 r1 = Ok (c, r2)" for t r s r1 c n fs r2
  proof -
    have "length r2 < fuel"
      using readByte_shorter [OF that(1)] readString_shorter [OF that(2)]
        readInt32_shorter [OF that(3)] Suc.prems by linarith
    with Suc.IH show ?thesis by (rule readFields_f_fuel_aux)
  qed
  from Suc.prems show ?case
    by (auto simp: bindR_NoFuel_iff fields)
qed simp

lemmas readFields_f_fuel = readFields_f_fuel_aux [OF readValue_f_fuel]

lemma readFields_f_mono_aux:
  assumes "\<And>bs. readValue_f fuel bs \<noteq> NoFuel \<Longrightarrow> readValue_f fuel' bs = readValue_f fuel bs"
  shows "readFields_f fuel n fs bs \<noteq> NoFuel \<Longrightarrow> readFields_f fuel' n fs bs = readFields_f fuel n fs bs"
proof (induction n arbitrary: fs bs)
  case (Suc n)
  from Suc.prems show ?case
    by (fastforce simp: bindR_NoFuel_iff assms Suc.IH intro!: bindR_cong)
qed simp

lemma readValue_f_mono:
  "readValue_f fuel bs \<noteq> NoFuel \<Longrightarrow> fuel \<le> fuel' \<Longrightarrow> readValue_f fuel' bs = readValue_f fuel bs"
proof (induction fuel arbitrary: bs fuel')
  case (Suc fuel)
  from Suc.prems(2) obtain f' where f': "fuel' = Suc f'" "fuel \<le> f'" by (cases fuel') auto
  have fields: "readFields_f fuel n fs r \<noteq> NoFuel \<Longrightarrow> readFields_f f' n fs r = readFields_f fuel n fs r" for n fs r
    by (rule readFields_f_mono_aux) (rule Suc.IH [OF _ f'(2)])
  show ?case
  proof (cases "\<exists>r s r1 c r2. readByte bs = Ok (9, r) \<and> readString r = Ok (s, r1) \<and> readInt32 r1 = Ok (c, r2)")
    case True
    then obtain r s r1 c r2 where r: "readByte bs = Ok (9, r)" "readString r = Ok (s, r1)"
      "readInt32 r1 = Ok (c, r2)" by blast
    with Suc.prems(1) have "readFields_f fuel (nat (sint c)) [] r2 \<noteq> NoFuel"
      by (auto simp: bindR_NoFuel_iff)
    then show ?thesis unfolding f'(1) by (simp add: r fields)
  next
    case False
    then show ?thesis unfolding f'(1)
      by (simp only: readValue_f.simps) (auto intro!: bindR_cong split: prod.splits)
  qed
qed simp


lemma readValue_f_eq: "length bs < f \<Longrightarrow> readValue_f f bs = readValue bs"
  unfolding readValue_def
  by (intro readValue_f_mono readValue_f_fuel) simp_all

lemma readFields_f_step:
  assumes "length bs < f"
  shows "readFields_f f (Suc n) fs bs =
     bindR (readString bs) (\<lambda>(name, r1). bindR (readValue r1)
       (\<lambda>(fieldValue, r2). readFields_f f n (AList.update name fieldValue fs) r2))"
proof -
  have "readValue_f f r1 = readValue r1" if "readString bs = Ok (s, r1)" for s r1
    using readString_shorter [OF that] assms by (intro readValue_f_eq) simp
  then show ?thesis by (auto intro!: bindR_cong)
qed

lemma readValue_struct:
  "readValue (9 # r) = bindR (readString r) (\<lambda>(structName, r1).
           bindR (readInt32 r1) (\<lambda>(count, r2).
             bindR (readFields_f (Suc (length r)) (nat (sint count)) [] r2) (\<lambda>(fs, r3).
               Ok (VPlaceholder structName fs, r3))))"
  by (simp add: readValue_def)

lemma readValue_scalar: "tag \<noteq> 9 \<Longrightarrow> readValue (tag # r) = readScalar tag r"
  by (simp add: readValue_def)

lemma writeStructFields_Ok:
  assumes "getStructMetadata t = Some md"
    and "list_all (\<lambda>m. mf_index m < length es \<and> es ! mf_index m = Ok (bs ! mf_index m)) (marshalFields md)"
  shows "writeStructFields t es =
    Ok (PutUint32 (of_nat (length (marshalFields md))) @ encodeFields bs (marshalFields md))"
proof -
  have "foldR (\<lambda>buffer fieldInfo.
              bindR (if mf_index fieldInfo < length es then es ! mf_index fieldInfo
                     else Panic ReflectPanic)
                (\<lambda>b. Ok (buffer @ writeString (mf_name fieldInfo) @ b))) b0 ms
     = Ok (b0 @ encodeFields bs ms)"
    if "list_all (\<lambda>m. mf_index m < length es \<and> es ! mf_index m = Ok (bs ! mf_index m)) ms" for b0 ms
    using that by (induction ms arbitrary: b0) (auto simp: encodeFields_def)
  then show ?thesis using assms by (simp add: writeStructFields_def)
qed

lemma readFields_encodeFields:
  assumes "list_all (fieldsRoundtrip bs ds) ms" "length (encodeFields bs ms @ rest) < f"
  shows "readFields_f f (length ms) acc (encodeFields bs ms @ rest)
     = Ok (foldl (\<lambda>acc m. AList.update (mf_name m) (ds ! mf_index m) acc) acc ms, rest)"
  using assms
proof (induction ms arbitrary: acc)
  case Nil
  then show ?case by (simp add: encodeFields_def)
next
  case (Cons m ms)
  then have m: "fieldsRoundtrip bs ds m" by simp
  have e: "encodeFields bs (m # ms) @ rest
     = writeString (mf_name m) @ bs ! mf_index m @ encodeFields bs ms @ rest"
    by (simp add: encodeFields_def)
  have "readFields_f f (length (m # ms)) acc (encodeFields bs (m # ms) @ rest) =
     readFields_f f (length ms) (AList.update (mf_name m) (ds ! mf_index m) acc) (encodeFields bs ms @ rest)"
    using m Cons.prems(2) unfolding length_Cons e
    by (subst readFields_f_step)
       (simp_all add: fieldsRoundtrip_def readString_writeString encodableName_def)
  then show ?case using Cons by (simp add: e)
qed

lemma readScalar_simps [simp]:
  "readScalar 0 r = Ok (VNil, r)"
  "readScalar 1 r = bindR (readString r) (\<lambda>(s, r'). Ok (VString s, r'))"
  "readScalar 4 r = bindR (readInt32 r) (\<lambda>(w, r'). Ok (VInt32 w, r'))"
  "readScalar 5 r = bindR (readInt64 r) (\<lambda>(w, r'). Ok (VInt64 w, r'))"
  "readScalar 6 r = bindR (readInt64 r) (\<lambda>(w, r'). Ok (VFloat64 w, r'))"
  "readScalar 7 r = bindR (readByte r) (\<lambda>(b, r'). Ok (VBool (b \<noteq> 0), r'))"
  by (simp_all add: readScalar_def)

lemma readScalar_bytes: "length b < 2 ^ 31 \<Longrightarrow> readScalar 2 (PutUint32 (of_nat (length b)) @ b @ rest) = Ok (VBytes b, rest)"
  by (simp add: readScalar_def sint_of_nat32)

lemma readScalar_time:
  "0 \<le> sint nsec \<Longrightarrow> sint nsec < 1000000000 \<Longrightarrow>
   readScalar 3 (PutUint64 sec @ PutUint32 nsec @ rest) = Ok (VTime sec nsec, rest)"
  by (simp add: readScalar_def time_Unix_def)

lemma roundtripsI:
  "writeValue v = Ok b \<Longrightarrow> (\<And>rest. readValue (b @ rest) = Ok (decoded v, rest)) \<Longrightarrow> roundtrips v"
  by (auto simp: roundtrips_def)

lemma struct_encoding:
  assumes IH: "\<And>v. encodable v \<Longrightarrow> v \<in> set vs \<Longrightarrow> roundtrips v"
    and encv: "encodable (VStruct n fs vs)"
  shows "\<exists>md b. getStructMetadata (TStruct n fs) = Some md \<and> encodableName n \<and>
     length (marshalFields md) < 2 ^ 31 \<and>
     writeStructFields (TStruct n fs) (map writeValue vs) =
       Ok (PutUint32 (of_nat (length (marshalFields md))) @ b) \<and>
     (\<forall>rest f. length (b @ rest) < f \<longrightarrow> readFields_f f (length (marshalFields md)) [] (b @ rest) =
       Ok (foldl (\<lambda>acc m. AList.update (mf_name m) (map decoded vs ! mf_index m) acc) []
             (marshalFields md), rest))"
proof -
  from encv obtain md where md: "getStructMetadata (TStruct n fs) = Some md"
    and n: "encodableName n" and len: "length (marshalFields md) < 2 ^ 31"
    and ms: "\<And>m. m \<in> set (marshalFields md) \<Longrightarrow>
      encodableName (mf_name m) \<and> mf_index m < length vs \<and> encodable (vs ! mf_index m)"
    by (force simp: Let_def list_all_iff split: option.splits)
  define enc where "enc v = (SOME b. writeValue v = Ok b \<and>
      (\<forall>rest. readValue (b @ rest) = Ok (decoded v, rest)))" for v
  let ?bs = "map enc vs" and ?ds = "map decoded vs"
  have field: "writeValue (vs ! mf_index m) = Ok (?bs ! mf_index m) \<and>
      (\<forall>rest. readValue (?bs ! mf_index m @ rest) = Ok (?ds ! mf_index m, rest))"
    if "m \<in> set (marshalFields md)" for m
  proof -
    from ms [OF that] IH have "roundtrips (vs ! mf_index m)" by simp
    then have "writeValue (vs ! mf_index m) = Ok (enc (vs ! mf_index m)) \<and>
        (\<forall>rest. readValue (enc (vs ! mf_index m) @ rest) = Ok (decoded (vs ! mf_index m), rest))"
      unfolding roundtrips_def enc_def by (rule someI_ex)
    then show ?thesis using ms [OF that] by simp
  qed
  then have "writeStructFields (TStruct n fs) (map writeValue vs) =
      Ok (PutUint32 (of_nat (length (marshalFields md))) @ encodeFields ?bs (marshalFields md))"
    using ms by (intro writeStructFields_Ok [OF md]) (simp add: list_all_iff)
  moreover have "list_all (fieldsRoundtrip ?bs ?ds) (marshalFields md)"
    using field ms by (simp add: list_all_iff fieldsRoundtrip_def)
  ultimately show ?thesis using md n len readFields_encodeFields by blast
qed

lemma struct_roundtrips:
  assumes "\<And>v. encodable v \<Longrightarrow> v \<in> set vs \<Longrightarrow> roundtrips v" "encodable (VStruct n fs vs)"
  shows "roundtrips (VStruct n fs vs)"
proof -
  obtain md b where md: "getStructMetadata (TStruct n fs) = Some md" "encodableName n"
      "length (marshalFields md) < 2 ^ 31"
    and b: "writeStructFields (TStruct n fs) (map writeValue vs) =
       Ok (PutUint32 (of_nat (length (marshalFields md))) @ b)"
    and r: "\<forall>rest f. length (b @ rest) < f \<longrightarrow> readFields_f f (length (marshalFields md)) [] (b @ rest) =
       Ok (foldl (\<lambda>acc m. AList.update (mf_name m) (map decoded vs ! mf_index m) acc) [] (marshalFields md), rest)"
    using struct_encoding [OF assms] by blast
  show ?thesis
  proof (rule roundtripsI)
    show "writeValue (VStruct n fs vs) = Ok (9 # writeString n @ PutUint32 (of_nat (length (marshalFields md))) @ b)"
      using b by simp
    show "readValue ((9 # writeString n @ PutUint32 (of_nat (length (marshalFields md))) @ b) @ rest)
        = Ok (decoded (VStruct n fs vs), rest)" for rest
      using r md by (simp add: readValue_struct readString_writeString encodableName_def sint_of_nat32)
  qed
qed

lemma encodable_roundtrips: "encodable v \<Longrightarrow> roundtrips v"
proof (induction v)
  case (VStruct n fs vs)
  then show ?case by (auto intro: struct_roundtrips)
next
  case (VPtr t v)
  then show ?case by (cases v) (auto intro: roundtripsI simp: roundtrips_def readValue_scalar)
next
  case (VIface v)
  then show ?case by (cases v) (auto intro: roundtripsI simp: roundtrips_def readValue_scalar)
qed (auto intro!: roundtripsI simp: readValue_scalar readString_writeString encodableName_def
       readScalar_bytes readScalar_time)


section \<open>Records\<close>

lemma mf_index_marshalInfo [simp]: "mf_index (marshalInfo x) = fst x"
  by (cases x) simp

lemma foldl_metaStep_marshalFields:
  "marshalFields (foldl metaStep md xs) =
     marshalFields md @ map marshalInfo (filter (\<lambda>(i, f). exported f) xs)"
  by (induction xs arbitrary: md) (auto simp: metaStep_def Let_def exported_def)

lemma getStructMetadata_struct:
  "\<exists>md. getStructMetadata (TStruct n fs) = Some md \<and>
     marshalFields md = map marshalInfo (filter (\<lambda>(i, f). exported f) (enumerate 0 fs))"
  by (auto simp: getStructMetadata_def Let_def foldl_metaStep_marshalFields split: option.splits)

lemma set_marshalFields:
  assumes "getStructMetadata (TStruct n fs) = Some md"
  shows "set (marshalFields md) =
    {\<lparr>mf_index = i, mf_name = metaFieldName (fs ! i)\<rparr> | i. i < length fs \<and> exported (fs ! i)}"
  using getStructMetadata_struct [of n fs] assms
  by (force simp: in_set_enumerate_eq image_iff)

lemma AList_update_new: "k \<notin> fst ` set al \<Longrightarrow> AList.update k v al = al @ [(k, v)]"
  by (induction al) auto

lemma foldl_update_distinct:
  "distinct (map k ms) \<Longrightarrow> fst ` set acc \<inter> k ` set ms = {} \<Longrightarrow>
   foldl (\<lambda>acc m. AList.update (k m) (v m) acc) acc ms = acc @ map (\<lambda>m. (k m, v m)) ms"
proof (induction ms arbitrary: acc)
  case (Cons m ms)
  have "foldl (\<lambda>acc m. AList.update (k m) (v m) acc) (acc @ [(k m, v m)]) ms
      = (acc @ [(k m, v m)]) @ map (\<lambda>m. (k m, v m)) ms"
    using Cons.prems by (intro Cons.IH) auto
  then show ?case using Cons.prems by (simp add: AList_update_new)
qed simp

lemma wfStruct_marshalFields:
  assumes "wfStruct n fs" "getStructMetadata (TStruct n fs) = Some md"
  shows "distinct (map mf_name (marshalFields md))"
    and "m \<in> set (marshalFields md) \<Longrightarrow>
         \<exists>fi. md_fields md (strings_ToLower (mf_name m)) = Some fi \<and> sf_index fi = mf_index m"
proof -
  show f: "\<exists>fi. md_fields md (strings_ToLower (mf_name m)) = Some fi \<and> sf_index fi = mf_index m"
    if "m \<in> set (marshalFields md)" for m
    using assms that by (auto simp: wfStruct_def list_all_iff)
  have inj: "inj_on mf_name (set (marshalFields md))"
  proof (rule inj_onI)
    fix x y assume xy: "x \<in> set (marshalFields md)" "y \<in> set (marshalFields md)" "mf_name x = mf_name y"
    then have "mf_index x = mf_index y" using f [of x] f [of y] by auto
    with xy show "x = y" by (simp add: structFieldMarshalInfo.equality)
  qed
  have "distinct (map fst (enumerate 0 fs))" by simp
  then have "distinct (map fst (filter (\<lambda>(i, f). exported f) (enumerate 0 fs)))"
    by (rule distinct_map_filter)
  then have "distinct (map mf_index (map marshalInfo (filter (\<lambda>(i, f). exported f) (enumerate 0 fs))))"
    by (simp add: comp_def case_prod_beta')
  then have "distinct (map mf_index (marshalFields md))"
    using getStructMetadata_struct [of n fs] assms(2) by auto
  then show "distinct (map mf_name (marshalFields md))"
    using inj by (simp add: distinct_map)
qed

lemma assignFields_all:
  assumes env: "wf_env env"
    and cs: "cs = map (\<lambda>m. (mf_name m, c m)) ms" "distinct (map mf_name ms)"
    and m: "\<And>m. m \<in> set ms \<Longrightarrow> mf_index m < length vs \<and>
          (\<exists>fi. md_fields md (strings_ToLower (mf_name m)) = Some fi \<and> sf_index fi = mf_index m) \<and>
          c m (fldType (fs ! mf_index m)) = Ok (vs ! mf_index m)"
    and vs0: "length vs0 = length vs"
      "\<And>i. i < length vs \<Longrightarrow> i \<notin> mf_index ` set ms \<Longrightarrow> vs0 ! i = vs ! i"
  shows "assignFields env wrap md fs cs vs0 = Ok vs"
proof -
  let ?step = "\<lambda>vs keyName.
         case map_of cs keyName of
           None \<Rightarrow> Ok vs
         | Some castFunction \<Rightarrow>
             (case md_fields md (strings_ToLower keyName) of
                None \<Rightarrow> Ok vs
              | Some fieldInfo \<Rightarrow>
                  (case castFunction (fldType (fs ! sf_index fieldInfo)) of
                     Ok v \<Rightarrow> Ok (vs[sf_index fieldInfo := v])
                   | Err e \<Rightarrow> Err (wrap e)
                   | Panic p \<Rightarrow> Panic p
                   | NoFuel \<Rightarrow> NoFuel))"
  have key: "?step us (mf_name m) = Ok (us[mf_index m := vs ! mf_index m])" if "m \<in> set ms" for us m
  proof -
    have "map_of cs (mf_name m) = Some (c m)"
      using that cs by (intro map_of_is_SomeI) (auto simp: comp_def)
    then show ?thesis using m [OF that] by auto
  qed
  have fold: "\<exists>us'. foldR ?step us ks = Ok us' \<and> length us' = length vs \<and>
      (\<forall>i<length vs. us' ! i = (if i \<in> {mf_index m |m. m \<in> set ms \<and> mf_name m \<in> set ks} then vs ! i else us ! i))"
    if "length us = length vs" "set ks \<subseteq> mf_name ` set ms" for us ks
    using that
  proof (induction ks arbitrary: us)
    case (Cons k ks)
    then obtain m' where m': "m' \<in> set ms" "k = mf_name m'" by auto
    have u: "m = m'" if "m \<in> set ms" "mf_name m = k" for m
      using that m' cs(2) by (auto simp: distinct_map dest: inj_onD)
    obtain us' where us': "foldR ?step (us[mf_index m' := vs ! mf_index m']) ks = Ok us'" "length us' = length vs"
      "\<forall>i<length vs. us' ! i = (if i \<in> {mf_index m |m. m \<in> set ms \<and> mf_name m \<in> set ks} then vs ! i
         else us[mf_index m' := vs ! mf_index m'] ! i)"
      using Cons.IH [of "us[mf_index m' := vs ! mf_index m']"] Cons.prems by auto
    have sets: "{mf_index m |m. m \<in> set ms \<and> mf_name m \<in> set (k # ks)}
        = insert (mf_index m') {mf_index m |m. m \<in> set ms \<and> mf_name m \<in> set ks}"
      using m' u by auto
    show ?case
    proof (intro exI [of _ us'] conjI allI impI)
      show "foldR ?step us (k # ks) = Ok us'"
        using us'(1) key [OF m'(1)] m'(2) by simp
      show "length us' = length vs" by (rule us'(2))
      fix i assume "i < length vs"
      with us'(3) Cons.prems(1)
      show "us' ! i = (if i \<in> {mf_index m |m. m \<in> set ms \<and> mf_name m \<in> set (k # ks)} then vs ! i else us ! i)"
        unfolding sets
        by (cases "i = mf_index m'"; cases "i \<in> {mf_index m |m. m \<in> set ms \<and> mf_name m \<in> set ks}")
           (simp_all only: insert_iff nth_list_update_eq nth_list_update_neq if_True if_False simp_thms not_False_eq_True)
    qed
  qed simp
  have "set (MapOrder env (map fst cs)) = mf_name ` set ms"
    using env cs by (force simp: wf_env_def)
  then obtain us' where us': "foldR ?step vs0 (MapOrder env (map fst cs)) = Ok us'" "length us' = length vs"
      "\<forall>i<length vs. us' ! i = (if i \<in> {mf_index m |m. m \<in> set ms \<and> mf_name m \<in> mf_name ` set ms} then vs ! i else vs0 ! i)"
    using fold [OF vs0(1), of "MapOrder env (map fst cs)"] by auto
  then have "us' = vs" using vs0 by (intro nth_equalityI) (auto split: if_splits)
  with us'(1) show ?thesis by (simp add: assignFields_def)
qed


lemma returnValue_simps [simp]: "returnValue v False = v" "returnValue v True = VPtr (typeOf v) (Some v)"
  by (simp_all add: returnValue_def)

lemma type_simps [simp]:
  "baseTypeOf (TPtr t) = t" "isPtrType (TPtr t)" "\<not> isPtrType t \<Longrightarrow> baseTypeOf t = t"
  by (auto simp: baseTypeOf_def isPtrType_def split: gtype.splits)

lemma storable_typeOf: "storable v t \<Longrightarrow> typeOf v = t"
  by (cases v) (auto simp: Let_def elim: storable.elims)

lemma storable_not_interface: "storable v t \<Longrightarrow> t \<noteq> TInterface"
  by (cases v) (auto simp: Let_def elim: storable.elims)

lemma castValue_ptr:
  assumes "castValue env d t = Ok v" "d \<noteq> VNil" "\<not> isPtrType t" "t \<noteq> TInterface" "typeOf v = t"
  shows "castValue env d (TPtr t) = Ok (VPtr t (Some v))"
proof -
  have n: "t \<noteq> TPtr x" for x using assms(3) by (auto simp: isPtrType_def)
  show ?thesis
    using assms n by (cases d) (auto simp: Let_def returnValue_def split: gtype.splits option.splits if_splits)
qed

lemma decoded_not_nil: "\<not> is_indirect v \<Longrightarrow> decoded v \<noteq> VNil"
  by (cases v) (auto simp: Let_def)

lemma castValue_struct:
  assumes env: "wf_env env" and st: "storable (VStruct n fs vs) t"
    and md: "getStructMetadata (TStruct n fs) = Some md"
    and IH: "\<And>v t. v \<in> set vs \<Longrightarrow> storable v t \<Longrightarrow> castValue env (decoded v) t = Ok v"
  shows "assignFields env wrap md fs
     (map (\<lambda>(k, v). (k, castValue env v))
        (foldl (\<lambda>acc m. AList.update (mf_name m) (map decoded vs ! mf_index m) acc) [] (marshalFields md)))
     (map zeroField fs) = Ok vs"
proof (rule assignFields_all [OF env])
  from st have len: "length vs = length fs" and wf: "wfStruct n fs"
    by (auto simp: Let_def)
  have fields: "if exported (fs ! i) then storable (vs ! i) (fldType (fs ! i)) else vs ! i = zeroField (fs ! i)"
    if "i < length fs" for i
    using st that len by (auto simp: Let_def list_all_iff dest!: bspec [where x = i])
  note ms = set_marshalFields [OF md] wfStruct_marshalFields [OF wf md]
  show "distinct (map mf_name (marshalFields md))" by (rule ms(2))
  show "map (\<lambda>(k, v). (k, castValue env v))
        (foldl (\<lambda>acc m. AList.update (mf_name m) (map decoded vs ! mf_index m) acc) [] (marshalFields md))
     = map (\<lambda>m. (mf_name m, castValue env (map decoded vs ! mf_index m))) (marshalFields md)"
    by (subst foldl_update_distinct) (use ms(2) in auto)
  show "length (map zeroField fs) = length vs" using len by simp
  show "map zeroField fs ! i = vs ! i" if "i < length vs" "i \<notin> mf_index ` set (marshalFields md)" for i
    using that len fields [of i] unfolding ms(1) by (auto simp: image_iff split: if_splits)
  fix m assume m: "m \<in> set (marshalFields md)"
  then obtain i where i: "m = \<lparr>mf_index = i, mf_name = metaFieldName (fs ! i)\<rparr>" "i < length fs" "exported (fs ! i)"
    unfolding ms(1) by auto
  then have "castValue env (decoded (vs ! i)) (fldType (fs ! i)) = Ok (vs ! i)"
    using fields [of i] len by (intro IH) auto
  then show "mf_index m < length vs \<and>
          (\<exists>fi. md_fields md (strings_ToLower (mf_name m)) = Some fi \<and> sf_index fi = mf_index m) \<and>
          castValue env (map decoded vs ! mf_index m) (fldType (fs ! mf_index m)) = Ok (vs ! mf_index m)"
    using ms(3) [OF m] i len by simp
qed

lemma castValue_decoded:
  "storable v t \<Longrightarrow> wf_env env \<Longrightarrow> castValue env (decoded v) t = Ok v"
proof (induction v arbitrary: t)
  case (VStruct n fs vs)
  obtain md where md: "getStructMetadata (TStruct n fs) = Some md"
    using getStructMetadata_struct by blast
  have t: "t = TStruct n fs" using VStruct.prems(1) by (simp add: Let_def)
  have "assignFields env (\<lambda>e. e) md fs
     (map (\<lambda>(k, v). (k, castValue env v))
        (foldl (\<lambda>acc m. AList.update (mf_name m) (map decoded vs ! mf_index m) acc) [] (marshalFields md)))
     (map zeroField fs) = Ok vs"
    using VStruct by (intro castValue_struct [OF _ VStruct.prems(1) md]) auto
  then show ?case
    by (simp add: t md Let_def baseTypeOf_def isPtrType_def)
next
  case (VPtr b ov)
  show ?case
  proof (cases ov)
    case None
    with VPtr.prems show ?thesis by simp
  next
    case (Some v)
    with VPtr.prems have s: "storable v b" "\<not> isPtrType b" "t = TPtr b" by auto
    have "castValue env (decoded v) b = Ok v"
      using VPtr.IH Some s(1) VPtr.prems(2) by auto
    moreover have "\<not> is_indirect v" using s storable_typeOf [OF s(1)] by (cases v) (auto simp: isPtrType_def)
    ultimately show ?thesis
      using s Some storable_typeOf [OF s(1)] storable_not_interface [OF s(1)]
      by (simp add: castValue_ptr decoded_not_nil)
  qed
qed (auto simp: castScalar_def castFallback_def baseTypeOf_def isPtrType_def int_of_signed_def
      sint_scast_8_32 sint_scast_16_32)

lemma Unmarshal_Marshal_struct:
  assumes env: "wf_env env" and st: "storable (VStruct n fs vs) t" and enc: "encodable (VStruct n fs vs)"
  shows "\<exists>b. Marshal (VStruct n fs vs) = Ok b \<and> Unmarshal env b t = Ok (VStruct n fs vs)"
proof -
  obtain md b where md: "getStructMetadata (TStruct n fs) = Some md" and len: "length (marshalFields md) < 2 ^ 31"
    and w: "writeStructFields (TStruct n fs) (map writeValue vs) =
       Ok (PutUint32 (of_nat (length (marshalFields md))) @ b)"
    and r: "\<forall>rest f. length (b @ rest) < f \<longrightarrow> readFields_f f (length (marshalFields md)) [] (b @ rest) =
       Ok (foldl (\<lambda>acc m. AList.update (mf_name m) (map decoded vs ! mf_index m) acc) [] (marshalFields md), rest)"
    using struct_encoding [OF encodable_roundtrips enc] by blast
  have t: "t = TStruct n fs" using st by (simp add: Let_def)
  have "Unmarshal env (PutUint32 (of_nat (length (marshalFields md))) @ b) t = Ok (VStruct n fs vs)"
    using castValue_struct [OF env st md, of wrapCast] castValue_decoded env r [rule_format, of "[]" "Suc (length b)"] len
    by (auto simp: Unmarshal_def t md readFields_def sint_of_nat32)
  then show ?thesis using w by (auto simp: Marshal_def)
qed

section \<open>Properties of the record format\<close>

text \<open>A record type of the examples: an identifier, a name, an optional score and a field that
  is not exported.\<close>

definition exampleFields :: "gfield list" where
  "exampleFields =
    [GField ''ID'' [] ''id'' TInt64,
     GField ''Name'' [] ''name,index'' TString,
     GField ''Score'' [] [] (TPtr TFloat64),
     GField ''cache'' ''main'' [] TInt]"

definition exampleRecord :: gval where
  "exampleRecord = VStruct ''User'' exampleFields
     [VInt64 7, VString ''Ada'', VPtr TFloat64 (Some (VFloat64 0x3ff0000000000000)), VInt 0]"

definition exampleEnv :: go_env where
  "exampleEnv = \<lparr>Sprintf = (\<lambda>v. []), Convert = (\<lambda>v t. None), MapOrder = (\<lambda>ks. ks)\<rparr>"

text \<open>Every value the format represents (strings up to 16 MiB, byte slices, times, integers,
  floats, booleans, nil and structs of such values, behind any pointers) is written without
  error, and reading the bytes back gives the decoded form of the value and leaves whatever
  follows in the stream untouched.\<close>

theorem value_roundtrip:
  assumes "encodable v"
  shows "\<exists>b. writeValue v = Ok b \<and> (\<forall>rest. readValue (b @ rest) = Ok (decoded v, rest))"
  using encodable_roundtrips [OF assms] by (simp add: roundtrips_def)

theorem value_roundtrip_witness:
  "encodable exampleRecord \<and>
   (\<exists>b. writeValue exampleRecord = Ok b \<and> (\<forall>rest. readValue (b @ rest) = Ok (decoded exampleRecord, rest)))"
proof
  show "encodable exampleRecord" by code_simp
  then show "\<exists>b. writeValue exampleRecord = Ok b \<and>
      (\<forall>rest. readValue (b @ rest) = Ok (decoded exampleRecord, rest))"
    by (rule value_roundtrip)
qed

text \<open>C20: a record marshalled and unmarshalled into its own type is the same record, in whatever
  order the runtime ranges over the decoded map of fields.\<close>

theorem record_roundtrip:
  assumes "wf_env env" "storable (VStruct n fs vs) t" "encodable (VStruct n fs vs)"
  shows "\<exists>b. Marshal (VStruct n fs vs) = Ok b \<and> Unmarshal env b t = Ok (VStruct n fs vs)"
  using Unmarshal_Marshal_struct [OF assms] .

theorem record_roundtrip_witness:
  "storable exampleRecord (TStruct ''User'' exampleFields) \<and>
   (\<exists>b. Marshal exampleRecord = Ok b \<and> Unmarshal exampleEnv b (TStruct ''User'' exampleFields) = Ok exampleRecord)"
proof
  show s: "storable exampleRecord (TStruct ''User'' exampleFields)" by code_simp
  have e: "encodable exampleRecord" by code_simp
  have "wf_env exampleEnv" by (simp add: wf_env_def exampleEnv_def)
  then show "\<exists>b. Marshal exampleRecord = Ok b \<and> Unmarshal exampleEnv b (TStruct ''User'' exampleFields) = Ok exampleRecord"
    unfolding exampleRecord_def
    by (rule record_roundtrip) (use s e in \<open>simp_all only: exampleRecord_def\<close>)
qed

text \<open>C30: the decoder stops on every input, well-formed or not: the nesting bound it is run with
  (one more than the number of bytes) is never exhausted, and what it leaves is shorter than
  its input.\<close>

theorem readValue_terminates:
  "readValue bs \<noteq> NoFuel \<and> (\<forall>v r. readValue bs = Ok (v, r) \<longrightarrow> length r < length bs)"
  unfolding readValue_def using readValue_f_fuel [of bs "Suc (length bs)"] readValue_f_shorter by blast

theorem readValue_terminates_witness:
  "readValue [4, 0, 0, 0, 9, 1] = Ok (VInt32 9, [1]) \<and> length [1 :: byte] < length [4 :: byte, 0, 0, 0, 9, 1]"
proof
  show "readValue [4, 0, 0, 0, 9, 1] = Ok (VInt32 9, [1])" by code_simp
  then show "length [1 :: byte] < length [4 :: byte, 0, 0, 0, 9, 1]" using readValue_terminates by blast
qed

text \<open>The reader's limit is not the writer's: a string of more than 16 MiB is written without
  error and then rejected when it is read back.\<close>

theorem long_string_unreadable:
  assumes "maxStringLength < int (length s)" "length s < 2 ^ 31"
  shows "\<exists>b. writeValue (VString s) = Ok b \<and> readValue b = Err (InvalidStringLength (int (length s)))"
  using readString_writeString_too_long [OF assms, of "[]"] by (simp add: readValue_scalar)

theorem long_string_unreadable_witness:
  "\<exists>b. writeValue (VString (replicate (2 ^ 25) CHR ''x'')) = Ok b \<and>
     readValue b = Err (InvalidStringLength (2 ^ 25))"
  using long_string_unreadable [of "replicate (2 ^ 25) CHR ''x''"] by (simp add: maxStringLength_def)

end
