(* ===== verification/TypeLaws.thy ===== *)
theory TypeLaws
  imports CodecLaws
begin

text \<open>
  Type soundness of the decoder: whatever bytes \<open>Unmarshal\<close> accepts, the value it builds is a value
  of the target type, field by field and through pointers. The type assertions that the typed tables
  and queries make on decoded records rest on this.
\<close>

section \<open>Well-typed values\<close>

fun wellTyped :: "gval \<Rightarrow> bool" where
  "wellTyped (VPtr t (Some v)) = (typeOf v = t \<and> wellTyped v)"
| "wellTyped (VIface (Some v)) = wellTyped v"
| "wellTyped (VStruct n fs vs) = (map typeOf vs = map fldType fs \<and> list_all id (map wellTyped vs))"
| "wellTyped (VPlaceholder n fields') = list_all id (map (\<lambda>(k, v). wellTyped v) fields')"
| "wellTyped v = True"

lemma zeroValue_typed: "typeOf (zeroValue t) = t \<and> wellTyped (zeroValue t)"
  and zeroField_typed: "typeOf (zeroField f) = fldType f \<and> wellTyped (zeroField f)"
  by (induction t and f rule: zeroValue_zeroField.induct) (auto simp: list_all_iff)

text \<open>\<^verbatim>\<open>reflect.Value.Convert(t)\<close> returns a value of type \<open>t\<close>.\<close>

definition typedConvert :: "go_env \<Rightarrow> bool" where
  "typedConvert env = (\<forall>v t w. Convert env v t = Some w \<longrightarrow> typeOf w = t \<and> wellTyped w)"

lemma castSignedInteger_typed:
  "t \<in> {TInt, TInt8, TInt16, TInt32, TInt64} \<Longrightarrow> castSignedInteger v t = Ok w \<Longrightarrow> typeOf w = t \<and> wellTyped w"
  by (auto simp: castSignedInteger.simps split: option.splits if_splits)

lemma castFallback_typed:
  assumes "typedConvert env" "wellTyped v" "castFallback env v t = Ok w"
  shows "typeOf w = t \<and> wellTyped w"
  using assms by (auto simp: castFallback_def typedConvert_def split: if_splits gval.splits gtype.splits option.splits)

lemma castScalar_typed:
  assumes "typedConvert env" "wellTyped v" "castScalar env v t = Ok w"
  shows "typeOf w = t \<and> wellTyped w"
  using assms castFallback_typed [OF assms(1,2)] castSignedInteger_typed [of t v w]
  by (cases t) (auto simp: castScalar_def)

lemma returnValue_typed:
  assumes "typeOf w = baseTypeOf t" "wellTyped w"
  shows "typeOf (returnValue w (isPtrType t)) = t \<and> wellTyped (returnValue w (isPtrType t))"
  using assms by (cases t) (auto simp: returnValue_def isPtrType_def baseTypeOf_def)

lemma foldR_preserves:
  assumes "\<And>s x s'. P s \<Longrightarrow> f s x = Ok s' \<Longrightarrow> P s'"
  shows "P s \<Longrightarrow> foldR f s xs = Ok s' \<Longrightarrow> P s'"
  using assms by (induction xs arbitrary: s) (auto simp: bindR_Ok_iff)

definition fieldsTyped :: "gfield list \<Rightarrow> gval list \<Rightarrow> bool" where
  "fieldsTyped fs vs = (map typeOf vs = map fldType fs \<and> (\<forall>v \<in> set vs. wellTyped v))"

lemma fieldsTyped_update:
  assumes "fieldsTyped fs vs" "typeOf v = fldType (fs ! i)" "wellTyped v"
  shows "fieldsTyped fs (vs[i := v])"
proof (cases "i < length vs")
  case True
  have "map typeOf vs = map fldType fs" using assms(1) by (simp add: fieldsTyped_def)
  then have "length vs = length fs" "\<And>j. j < length vs \<Longrightarrow> typeOf (vs ! j) = fldType (fs ! j)"
    by (metis length_map, metis length_map nth_map)
  then have "map typeOf (vs[i := v]) = map fldType fs"
    using assms(2) True by (intro nth_equalityI) (auto simp: nth_list_update)
  then show ?thesis using assms(1,3) set_update_subset_insert [of vs i v] by (auto simp: fieldsTyped_def)
qed (use assms(1) in \<open>simp add: list_update_beyond\<close>)

lemma fieldsTyped_zero: "fieldsTyped fs (map zeroField fs)"
  by (auto simp: fieldsTyped_def zeroField_typed)

lemma assignFields_typed:
  assumes c: "\<And>k f t w. (k, f) \<in> set cs \<Longrightarrow> f t = Ok w \<Longrightarrow> typeOf w = t \<and> wellTyped w"
    and a: "assignFields env wrap metadata fs cs vs0 = Ok vs" and v: "fieldsTyped fs vs0"
  shows "fieldsTyped fs vs"
  using a unfolding assignFields_def
proof (rule foldR_preserves [where P = "fieldsTyped fs", rotated 2])
  show "fieldsTyped fs vs0" by (fact v)
  show "fieldsTyped fs vs2" if "fieldsTyped fs vs1" "(case map_of cs k of None \<Rightarrow> Ok vs1
      | Some castFunction \<Rightarrow> (case md_fields metadata (strings_ToLower k) of None \<Rightarrow> Ok vs1
        | Some fieldInfo \<Rightarrow> (case castFunction (fldType (fs ! sf_index fieldInfo)) of Ok v \<Rightarrow> Ok (vs1[sf_index fieldInfo := v])
           | Err e \<Rightarrow> Err (wrap e) | Panic p \<Rightarrow> Panic p | NoFuel \<Rightarrow> NoFuel))) = Ok vs2" for vs1 k vs2
    using that c by (auto split: option.splits res.splits dest!: map_of_SomeD intro: fieldsTyped_update)
qed

lemma castValue_other:
  assumes "v \<noteq> VNil" "\<nexists>n fs. v = VPlaceholder n fs"
  shows "castValue env v t = (if t = TPtr TInterface then Panic ReflectPanic
    else bindR (castScalar env v (baseTypeOf t)) (\<lambda>v. Ok (returnValue v (isPtrType t))))"
  using assms by (cases v) simp_all

lemma size_placeholder: "(k, v) \<in> set fs \<Longrightarrow> size v < size (VPlaceholder n fs)"
  by (induction fs) auto

lemma castValue_typed:
  assumes env: "typedConvert env"
  shows "wellTyped v \<Longrightarrow> castValue env v t = Ok w \<Longrightarrow> typeOf w = t \<and> wellTyped w"
proof (induction v arbitrary: t w rule: measure_induct_rule [where f = size])
  case (less v)
  consider "v = VNil" | n fs where "v = VPlaceholder n fs" | "v \<noteq> VNil" "\<nexists>n fs. v = VPlaceholder n fs" by blast
  then show ?case
  proof cases
    case 1
    then show ?thesis using less.prems(2) zeroValue_typed by auto
  next
    case (2 n fields')
    let ?cs = "map (\<lambda>(k, v). (k, castValue env v)) fields'"
    have c: "typeOf w = t \<and> wellTyped w" if "(k, f) \<in> set ?cs" "f t = Ok w" for k f t w
    proof -
      have "(k, f) \<in> (\<lambda>(k, v). (k, castValue env v)) ` set fields'" using that(1) by simp
      then obtain u where u: "(k, u) \<in> set fields'" "f = castValue env u" by (elim imageE) (simp split: prod.splits)
      then have "wellTyped u" using less.prems(1) 2 by (auto simp: list_all_iff)
      then show ?thesis using less.IH [OF size_placeholder [OF u(1), of n, folded 2]] that(2) u(2) by blast
    qed
    show ?thesis
    proof (cases "baseTypeOf t")
      case (TStruct sn fs)
      obtain vs md where vs: "assignFields env (\<lambda>e. e) md fs ?cs (map zeroField fs) = Ok vs" "w = returnValue (VStruct sn fs vs) (isPtrType t)"
        using less.prems(2) 2 TStruct by (auto simp: Let_def bindR_Ok_iff split: option.splits)
      have "fieldsTyped fs vs" by (rule assignFields_typed [OF c vs(1) fieldsTyped_zero])
      then have "wellTyped (VStruct sn fs vs)" by (auto simp: fieldsTyped_def list_all_iff)
      then show ?thesis using returnValue_typed [of "VStruct sn fs vs" t] TStruct vs(2) by simp
    next
      case TTime
      then show ?thesis using less.prems(2) 2 returnValue_typed [of "zeroValue TTime" t] by (auto simp: Let_def)
    qed (use less.prems(2) 2 in \<open>auto simp: Let_def\<close>)
  next
    case 3
    then show ?thesis
      using less.prems castScalar_typed [OF env less.prems(1)] returnValue_typed
      by (auto simp: castValue_other bindR_Ok_iff split: if_splits)
  qed
qed

section \<open>Decoded values\<close>

lemma readScalar_typed: "readScalar tag r = Ok (v, r') \<Longrightarrow> wellTyped v"
  by (auto simp: readScalar_def time_Unix_def bindR_Ok_iff split: if_splits)

definition entriesTyped :: "(string \<times> gval) list \<Rightarrow> bool" where
  "entriesTyped fs = (\<forall>(k, v) \<in> set fs. wellTyped v)"

lemma entriesTyped_update: "entriesTyped fs \<Longrightarrow> wellTyped v \<Longrightarrow> entriesTyped (AList.update k v fs)"
  by (induction fs) (auto simp: entriesTyped_def)

lemma readValue_f_typed: "readValue_f fuel bs = Ok (v, r) \<Longrightarrow> wellTyped v"
  and readFields_f_typed: "readFields_f fuel n fs bs = Ok (fs', r) \<Longrightarrow> entriesTyped fs \<Longrightarrow> entriesTyped fs'"
proof (induction fuel bs and fuel n fs bs arbitrary: v r and fs' r rule: readValue_f_readFields_f.induct)
  case (2 fuel reader)
  then show ?case
    by (auto simp: bindR_Ok_iff readScalar_typed entriesTyped_def list_all_iff split: if_splits prod.splits)
next
  case (4 fuel n fs reader)
  from 4(3) obtain name r1 u r2 where r: "readString reader = Ok (name, r1)" "readValue_f fuel r1 = Ok (u, r2)"
    "readFields_f fuel n (AList.update name u fs) r2 = Ok (fs', r)" by (auto simp: bindR_Ok_iff)
  have "wellTyped u" using 4(1) [OF r(1) refl r(2)] .
  then show ?case using 4(2) [OF r(1) refl r(2) refl r(3)] entriesTyped_update [OF 4(4)] by blast
qed auto

lemma readFields_typed: "readFields n bs = Ok (fs, r) \<Longrightarrow> entriesTyped fs"
  using readFields_f_typed [of "Suc (length bs)" n "[]" bs fs r] by (simp add: readFields_def entriesTyped_def)

lemma Unmarshal_typed:
  assumes env: "typedConvert env" and u: "Unmarshal env b t = Ok v"
  shows "typeOf v = t \<and> wellTyped v"
proof (cases "b = []")
  case False
  show ?thesis
  proof (cases t)
    case (TStruct n fs)
    obtain count :: "32 word" and r decoded r' md vs where d: "readFields (nat (sint count)) r = Ok (decoded, r')"
      and vs: "assignFields env wrapCast md fs (map (\<lambda>(k, v). (k, castValue env v)) decoded) (map zeroField fs) = Ok vs" "v = VStruct n fs vs"
      using u False TStruct by (auto simp: Unmarshal_def bindR_Ok_iff split: option.splits)
    have c: "typeOf w = t \<and> wellTyped w"
      if "(k, f) \<in> set (map (\<lambda>(k, v). (k, castValue env v)) decoded)" "f t = Ok w" for k f t w
    proof -
      have "(k, f) \<in> (\<lambda>(k, v). (k, castValue env v)) ` set decoded" using that(1) by simp
      then obtain x where x: "(k, x) \<in> set decoded" "f = castValue env x" by (elim imageE) (simp split: prod.splits)
      then have "wellTyped x" using readFields_typed [OF d] by (auto simp: entriesTyped_def)
      then show ?thesis using castValue_typed [OF env] that(2) x(2) by blast
    qed
    have "fieldsTyped fs vs" by (rule assignFields_typed [OF c vs(1) fieldsTyped_zero])
    then show ?thesis using TStruct vs(2) by (auto simp: fieldsTyped_def list_all_iff)
  qed (use u False zeroValue_typed in \<open>auto simp: Unmarshal_def bindR_Ok_iff\<close>)
qed (use u zeroValue_typed in \<open>auto simp: Unmarshal_def\<close>)

section \<open>Properties\<close>

text \<open>C15: whatever bytes are decoded into a target type, well-formed or not, an accepted input gives a value of exactly
  that type whose fields and pointers have their declared types, so the type assertions on decoded
  records cannot fail.\<close>

theorem unmarshal_well_typed:
  assumes "typedConvert env" "Unmarshal env b t = Ok v"
  shows "typeOf v = t \<and> wellTyped v"
  using Unmarshal_typed [OF assms] .

theorem unmarshal_well_typed_witness:
  "\<exists>v. Unmarshal exampleEnv [0, 0, 0, 1, 0, 0, 0, 2, 105, 100, 4, 0, 0, 0, 9] (TStruct ''User'' exampleFields) = Ok v
    \<and> typeOf v = TStruct ''User'' exampleFields \<and> wellTyped v"
proof -
  have t: "typedConvert exampleEnv" by (simp add: typedConvert_def exampleEnv_def)
  have "case Unmarshal exampleEnv [0, 0, 0, 1, 0, 0, 0, 2, 105, 100, 4, 0, 0, 0, 9] (TStruct ''User'' exampleFields) of Ok v \<Rightarrow> True | _ \<Rightarrow> False"
    by code_simp
  then obtain v where "Unmarshal exampleEnv [0, 0, 0, 1, 0, 0, 0, 2, 105, 100, 4, 0, 0, 0, 9] (TStruct ''User'' exampleFields) = Ok v"
    by (auto split: res.splits)
  then show ?thesis using unmarshal_well_typed [OF t] by blast
qed

end
