(* ===== verification/Storage.thy ===== *)
theory Storage
  imports GoRuntime
begin

text \<open>
  \<^verbatim>\<open>src/storage.go\<close>: the append-only data file of a table.

  The state of a \<^verbatim>\<open>TableStorage\<close> is its open file (nil, usable, or closed underneath after a
  failed close), its path and \<^verbatim>\<open>currentSize\<close>, together with the contents of the file at that
  path, \<open>ts_disk\<close>. The outcomes of the operating system's calls are arguments: \<open>None\<close> is
  success, \<open>Some e\<close> the error, and a write may fail after a prefix of its bytes. The mutex
  serialises the operations, so each is one atomic function on the state.
\<close>

section \<open>Definitions\<close>

record RecordPointer =
  Offset :: "64 word"
  Size :: "32 word"

definition zeroPointer :: RecordPointer where
  "zeroPointer = \<lparr>Offset = 0, Size = 0\<rparr>"

datatype osFile = NilFile | OpenFile | ClosedFile

record TableStorage =
  ts_file :: osFile
  ts_path :: string
  currentSize :: "64 word"
  ts_disk :: bytes

text \<open>\<^verbatim>\<open>os.File.WriteAt\<close> and \<^verbatim>\<open>ReadAt\<close> on a file of the given contents: the new contents, and
  the number of bytes written or the error.\<close>

definition file_WriteAt :: "osFile \<Rightarrow> bytes \<Rightarrow> bytes \<Rightarrow> int \<Rightarrow> write_outcome \<Rightarrow> nat res \<times> bytes" where
  "file_WriteAt file disk buffer off outcome =
     (if file \<noteq> OpenFile then (Err (OsError ''file already closed''), disk)
      else if off < 0 then (Err (OsError ''negative offset''), disk)
      else case outcome of
        WOk \<Rightarrow> (Ok (length buffer), if buffer = [] then disk else writeAt disk (nat off) buffer)
      | WFail k e \<Rightarrow>
          (Err e, if take k buffer = [] then disk else writeAt disk (nat off) (take k buffer)))"

definition file_ReadAt :: "osFile \<Rightarrow> bytes \<Rightarrow> nat \<Rightarrow> int \<Rightarrow> error option \<Rightarrow> bytes res" where
  "file_ReadAt file disk n off outcome =
     (if file \<noteq> OpenFile then Err (OsError ''file already closed'')
      else if off < 0 then Err (OsError ''negative offset'')
      else case outcome of Some e \<Rightarrow> Err e | None \<Rightarrow> readAt disk (nat off) n)"

record open_io =
  oi_mkdir :: "error option"
  oi_open :: "error option"
  oi_stat :: "error option"

definition NewTableStorage :: "string \<Rightarrow> string \<Rightarrow> bytes option \<Rightarrow> open_io \<Rightarrow> TableStorage res" where
  "NewTableStorage directory tableName existing io =
     (if \<not> isValidTableName tableName then Err InvalidTableNameError
      else case oi_mkdir io of
        Some e \<Rightarrow> Err (WrapError ''failed to create directory'' e)
      | None \<Rightarrow>
          let tablePath = directory @ ''/'' @ tableName @ ''.db'' in
          (case oi_open io of
             Some e \<Rightarrow> Err (WrapError ''failed to open table file'' e)
           | None \<Rightarrow>
               let disk = (case existing of None \<Rightarrow> [] | Some b \<Rightarrow> b) in
               (case oi_stat io of
                  Some e \<Rightarrow> Err (WrapError ''failed to stat table file'' e)
                | None \<Rightarrow> Ok \<lparr>ts_file = OpenFile, ts_path = tablePath,
                               currentSize = of_nat (length disk), ts_disk = disk\<rparr>)))"

definition AppendRecord ::
  "bytes \<Rightarrow> write_outcome \<Rightarrow> TableStorage \<Rightarrow> RecordPointer res \<times> TableStorage"
where
  "AppendRecord bytesValue outcome ts =
     (if ts_file ts = NilFile then (Err DatabaseClosedError, ts)
      else
        let offset = currentSize ts in
        case file_WriteAt (ts_file ts) (ts_disk ts) bytesValue (sint offset) outcome of
          (Ok written, disk) \<Rightarrow>
            (Ok \<lparr>Offset = offset, Size = of_nat written\<rparr>,
             ts\<lparr>ts_disk := disk, currentSize := currentSize ts + of_nat written\<rparr>)
        | (Err e, disk) \<Rightarrow> (Err e, ts\<lparr>ts_disk := disk\<rparr>)
        | (Panic p, disk) \<Rightarrow> (Panic p, ts\<lparr>ts_disk := disk\<rparr>)
        | (NoFuel, disk) \<Rightarrow> (NoFuel, ts\<lparr>ts_disk := disk\<rparr>))"

text \<open>The loop of \<open>AppendRecords\<close>: buffer, pointers and running offset.\<close>

fun layoutRecords :: "64 word \<Rightarrow> bytes list \<Rightarrow> RecordPointer list \<times> 64 word" where
  "layoutRecords offset [] = ([], offset)"
| "layoutRecords offset (recordBytes # rest) =
     (let (ptrs, final) = layoutRecords (offset + of_nat (length recordBytes)) rest
      in (\<lparr>Offset = offset, Size = of_nat (length recordBytes)\<rparr> # ptrs, final))"

definition AppendRecords ::
  "bytes list \<Rightarrow> write_outcome \<Rightarrow> TableStorage \<Rightarrow> RecordPointer list res \<times> TableStorage"
where
  "AppendRecords recordsSlice outcome ts =
     (if ts_file ts = NilFile then (Err DatabaseClosedError, ts)
      else
        let buffer = concat recordsSlice;
            (recordPointers, offset) = layoutRecords (currentSize ts) recordsSlice
        in if buffer \<noteq> [] then
             (case file_WriteAt (ts_file ts) (ts_disk ts) buffer (sint (currentSize ts)) outcome of
                (Ok _, disk) \<Rightarrow> (Ok recordPointers, ts\<lparr>ts_disk := disk, currentSize := offset\<rparr>)
              | (Err e, disk) \<Rightarrow> (Err e, ts\<lparr>ts_disk := disk\<rparr>)
              | (Panic p, disk) \<Rightarrow> (Panic p, ts\<lparr>ts_disk := disk\<rparr>)
              | (NoFuel, disk) \<Rightarrow> (NoFuel, ts\<lparr>ts_disk := disk\<rparr>))
           else (Ok recordPointers, ts\<lparr>currentSize := offset\<rparr>))"

definition maxRecordSize :: int where
  "maxRecordSize = 1024 * 1024 * 64"

definition ReadRecord :: "RecordPointer \<Rightarrow> error option \<Rightarrow> TableStorage \<Rightarrow> bytes res" where
  "ReadRecord recordPointer outcome ts =
     (if ts_file ts = NilFile then Err DatabaseClosedError
      else if sint (Size recordPointer) < 0 \<or> sint (Size recordPointer) > maxRecordSize then
        Err (CorruptPointerSize (sint (Size recordPointer)))
      else if sint (Offset recordPointer) < 0 then
        Err (CorruptPointerOffset (sint (Offset recordPointer)))
      else
        case file_ReadAt (ts_file ts) (ts_disk ts) (nat (sint (Size recordPointer)))
               (sint (Offset recordPointer)) outcome of
          Err e \<Rightarrow> if e = IoEOF
                   then Err (RecordUnexpectedEOF (sint (Offset recordPointer)) (sint (Size recordPointer)))
                   else Err e
        | r \<Rightarrow> r)"

definition TableStorage_Close :: "error option \<Rightarrow> TableStorage \<Rightarrow> unit res \<times> TableStorage" where
  "TableStorage_Close outcome ts =
     (if ts_file ts \<noteq> NilFile then
        (case (if ts_file ts = ClosedFile then Some (OsError ''file already closed'') else outcome) of
           Some e \<Rightarrow> Err e | None \<Rightarrow> Ok (), ts\<lparr>ts_file := NilFile\<rparr>)
      else (Ok (), ts))"

text \<open>\<open>Compact\<close>: the map of live pointers is the list of its entries in the order Go ranges over
  it. The compacted file is a local value until the rename puts it at the table's path.\<close>

record compact_io =
  ci_open :: "error option"
  ci_read :: "nat \<Rightarrow> error option"
  ci_write :: "nat \<Rightarrow> write_outcome"
  ci_sync :: "error option"
  ci_close :: "error option"
  ci_rename :: "error option"
  ci_reopen :: "error option"

fun compactLoop ::
  "TableStorage \<Rightarrow> compact_io \<Rightarrow> nat \<Rightarrow> 64 word \<Rightarrow> bytes \<Rightarrow> ('k \<times> RecordPointer) list \<Rightarrow>
   (('k \<times> RecordPointer) list \<times> 64 word \<times> bytes) res"
where
  "compactLoop ts io i writeOffset compacted [] = Ok ([], writeOffset, compacted)"
| "compactLoop ts io i writeOffset compacted ((key, old) # rest) =
     (if sint (Size old) < 0 then Panic MakeSliceLen
      else case file_ReadAt (ts_file ts) (ts_disk ts) (nat (sint (Size old))) (sint (Offset old)) (ci_read io i) of
        Err e \<Rightarrow> Err (WrapError ''compact failed to read record'' e)
      | Panic p \<Rightarrow> Panic p
      | NoFuel \<Rightarrow> NoFuel
      | Ok buffer \<Rightarrow>
          (case file_WriteAt OpenFile compacted buffer (sint writeOffset) (ci_write io i) of
             (Ok _, compacted') \<Rightarrow>
               bindR (compactLoop ts io (Suc i) (writeOffset + scast (Size old)) compacted' rest)
                 (\<lambda>(newPointers, final, c). Ok ((key, \<lparr>Offset = writeOffset, Size = Size old\<rparr>) # newPointers, final, c))
           | (Err e, _) \<Rightarrow> Err (WrapError ''compact failed to write record'' e)
           | (Panic p, _) \<Rightarrow> Panic p
           | (NoFuel, _) \<Rightarrow> NoFuel))"

definition Compact ::
  "compact_io \<Rightarrow> ('k \<times> RecordPointer) list \<Rightarrow> TableStorage \<Rightarrow>
   unit res \<times> ('k \<times> RecordPointer) list \<times> TableStorage"
where
  "Compact io activePointers ts =
     (if ts_file ts = NilFile then (Err DatabaseClosedError, activePointers, ts)
      else case ci_open io of
        Some e \<Rightarrow> (Err (WrapError ''failed to open compact file'' e), activePointers, ts)
      | None \<Rightarrow>
          (case compactLoop ts io 0 0 [] activePointers of
             Err e \<Rightarrow> (Err e, activePointers, ts)
           | Panic p \<Rightarrow> (Panic p, activePointers, ts)
           | NoFuel \<Rightarrow> (NoFuel, activePointers, ts)
           | Ok (newPointers, writeOffset, compacted) \<Rightarrow>
               (case ci_sync io of
                  Some e \<Rightarrow> (Err (WrapError ''compact failed to sync'' e), activePointers, ts)
                | None \<Rightarrow>
                    (case (if ts_file ts = ClosedFile then Some (OsError ''file already closed'') else ci_close io) of
                       Some e \<Rightarrow> (Err (WrapError ''failed to close table file for swap'' e), activePointers,
                                  ts\<lparr>ts_file := ClosedFile\<rparr>)
                     | None \<Rightarrow>
                         (case ci_rename io of
                            Some e \<Rightarrow> (Err (WrapError ''failed to swap table file'' e), activePointers,
                                       ts\<lparr>ts_file := NilFile\<rparr>)
                          | None \<Rightarrow>
                              (case ci_reopen io of
                                 Some e \<Rightarrow> (Err (WrapError ''failed to reopen table file after swap'' e),
                                    activePointers, ts\<lparr>ts_file := NilFile, ts_disk := compacted\<rparr>)
                               | None \<Rightarrow> (Ok (), newPointers,
                                   ts\<lparr>ts_file := OpenFile, ts_disk := compacted, currentSize := writeOffset\<rparr>)))))))"

record reset_io =
  ri_truncate :: "error option"
  ri_seek :: "error option"
  ri_sync :: "error option"

definition Reset :: "reset_io \<Rightarrow> TableStorage \<Rightarrow> unit res \<times> TableStorage" where
  "Reset io ts =
     (if ts_file ts = NilFile then (Err DatabaseClosedError, ts)
      else if ts_file ts = ClosedFile then (Err (OsError ''file already closed''), ts)
      else case ri_truncate io of
        Some e \<Rightarrow> (Err e, ts)
      | None \<Rightarrow>
          (case ri_seek io of
             Some e \<Rightarrow> (Err e, ts\<lparr>ts_disk := []\<rparr>)
           | None \<Rightarrow>
               (case ri_sync io of Some e \<Rightarrow> Err e | None \<Rightarrow> Ok (),
                ts\<lparr>ts_disk := [], currentSize := 0\<rparr>)))"

section \<open>The contract of an append-only store\<close>

text \<open>\<open>stored ts p b\<close>: the pointer lies inside the appended part of the file and reads back as
  \<open>b\<close>. \<open>storage_ok\<close>: the appended part is inside the file; a torn append may have left bytes
  after it.\<close>

definition storage_ok :: "TableStorage \<Rightarrow> bool" where
  "storage_ok ts = (ts_file ts = OpenFile \<and> 0 \<le> sint (currentSize ts) \<and>
     sint (currentSize ts) \<le> int (length (ts_disk ts)))"

definition stored :: "TableStorage \<Rightarrow> RecordPointer \<Rightarrow> bytes \<Rightarrow> bool" where
  "stored ts p b = (storage_ok ts \<and> 0 \<le> sint (Offset p) \<and>
     sint (Offset p) + sint (Size p) \<le> sint (currentSize ts) \<and> ReadRecord p None ts = Ok b)"

text \<open>The room an append needs: the records are readable ones and the file stays addressable.\<close>

definition fits :: "TableStorage \<Rightarrow> bytes list \<Rightarrow> bool" where
  "fits ts recs = (list_all (\<lambda>b. int (length b) \<le> maxRecordSize) recs \<and>
     sint (currentSize ts) + int (length (concat recs)) < 2 ^ 63)"

locale append_store =
  fixes append :: "'r list \<Rightarrow> 'o \<Rightarrow> 's \<Rightarrow> 'p list res \<times> 's"
    and ok :: "'s \<Rightarrow> bool"
    and holds :: "'s \<Rightarrow> 'p \<Rightarrow> 'r \<Rightarrow> bool"
    and room :: "'s \<Rightarrow> 'r list \<Rightarrow> bool"
  assumes append_keeps: "holds s p r \<Longrightarrow> room s rs \<Longrightarrow> holds (snd (append rs out s)) p r"
    and append_ok: "ok s \<Longrightarrow> room s rs \<Longrightarrow> ok (snd (append rs out s))"
    and append_holds: "ok s \<Longrightarrow> room s rs \<Longrightarrow> append rs out s = (Ok ps, s') \<Longrightarrow> list_all2 (holds s') ps rs"
begin

text \<open>A run of appends, each with its own outcome, as long as there is room.\<close>

fun run :: "('r list \<times> 'o) list \<Rightarrow> 's \<Rightarrow> 's" where
  "run [] s = s"
| "run ((rs, out) # as) s = run as (snd (append rs out s))"

fun has_room :: "('r list \<times> 'o) list \<Rightarrow> 's \<Rightarrow> bool" where
  "has_room [] s = True"
| "has_room ((rs, out) # as) s = (room s rs \<and> has_room as (snd (append rs out s)))"

lemma run_keeps: "holds s p r \<Longrightarrow> has_room as s \<Longrightarrow> holds (run as s) p r"
  by (induction as s rule: run.induct) (auto intro: append_keeps)

lemma run_ok: "ok s \<Longrightarrow> has_room as s \<Longrightarrow> ok (run as s)"
  by (induction as s rule: run.induct) (auto intro: append_ok)

lemma run_after_append:
  assumes "ok s" "room s rs" "append rs out s = (Ok ps, s')" "has_room as s'"
  shows "list_all2 (holds (run as s')) ps rs"
  using append_holds [OF assms(1-3)] by (rule list_all2_mono) (rule run_keeps [OF _ assms(4)])

end

section \<open>Reading back what was appended\<close>

lemma sint64_add_nat:
  "0 \<le> sint (w :: 64 word) \<Longrightarrow> sint w + int n < 2 ^ 63 \<Longrightarrow> sint (w + of_nat n) = sint w + int n"
  by (simp add: sint_word_ariths signed_of_nat signed_take_bit_int_eq_self)

lemma ReadRecord_ok:
  assumes "ts_file ts = OpenFile" "0 \<le> sint (Size p)" "sint (Size p) \<le> maxRecordSize"
    "0 \<le> sint (Offset p)" "sint (Offset p) + sint (Size p) \<le> int (length (ts_disk ts))"
  shows "ReadRecord p None ts = Ok (sub (ts_disk ts) (nat (sint (Offset p))) (nat (sint (Size p))))"
  using assms by (auto simp: ReadRecord_def file_ReadAt_def readAt_def)


lemma stored_iff:
  "stored ts p b \<longleftrightarrow> storage_ok ts \<and> 0 \<le> sint (Size p) \<and> sint (Size p) \<le> maxRecordSize \<and>
     0 \<le> sint (Offset p) \<and> sint (Offset p) + sint (Size p) \<le> sint (currentSize ts) \<and>
     b = sub (ts_disk ts) (nat (sint (Offset p))) (nat (sint (Size p)))"
  (is "?l \<longleftrightarrow> ?r")
proof (cases "0 \<le> sint (Size p) \<and> sint (Size p) \<le> maxRecordSize")
  case True
  then show ?thesis
    using ReadRecord_ok [of ts p] by (auto simp: stored_def storage_ok_def)
next
  case False
  then have "ReadRecord p None ts \<noteq> Ok b" by (auto simp: ReadRecord_def)
  with False show ?thesis by (auto simp: stored_def)
qed

lemma sub_take_eq: "take n f = take n g \<Longrightarrow> off + m \<le> n \<Longrightarrow> sub f off m = sub g off m"
  unfolding sub_def by (metis add.commute drop_take le_add_diff_inverse2 min_def take_drop take_take)

text \<open>What is stored stays stored when the appended part of the file is not rewritten.\<close>

lemma stored_mono:
  assumes "stored ts p b" "storage_ok ts'" "sint (currentSize ts) \<le> sint (currentSize ts')"
    "take (nat (sint (currentSize ts))) (ts_disk ts') = take (nat (sint (currentSize ts))) (ts_disk ts)"
  shows "stored ts' p b"
  using assms sub_take_eq [OF assms(4), of "nat (sint (Offset p))" "nat (sint (Size p))"]
  by (auto simp: stored_iff nat_add_distrib [symmetric])

lemma sub_0: "sub f off 0 = []"
  by (simp add: sub_def)

lemma take_writeAt: "n \<le> length f \<Longrightarrow> take n (writeAt f n bs) = take n f"
  by (simp add: writeAt_def)

lemma length_writeAt: "n \<le> length f \<Longrightarrow> length (writeAt f n bs) = max (length f) (n + length bs)"
  by (simp add: writeAt_def)

lemma sub_writeAt:
  "n \<le> length f \<Longrightarrow> i + m \<le> length bs \<Longrightarrow> sub (writeAt f n bs) (n + i) m = sub bs i m"
  by (simp add: writeAt_def sub_def)

lemma file_WriteAt_end:
  assumes "storage_ok ts" "file_WriteAt (ts_file ts) (ts_disk ts) buffer (sint (currentSize ts)) outcome = (r, disk)"
  shows "take (nat (sint (currentSize ts))) disk = take (nat (sint (currentSize ts))) (ts_disk ts)"
    and "length (ts_disk ts) \<le> length disk"
    and "r = Ok n \<Longrightarrow> n = length buffer \<and> nat (sint (currentSize ts)) + length buffer \<le> length disk \<and>
      (i + m \<le> length buffer \<longrightarrow> sub disk (nat (sint (currentSize ts)) + i) m = sub buffer i m)"
  using assms
  by (auto simp: storage_ok_def file_WriteAt_def take_writeAt length_writeAt sub_writeAt
      nat_le_iff sub_0 split: write_outcome.splits if_splits)

lemma layoutRecords_final:
  "0 \<le> sint off \<Longrightarrow> sint off + int (length (concat recs)) < 2 ^ 63 \<Longrightarrow>
   sint (snd (layoutRecords off recs)) = sint off + int (length (concat recs))"
proof (induction recs arbitrary: off)
  case (Cons r recs)
  have "sint (off + of_nat (length r)) = sint off + int (length r)"
    using Cons.prems by (intro sint64_add_nat) auto
  then show ?case using Cons.IH [of "off + of_nat (length r)"] Cons.prems by (auto split: prod.splits)
qed simp

lemma layoutRecords_sub:
  assumes "0 \<le> sint off" "sint off + int (length (concat recs)) < 2 ^ 63"
    and "list_all (\<lambda>b. int (length b) \<le> maxRecordSize) recs"
  shows "list_all2 (\<lambda>p b. sint off \<le> sint (Offset p) \<and> sint (Size p) = int (length b) \<and>
      sint (Offset p) + int (length b) \<le> sint off + int (length (concat recs)) \<and>
      sub (concat recs) (nat (sint (Offset p) - sint off)) (length b) = b)
    (fst (layoutRecords off recs)) recs"
  using assms
proof (induction recs arbitrary: off)
  case (Cons r recs)
  let ?off = "off + of_nat (length r)"
  have o: "sint ?off = sint off + int (length r)"
    using Cons.prems by (intro sint64_add_nat) auto
  have size: "sint (of_nat (length r) :: 32 word) = int (length r)"
    using Cons.prems(3) by (intro sint_of_nat32) (simp add: maxRecordSize_def)
  have "list_all2 (\<lambda>p b. sint ?off \<le> sint (Offset p) \<and> sint (Size p) = int (length b) \<and>
      sint (Offset p) + int (length b) \<le> sint ?off + int (length (concat recs)) \<and>
      sub (concat recs) (nat (sint (Offset p) - sint ?off)) (length b) = b)
    (fst (layoutRecords ?off recs)) recs"
    using Cons.prems o by (intro Cons.IH) auto
  then have "list_all2 (\<lambda>p b. sint off \<le> sint (Offset p) \<and> sint (Size p) = int (length b) \<and>
      sint (Offset p) + int (length b) \<le> sint off + int (length (concat (r # recs))) \<and>
      sub (concat (r # recs)) (nat (sint (Offset p) - sint off)) (length b) = b)
    (fst (layoutRecords ?off recs)) recs"
  proof (rule list_all2_mono)
    fix p b
    assume a: "sint ?off \<le> sint (Offset p) \<and> sint (Size p) = int (length b) \<and>
      sint (Offset p) + int (length b) \<le> sint ?off + int (length (concat recs)) \<and>
      sub (concat recs) (nat (sint (Offset p) - sint ?off)) (length b) = b"
    have n: "nat (sint (Offset p) - sint off) = length r + nat (sint (Offset p) - sint ?off)"
      using a o by linarith
    have "sub (concat (r # recs)) (nat (sint (Offset p) - sint off)) (length b) = b"
      unfolding n using a by (simp add: sub_def)
    then show "sint off \<le> sint (Offset p) \<and> sint (Size p) = int (length b) \<and>
      sint (Offset p) + int (length b) \<le> sint off + int (length (concat (r # recs))) \<and>
      sub (concat (r # recs)) (nat (sint (Offset p) - sint off)) (length b) = b"
      using a o by simp
  qed
  then show ?case using size by (auto simp: sub_def split: prod.splits)
qed simp


lemma AppendRecords_cases:
  fixes outcome :: write_outcome
  assumes "storage_ok ts" "fits ts recs"
  defines "ts' \<equiv> snd (AppendRecords recs outcome ts)"
  shows "storage_ok ts'" and "sint (currentSize ts) \<le> sint (currentSize ts')"
    and "take (nat (sint (currentSize ts))) (ts_disk ts') = take (nat (sint (currentSize ts))) (ts_disk ts)"
    and "fst (AppendRecords recs outcome ts) = Ok ps \<Longrightarrow> ps = fst (layoutRecords (currentSize ts) recs) \<and>
      sint (currentSize ts') = sint (currentSize ts) + int (length (concat recs)) \<and>
      (\<forall>i m. i + m \<le> length (concat recs) \<longrightarrow>
         sub (ts_disk ts') (nat (sint (currentSize ts)) + i) m = sub (concat recs) i m)"
proof -
  have f: "sint (snd (layoutRecords (currentSize ts) recs)) = sint (currentSize ts) + int (length (concat recs))"
    using assms by (intro layoutRecords_final) (auto simp: storage_ok_def fits_def)
  obtain r disk where w: "file_WriteAt (ts_file ts) (ts_disk ts) (concat recs) (sint (currentSize ts)) outcome = (r, disk)"
    by (cases "file_WriteAt (ts_file ts) (ts_disk ts) (concat recs) (sint (currentSize ts)) outcome")
  note e = file_WriteAt_end [OF assms(1) w]
  have open_ts: "ts_file ts = OpenFile" using assms(1) by (simp add: storage_ok_def)
  have split: "AppendRecords recs outcome ts =
      (if concat recs = [] then
         (Ok (fst (layoutRecords (currentSize ts) recs)), ts\<lparr>currentSize := snd (layoutRecords (currentSize ts) recs)\<rparr>)
       else case r of Ok _ \<Rightarrow> (Ok (fst (layoutRecords (currentSize ts) recs)),
              ts\<lparr>ts_disk := disk, currentSize := snd (layoutRecords (currentSize ts) recs)\<rparr>)
         | Err e \<Rightarrow> (Err e, ts\<lparr>ts_disk := disk\<rparr>) | Panic p \<Rightarrow> (Panic p, ts\<lparr>ts_disk := disk\<rparr>)
         | NoFuel \<Rightarrow> (NoFuel, ts\<lparr>ts_disk := disk\<rparr>))"
    using open_ts w by (auto simp: AppendRecords_def Let_def split: prod.splits res.splits)
  have ok_disk: "int (length (ts_disk ts)) \<le> int (length disk)" using e(2) by simp
  have "storage_ok ts' \<and> sint (currentSize ts) \<le> sint (currentSize ts') \<and>
    take (nat (sint (currentSize ts))) (ts_disk ts') = take (nat (sint (currentSize ts))) (ts_disk ts) \<and>
    (fst (AppendRecords recs outcome ts) = Ok ps \<longrightarrow> ps = fst (layoutRecords (currentSize ts) recs) \<and>
      sint (currentSize ts') = sint (currentSize ts) + int (length (concat recs)) \<and>
      (\<forall>i m. i + m \<le> length (concat recs) \<longrightarrow>
         sub (ts_disk ts') (nat (sint (currentSize ts)) + i) m = sub (concat recs) i m))"
  proof (cases "concat recs = []")
    case True
    then have len: "length (concat recs) = 0" by (simp only: list.size)
    show ?thesis unfolding ts'_def split using True assms(1) f unfolding len
      by (auto simp: storage_ok_def sub_0)
  next
    case False
    show ?thesis
    proof (cases r)
      case (Ok n)
      note d = e(3) [OF Ok]
      have "int (nat (sint (currentSize ts)) + length (concat recs)) \<le> int (length disk)"
        using d [of 0 0] by linarith
      then show ?thesis
        unfolding ts'_def split using assms(1) Ok False f d e(1)
        by (simp add: storage_ok_def del: concat_eq_Nil_conv)
    qed (use assms(1) False f e(1) ok_disk in
        \<open>simp_all add: ts'_def split storage_ok_def del: concat_eq_Nil_conv\<close>)
  qed
  then show "storage_ok ts'" and "sint (currentSize ts) \<le> sint (currentSize ts')"
    and "take (nat (sint (currentSize ts))) (ts_disk ts') = take (nat (sint (currentSize ts))) (ts_disk ts)"
    and "fst (AppendRecords recs outcome ts) = Ok ps \<Longrightarrow> ps = fst (layoutRecords (currentSize ts) recs) \<and>
      sint (currentSize ts') = sint (currentSize ts) + int (length (concat recs)) \<and>
      (\<forall>i m. i + m \<le> length (concat recs) \<longrightarrow>
         sub (ts_disk ts') (nat (sint (currentSize ts)) + i) m = sub (concat recs) i m)"
    by blast+
qed

lemma layoutRecords_stored:
  assumes ok: "storage_ok ts'" and off: "0 \<le> sint off" "sint off + int (length (concat recs)) < 2 ^ 63"
    and size: "list_all (\<lambda>b. int (length b) \<le> maxRecordSize) recs"
    and cur: "sint (currentSize ts') = sint off + int (length (concat recs))"
    and dsk: "\<And>i m. i + m \<le> length (concat recs) \<Longrightarrow> sub (ts_disk ts') (nat (sint off) + i) m = sub (concat recs) i m"
  shows "list_all2 (stored ts') (fst (layoutRecords off recs)) recs"
proof -
  have "list_all2 (\<lambda>p b. b \<in> set recs \<and> sint off \<le> sint (Offset p) \<and> sint (Size p) = int (length b) \<and>
      sint (Offset p) + int (length b) \<le> sint off + int (length (concat recs)) \<and>
      sub (concat recs) (nat (sint (Offset p) - sint off)) (length b) = b) (fst (layoutRecords off recs)) recs"
    using layoutRecords_sub [OF off size] by (auto simp: list_all2_conv_all_nth)
  then show ?thesis
  proof (rule list_all2_mono)
    fix p :: RecordPointer and b
    assume pb: "b \<in> set recs \<and> sint off \<le> sint (Offset p) \<and> sint (Size p) = int (length b) \<and>
      sint (Offset p) + int (length b) \<le> sint off + int (length (concat recs)) \<and>
      sub (concat recs) (nat (sint (Offset p) - sint off)) (length b) = b"
    let ?i = "nat (sint (Offset p) - sint off)"
    have o: "nat (sint (Offset p)) = nat (sint off) + ?i" using pb off(1) by linarith
    have "?i + length b \<le> length (concat recs)" using pb by linarith
    then have "sub (ts_disk ts') (nat (sint (Offset p))) (length b) = b"
      using dsk pb unfolding o by simp
    moreover have "int (length b) \<le> maxRecordSize" using pb size by (auto simp: list_all_iff)
    ultimately show "stored ts' p b" using pb off(1) ok cur by (auto simp: stored_iff)
  qed
qed

interpretation table_store: append_store AppendRecords storage_ok stored fits
proof
  fix ts p b recs outcome
  assume a: "stored ts p b" "fits ts recs"
  then have ok: "storage_ok ts" by (simp add: stored_def)
  show "stored (snd (AppendRecords recs outcome ts)) p b"
    by (rule stored_mono [OF a(1)]) (rule AppendRecords_cases [OF ok a(2)])+
next
  fix ts recs outcome assume "storage_ok ts" "fits ts recs"
  then show "storage_ok (snd (AppendRecords recs outcome ts))" by (rule AppendRecords_cases)
next
  fix ts recs outcome ps ts'
  assume a: "storage_ok ts" "fits ts recs" "AppendRecords recs outcome ts = (Ok ps, ts')"
  note c = AppendRecords_cases [OF a(1,2), of outcome, unfolded a(3) fst_conv snd_conv]
  show "list_all2 (stored ts') ps recs"
    unfolding c(4) [OF refl, THEN conjunct1]
    by (rule layoutRecords_stored [OF c(1)]) (use a c(4) [OF refl] in \<open>auto simp: storage_ok_def fits_def\<close>)
qed

section \<open>Compaction\<close>

definition recordData :: "TableStorage \<Rightarrow> RecordPointer \<Rightarrow> bytes" where
  "recordData ts p = sub (ts_disk ts) (nat (sint (Offset p))) (nat (sint (Size p)))"

lemma stored_recordData: "stored ts p b \<Longrightarrow> b = recordData ts p"
  by (simp add: stored_iff recordData_def)

lemma stored_Size:
  assumes "stored ts p b"
  shows "Size p = of_nat (length b)" "sint (Size p) = int (length b)"
proof -
  show l: "sint (Size p) = int (length b)"
    using assms by (auto simp: stored_iff storage_ok_def sub_def nat_add_distrib)
  then have "word_of_int (sint (Size p)) = (word_of_int (int (length b)) :: 32 word)" by (rule arg_cong)
  then show "Size p = of_nat (length b)" by simp
qed

definition noFaults :: "compact_io \<Rightarrow> bool" where
  "noFaults io = (ci_open io = None \<and> (\<forall>i. ci_read io i = None) \<and> (\<forall>i. ci_write io i = WOk) \<and>
     ci_sync io = None \<and> ci_close io = None \<and> ci_rename io = None \<and> ci_reopen io = None)"

lemma compactLoop_layout:
  assumes "noFaults io" "\<forall>(k, p) \<in> set es. stored ts p (recordData ts p)"
    and "sint w = int (length c)" "int (length c) + int (length (concat (map (\<lambda>e. recordData ts (snd e)) es))) < 2 ^ 63"
  shows "compactLoop ts io i w c es =
    Ok (zip (map fst es) (fst (layoutRecords w (map (\<lambda>e. recordData ts (snd e)) es))),
        snd (layoutRecords w (map (\<lambda>e. recordData ts (snd e)) es)), c @ concat (map (\<lambda>e. recordData ts (snd e)) es))"
  using assms
proof (induction es arbitrary: i w c)
  case (Cons e es)
  obtain k p where e: "e = (k, p)" by (cases e)
  have st: "stored ts p (recordData ts p)" using Cons.prems(2) e by auto
  let ?d = "recordData ts p"
  note sz = stored_Size [OF st]
  have wn: "sint (w + of_nat (length ?d)) = int (length (c @ ?d))"
    using Cons.prems(3,4) e by (subst sint64_add_nat) auto
  have scast: "scast (Size p) = (of_nat (length ?d) :: 64 word)"
    unfolding scast_eq sz(2) by simp
  have rd: "file_ReadAt (ts_file ts) (ts_disk ts) (nat (sint (Size p))) (sint (Offset p)) None = Ok ?d"
    using st by (auto simp: file_ReadAt_def readAt_def recordData_def stored_iff storage_ok_def)
  have wr: "file_WriteAt OpenFile c ?d (sint w) WOk = (Ok (length ?d), c @ ?d)"
    using Cons.prems(3) by (simp add: file_WriteAt_def)
  have IH: "compactLoop ts io (Suc i) (w + of_nat (length ?d)) (c @ ?d) es =
     Ok (zip (map fst es) (fst (layoutRecords (w + of_nat (length ?d)) (map (\<lambda>e. recordData ts (snd e)) es))),
        snd (layoutRecords (w + of_nat (length ?d)) (map (\<lambda>e. recordData ts (snd e)) es)),
        (c @ ?d) @ concat (map (\<lambda>e. recordData ts (snd e)) es))"
    using Cons.prems wn e by (intro Cons.IH) auto
  show ?case
    using Cons.prems(1) IH sz scast rd wr e by (simp add: noFaults_def split_beta Let_def)
qed simp

text \<open>A compaction without I/O faults keeps the bytes of every live record under its key and
  leaves nothing else in the file.\<close>

lemma Compact_keeps:
  assumes "noFaults io" "storage_ok ts" "\<forall>(k, p) \<in> set active. stored ts p (recordData ts p)"
    and room: "int (length (concat (map (\<lambda>e. recordData ts (snd e)) active))) < 2 ^ 63"
  shows "\<exists>new ts'. Compact io active ts = (Ok (), new, ts') \<and> storage_ok ts' \<and> map fst new = map fst active \<and>
     list_all2 (\<lambda>q p. stored ts' q (recordData ts p)) (map snd new) (map snd active) \<and>
     ts_disk ts' = concat (map (\<lambda>e. recordData ts (snd e)) active)"
proof -
  let ?ds = "map (\<lambda>e. recordData ts (snd e)) active"
  let ?new = "zip (map fst active) (fst (layoutRecords 0 ?ds))"
  let ?ts = "ts\<lparr>ts_file := OpenFile, ts_disk := concat ?ds, currentSize := snd (layoutRecords 0 ?ds)\<rparr>"
  have loop: "compactLoop ts io 0 0 [] active = Ok (?new, snd (layoutRecords 0 ?ds), concat ?ds)"
    using compactLoop_layout [OF assms(1,3), of 0 "[]" 0] room by simp
  have c: "Compact io active ts = (Ok (), ?new, ?ts)"
    using assms(1,2) loop by (simp add: Compact_def noFaults_def storage_ok_def)
  have fin: "sint (currentSize ?ts) = int (length (concat ?ds))"
    using layoutRecords_final [of 0 ?ds] room by simp
  then have ok: "storage_ok ?ts" by (simp add: storage_ok_def)
  have "list_all (\<lambda>b. int (length b) \<le> maxRecordSize) ?ds"
    unfolding list_all_iff
  proof safe
    fix b assume "b \<in> set ?ds"
    then obtain k p where p: "(k, p) \<in> set active" "b = recordData ts p" by auto
    then have "stored ts p b" using bspec [OF assms(3) p(1)] by simp
    then show "int (length b) \<le> maxRecordSize" using stored_Size(2) [of ts p b] unfolding stored_iff by linarith
  qed
  then have all: "list_all2 (stored ?ts) (fst (layoutRecords 0 ?ds)) ?ds"
    using room fin by (intro layoutRecords_stored [OF ok]) auto
  then have len: "length (fst (layoutRecords 0 ?ds)) = length active"
    by (auto dest: list_all2_lengthD)
  have "list_all2 (\<lambda>q p. stored ?ts q (recordData ts p)) (map snd ?new) (map snd active)"
    using all len by (simp add: list_all2_conv_all_nth)
  then show ?thesis using c ok len by (intro exI [of _ ?new] exI [of _ ?ts]) simp
qed

text \<open>A compaction that fails leaves the pointers alone, and, if it failed before the swap of the
  files (the table file is still open), the whole storage.\<close>

lemma Compact_failed:
  assumes "Compact io active ts = (r, new, ts')" "r \<noteq> Ok ()"
  shows "new = active" "ts_file ts' = OpenFile \<Longrightarrow> ts' = ts"
  using assms by (auto simp: Compact_def split: if_splits option.splits res.splits)


section \<open>Properties of the table file\<close>

text \<open>A run of batches, each with the outcome the operating system gives it, and that the file
  stays addressable throughout.\<close>

fun appendBatches :: "(bytes list \<times> write_outcome) list \<Rightarrow> TableStorage \<Rightarrow> TableStorage" where
  "appendBatches [] ts = ts"
| "appendBatches ((recs, outcome) # rest) ts = appendBatches rest (snd (AppendRecords recs outcome ts))"

fun batchesFit :: "(bytes list \<times> write_outcome) list \<Rightarrow> TableStorage \<Rightarrow> bool" where
  "batchesFit [] ts = True"
| "batchesFit ((recs, outcome) # rest) ts = (fits ts recs \<and> batchesFit rest (snd (AppendRecords recs outcome ts)))"

lemma appendBatches_run: "appendBatches = table_store.run"
proof (intro ext)
  show "appendBatches as ts = table_store.run as ts" for as ts
    by (induction as ts rule: appendBatches.induct) simp_all
qed

lemma batchesFit_has_room: "batchesFit = table_store.has_room"
proof (intro ext)
  show "batchesFit as ts = table_store.has_room as ts" for as ts
    by (induction as ts rule: batchesFit.induct) simp_all
qed

lemma AppendRecords_WOk:
  assumes "storage_ok ts"
  shows "\<exists>ps ts'. AppendRecords recs WOk ts = (Ok ps, ts')"
  using assms by (auto simp: AppendRecords_def storage_ok_def file_WriteAt_def Let_def split: prod.splits)

lemma stored_ReadRecord: "stored ts p b \<Longrightarrow> ReadRecord p None ts = Ok b"
  by (simp add: stored_def)

definition exampleStorage :: TableStorage where
  "exampleStorage = \<lparr>ts_file = OpenFile, ts_path = ''data/users.db'', currentSize = 3, ts_disk = [1, 2, 3, 9]\<rparr>"

text \<open>C22: a batch of records that was appended is read back record by record through the returned
  pointers, after any number of later batches, whether those succeed or fail half-way.\<close>

theorem append_durable:
  assumes "storage_ok ts" "fits ts recs"
  shows "\<exists>ps ts'. AppendRecords recs WOk ts = (Ok ps, ts') \<and> storage_ok ts' \<and>
    (\<forall>later. batchesFit later ts' \<longrightarrow>
       list_all2 (\<lambda>p b. ReadRecord p None (appendBatches later ts') = Ok b) ps recs)"
proof -
  obtain ps ts' where a: "AppendRecords recs WOk ts = (Ok ps, ts')" using AppendRecords_WOk assms by blast
  have "list_all2 (\<lambda>p b. ReadRecord p None (appendBatches later ts') = Ok b) ps recs" if "batchesFit later ts'" for later
    using table_store.run_after_append [OF assms a] that
    unfolding appendBatches_run batchesFit_has_room by (blast intro: list_all2_mono stored_ReadRecord)
  moreover have "storage_ok ts'" using AppendRecords_cases(1) [OF assms, of WOk] a by simp
  ultimately show ?thesis using a by blast
qed

theorem append_durable_witness:
  "\<exists>ps ts'. AppendRecords [[7], [8, 9]] WOk exampleStorage = (Ok ps, ts') \<and> storage_ok ts' \<and>
     list_all2 (\<lambda>p b. ReadRecord p None (appendBatches [([[5, 5]], WFail 1 (OsError ''disk full''))] ts') = Ok b)
       ps [[7], [8, 9]]"
proof -
  have ok: "storage_ok exampleStorage" by code_simp
  have fit: "fits exampleStorage [[7], [8, 9]]" by code_simp
  obtain ps ts' where a: "AppendRecords [[7], [8, 9]] WOk exampleStorage = (Ok ps, ts')" "storage_ok ts'"
    and l: "\<forall>later. batchesFit later ts' \<longrightarrow>
       list_all2 (\<lambda>p b. ReadRecord p None (appendBatches later ts') = Ok b) ps [[7], [8, 9]]"
    using append_durable [OF ok fit] by blast
  have "batchesFit [([[5, 5]], WFail 1 (OsError ''disk full''))] (snd (AppendRecords [[7], [8, 9]] WOk exampleStorage))"
    by code_simp
  then show ?thesis using a l unfolding a(1) snd_conv by blast
qed

text \<open>Whatever an append does, success or an error after any prefix of its bytes, every record
  stored before is still there, and the storage stays usable.\<close>

theorem append_keeps_records:
  assumes "stored ts p b" "fits ts recs"
  shows "stored (snd (AppendRecords recs outcome ts)) p b \<and> storage_ok (snd (AppendRecords recs outcome ts))"
  using table_store.append_keeps [OF assms] by (simp add: stored_def)

theorem append_keeps_records_witness:
  "stored (snd (AppendRecords [[7, 7]] (WFail 1 IoErrShortWrite) exampleStorage)) \<lparr>Offset = 1, Size = 2\<rparr> [2, 3]"
proof -
  have "stored exampleStorage \<lparr>Offset = 1, Size = 2\<rparr> [2, 3]" "fits exampleStorage [[7, 7]]" by code_simp+
  then show ?thesis using append_keeps_records by blast
qed

text \<open>C26: compacting a table file without I/O faults gives every live key a pointer to the bytes it
  had, in whatever order the map of live records is ranged over, and nothing else is kept.\<close>

theorem compact_keeps_live_records:
  assumes "noFaults io" "storage_ok ts" "\<forall>(k, p) \<in> set active. stored ts p (recordData ts p)"
    and "int (length (concat (map (\<lambda>e. recordData ts (snd e)) active))) < 2 ^ 63"
  shows "\<exists>new ts'. Compact io active ts = (Ok (), new, ts') \<and> storage_ok ts' \<and> map fst new = map fst active \<and>
     list_all2 (\<lambda>q p. stored ts' q (recordData ts p)) (map snd new) (map snd active) \<and>
     ts_disk ts' = concat (map (\<lambda>e. recordData ts (snd e)) active)"
  using Compact_keeps [OF assms] .

theorem compact_keeps_live_records_witness:
  "\<exists>new ts'. Compact \<lparr>ci_open = None, ci_read = (\<lambda>i. None), ci_write = (\<lambda>i. WOk), ci_sync = None,
        ci_close = None, ci_rename = None, ci_reopen = None\<rparr>
      [(''b'', \<lparr>Offset = 1, Size = 2\<rparr>), (''a'', \<lparr>Offset = 0, Size = 1\<rparr>)] exampleStorage = (Ok (), new, ts') \<and>
     map fst new = [''b'', ''a''] \<and> ts_disk ts' = [2, 3, 1]"
proof -
  let ?io = "\<lparr>ci_open = None, ci_read = (\<lambda>i. None), ci_write = (\<lambda>i. WOk), ci_sync = None,
        ci_close = None, ci_rename = None, ci_reopen = None\<rparr>"
  let ?act = "[(''b'', \<lparr>Offset = 1, Size = 2\<rparr>), (''a'', \<lparr>Offset = 0, Size = 1\<rparr>)]"
  have "noFaults ?io" by (simp add: noFaults_def)
  moreover have "storage_ok exampleStorage" by code_simp
  moreover have "\<forall>(k, p) \<in> set ?act. stored exampleStorage p (recordData exampleStorage p)" by code_simp
  moreover have "int (length (concat (map (\<lambda>e. recordData exampleStorage (snd e)) ?act))) < 2 ^ 63" by code_simp
  ultimately obtain new ts' where "Compact ?io ?act exampleStorage = (Ok (), new, ts')" "map fst new = map fst ?act"
    "ts_disk ts' = concat (map (\<lambda>e. recordData exampleStorage (snd e)) ?act)"
    using compact_keeps_live_records by blast
  moreover have "concat (map (\<lambda>e. recordData exampleStorage (snd e)) ?act) = [2, 3, 1]" by code_simp
  ultimately show ?thesis by (intro exI conjI) auto
qed

text \<open>A compaction that fails never changes the live pointers, and if it fails before the files
  are swapped, so that the table file is still open, it leaves the storage as it was.\<close>

theorem compact_failure_is_harmless:
  assumes "Compact io active ts = (r, new, ts')" "r \<noteq> Ok ()"
  shows "new = active \<and> (ts_file ts' = OpenFile \<longrightarrow> ts' = ts)"
  using Compact_failed [OF assms] by blast

theorem compact_failure_is_harmless_witness:
  "Compact \<lparr>ci_open = None, ci_read = (\<lambda>i. None), ci_write = (\<lambda>i. WFail 0 IoErrShortWrite), ci_sync = None,
        ci_close = None, ci_rename = None, ci_reopen = None\<rparr>
      [(''b'', \<lparr>Offset = 1, Size = 2\<rparr>)] exampleStorage
    = (Err (WrapError ''compact failed to write record'' IoErrShortWrite), [(''b'', \<lparr>Offset = 1, Size = 2\<rparr>)], exampleStorage)"
    (is "?c = ?r")
proof -
  obtain r new ts' where c: "?c = (r, new, ts')" by (cases ?c) auto
  have f: "fst ?c = Err (WrapError ''compact failed to write record'' IoErrShortWrite)"
    "ts_file (snd (snd ?c)) = OpenFile" by code_simp+
  then show ?thesis using compact_failure_is_harmless [OF c] unfolding c by simp
qed

text \<open>Opening a table file again finds every record that was stored in it.\<close>

theorem reopen_finds_records:
  assumes "stored ts p b" "isValidTableName name" "int (length (ts_disk ts)) < 2 ^ 63"
  shows "\<exists>ts'. NewTableStorage dir name (Some (ts_disk ts)) \<lparr>oi_mkdir = None, oi_open = None, oi_stat = None\<rparr> = Ok ts' \<and>
     stored ts' p b"
proof -
  have "sint (of_nat (length (ts_disk ts)) :: 64 word) = int (length (ts_disk ts))"
    using sint64_add_nat [of 0 "length (ts_disk ts)"] assms(3) by simp
  then show ?thesis
    using assms by (auto simp: NewTableStorage_def Let_def stored_iff storage_ok_def)
qed

theorem reopen_finds_records_witness:
  "\<exists>ts'. NewTableStorage ''data'' ''users'' (Some [1, 2, 3, 9]) \<lparr>oi_mkdir = None, oi_open = None, oi_stat = None\<rparr> = Ok ts' \<and>
     stored ts' \<lparr>Offset = 1, Size = 2\<rparr> [2, 3]"
proof -
  have d: "ts_disk exampleStorage = [1, 2, 3, 9]" by (simp add: exampleStorage_def)
  have "stored exampleStorage \<lparr>Offset = 1, Size = 2\<rparr> [2, 3]" "isValidTableName ''users''" by code_simp+
  then show ?thesis using reopen_finds_records [of exampleStorage _ _ "''users''"] unfolding d by simp
qed

end
