(* ===== verification/Wal.thy ===== *)
theory Wal
  imports Storage
begin

text \<open>
  \<^verbatim>\<open>src/wal.go\<close>: the write-ahead log, its record format, reading the log back, and the
  processing of a batch of write tasks.

  The state is the log file (its handle, contents and file offset), the durability mode and
  the open table files, which the resolver given to \<^verbatim>\<open>NewWalManager\<close> hands out; the resolver
  is a parameter. Operating-system outcomes are arguments, as in the table storage. Writing
  to a \<^verbatim>\<open>bytes.Buffer\<close> does not fail, so the encoder returns bytes. A map is the list of its
  entries in iteration order.
\<close>

section \<open>Records\<close>

datatype WalOperation =
    OpBeginTransaction
  | OpInsert
  | OpUpsert
  | OpUpdate
  | OpDelete
  | OpClearTable
  | OpCreateTable
  | OpDropTable
  | OpCreateIndex
  | OpDropIndex
  | OpCommitTransaction
  | OpRollbackTransaction

definition opByte :: "WalOperation \<Rightarrow> byte" where
  "opByte op = (case op of
      OpBeginTransaction \<Rightarrow> 0 | OpInsert \<Rightarrow> 1 | OpUpsert \<Rightarrow> 2 | OpUpdate \<Rightarrow> 3 | OpDelete \<Rightarrow> 4
    | OpClearTable \<Rightarrow> 5 | OpCreateTable \<Rightarrow> 6 | OpDropTable \<Rightarrow> 7 | OpCreateIndex \<Rightarrow> 8
    | OpDropIndex \<Rightarrow> 9 | OpCommitTransaction \<Rightarrow> 10 | OpRollbackTransaction \<Rightarrow> 11)"

text \<open>The conversion \<^verbatim>\<open>WalOperation(typeByteValue)\<close>, used after the test \<^verbatim>\<open>typeByteValue > 11\<close>.\<close>

definition opOfByte :: "byte \<Rightarrow> WalOperation" where
  "opOfByte b =
     (if b = 0 then OpBeginTransaction else if b = 1 then OpInsert else if b = 2 then OpUpsert
      else if b = 3 then OpUpdate else if b = 4 then OpDelete else if b = 5 then OpClearTable
      else if b = 6 then OpCreateTable else if b = 7 then OpDropTable else if b = 8 then OpCreateIndex
      else if b = 9 then OpDropIndex else if b = 10 then OpCommitTransaction else OpRollbackTransaction)"

record WalRecord =
  wr_Type :: WalOperation
  wr_TransactionID :: "64 word"
  wr_Generation :: "64 word"
  wr_Payload :: bytes

definition WalMagic :: "32 word" where
  "WalMagic = 0x524d574c"

definition walChecksum :: "byte \<Rightarrow> 64 word \<Rightarrow> 64 word \<Rightarrow> bytes \<Rightarrow> 32 word" where
  "walChecksum typeByte transactionID generation payload =
     crc32c ([typeByte] @ (PutUint64 transactionID @ PutUint64 generation) @ payload)"

definition writeRecordToBuffer :: "WalRecord \<Rightarrow> bytes" where
  "writeRecordToBuffer record =
     (let typeByte = opByte (wr_Type record);
          checksum = walChecksum typeByte (wr_TransactionID record) (wr_Generation record) (wr_Payload record)
      in PutUint32 WalMagic @ [typeByte] @ PutUint64 (wr_TransactionID record)
         @ PutUint64 (wr_Generation record) @ PutUint32 (of_nat (length (wr_Payload record)))
         @ PutUint32 checksum @ wr_Payload record)"

section \<open>The log file\<close>

datatype DurabilityMode = DurabilitySync | DurabilityBatched | DurabilityAsync

record WalManager =
  wal_file :: osFile
  wal_disk :: bytes
  wal_pos :: nat
  durability :: DurabilityMode

text \<open>\<^verbatim>\<open>os.File.Write\<close> at the file offset; a nil file gives \<^verbatim>\<open>os.ErrInvalid\<close>.\<close>

definition walFile_Write :: "bytes \<Rightarrow> write_outcome \<Rightarrow> WalManager \<Rightarrow> unit res \<times> WalManager" where
  "walFile_Write buffer outcome wm =
     (case wal_file wm of
        NilFile \<Rightarrow> (Err OsErrInvalid, wm)
      | ClosedFile \<Rightarrow> (Err (OsError ''file already closed''), wm)
      | OpenFile \<Rightarrow>
          (case outcome of
             WOk \<Rightarrow> (Ok (), wm\<lparr>wal_disk := writeAt (wal_disk wm) (wal_pos wm) buffer,
                               wal_pos := wal_pos wm + length buffer\<rparr>)
           | WFail k e \<Rightarrow> (Err e, wm\<lparr>wal_disk := writeAt (wal_disk wm) (wal_pos wm) (take k buffer),
                               wal_pos := wal_pos wm + length (take k buffer)\<rparr>)))"

definition walFile_Sync :: "error option \<Rightarrow> WalManager \<Rightarrow> unit res" where
  "walFile_Sync outcome wm =
     (case wal_file wm of
        NilFile \<Rightarrow> Err OsErrInvalid
      | ClosedFile \<Rightarrow> Err (OsError ''file already closed'')
      | OpenFile \<Rightarrow> (case outcome of Some e \<Rightarrow> Err e | None \<Rightarrow> Ok ()))"

record walopen_io =
  wo_mkdir :: "error option"
  wo_open :: "error option"
  wo_seek :: "error option"

definition NewWalManager :: "DurabilityMode \<Rightarrow> bytes option \<Rightarrow> walopen_io \<Rightarrow> WalManager res" where
  "NewWalManager mode existing io =
     (case wo_mkdir io of
        Some e \<Rightarrow> Err (WrapError ''failed to create directory'' e)
      | None \<Rightarrow>
          (case wo_open io of
             Some e \<Rightarrow> Err (WrapError ''failed to open WAL file'' e)
           | None \<Rightarrow>
               let disk = (case existing of None \<Rightarrow> [] | Some b \<Rightarrow> b) in
               (case wo_seek io of
                  Some e \<Rightarrow> Err (WrapError ''failed to seek WAL'' e)
                | None \<Rightarrow> Ok \<lparr>wal_file = OpenFile, wal_disk = disk, wal_pos = length disk, durability = mode\<rparr>)))"

definition Truncate :: "reset_io \<Rightarrow> WalManager \<Rightarrow> unit res \<times> WalManager" where
  "Truncate io wm =
     (if wal_file wm = NilFile then (Err DatabaseClosedError, wm)
      else if wal_file wm = ClosedFile then (Err (OsError ''file already closed''), wm)
      else case ri_truncate io of
        Some e \<Rightarrow> (Err e, wm)
      | None \<Rightarrow>
          (case ri_seek io of
             Some e \<Rightarrow> (Err e, wm\<lparr>wal_disk := []\<rparr>)
           | None \<Rightarrow> (walFile_Sync (ri_sync io) wm, wm\<lparr>wal_disk := [], wal_pos := 0\<rparr>)))"

definition AppendRollbackMarker ::
  "64 word \<Rightarrow> 64 word \<Rightarrow> string \<Rightarrow> write_outcome \<Rightarrow> error option \<Rightarrow> WalManager \<Rightarrow> unit res \<times> WalManager"
where
  "AppendRollbackMarker transactionID generation reason writeOutcome syncOutcome wm =
     (if wal_file wm = NilFile then (Err DatabaseClosedError, wm)
      else
        let record = \<lparr>wr_Type = OpRollbackTransaction, wr_TransactionID = transactionID,
                      wr_Generation = generation, wr_Payload = string_bytes reason\<rparr>
        in case walFile_Write (writeRecordToBuffer record) writeOutcome wm of
             (Ok _, wm') \<Rightarrow>
               (if durability wm' = DurabilitySync then walFile_Sync syncOutcome wm' else Ok (), wm')
           | (r, wm') \<Rightarrow> (r, wm'))"

definition WalManager_closeFile :: "error option \<Rightarrow> WalManager \<Rightarrow> unit res \<times> WalManager" where
  "WalManager_closeFile outcome wm =
     (if wal_file wm \<noteq> NilFile then
        (case (if wal_file wm = ClosedFile then Some (OsError ''file already closed'') else outcome) of
           Some e \<Rightarrow> Err e | None \<Rightarrow> Ok (), wm\<lparr>wal_file := NilFile\<rparr>)
      else (Ok (), wm))"

section \<open>Reading the log\<close>

text \<open>One turn of the loop of \<open>ReadAllRecords\<close> on the unread bytes: stop (a \<^verbatim>\<open>break\<close>) or fail,
  with the file offset it leaves, or a record and the bytes after it. A read that fails for
  want of bytes leaves the offset at the end of the file.\<close>

datatype walStep = Stop nat | Fail error nat | Next WalRecord bytes

definition maxPayload :: int where
  "maxPayload = 1024 * 1024 * 64"

definition readPayload :: "nat \<Rightarrow> byte \<Rightarrow> 64 word \<Rightarrow> 64 word \<Rightarrow> 32 word \<Rightarrow> 32 word \<Rightarrow> bytes \<Rightarrow> walStep" where
  "readPayload fileSize typeByteValue transactionID generation payloadLength checksumValue r =
     (if sint payloadLength < 0 \<or> sint payloadLength > maxPayload then
        Fail (WalInvalidPayloadLength (sint payloadLength)) (fileSize - length r)
      else if sint payloadLength > int (length r) then Stop (fileSize - length r)
      else
        let payload = take (nat (sint payloadLength)) r;
            rest = drop (nat (sint payloadLength)) r
        in if walChecksum typeByteValue transactionID generation payload \<noteq> checksumValue then
             Fail WalChecksumMismatch (fileSize - length rest)
           else Next \<lparr>wr_Type = opOfByte typeByteValue, wr_TransactionID = transactionID,
                      wr_Generation = generation, wr_Payload = payload\<rparr> rest)"

definition readRecord :: "nat \<Rightarrow> bytes \<Rightarrow> walStep" where
  "readRecord fileSize r =
     (case readInt32 r of
        Err e \<Rightarrow> if e = IoEOF then Stop fileSize else Fail e fileSize
      | Ok (magic, r1) \<Rightarrow>
          if magic \<noteq> WalMagic then
            (if length r1 \<le> 4 then Stop fileSize else Fail WalMagicMismatch fileSize)
          else
            (case readByte r1 of
               Ok (typeByteValue, r2) \<Rightarrow>
                 if typeByteValue > 11 then Fail (WalUnknownOperation typeByteValue) (fileSize - length r2)
                 else
                   (case readInt64 r2 of
                      Ok (transactionID, r3) \<Rightarrow>
                        (case readInt64 r3 of
                           Ok (generation, r4) \<Rightarrow>
                             (case readInt32 r4 of
                                Ok (payloadLength, r5) \<Rightarrow>
                                  (case readInt32 r5 of
                                     Ok (checksumValue, r6) \<Rightarrow>
                                       readPayload fileSize typeByteValue transactionID generation
                                         payloadLength checksumValue r6
                                   | _ \<Rightarrow> Stop fileSize)
                              | _ \<Rightarrow> Stop fileSize)
                         | _ \<Rightarrow> Stop fileSize)
                    | _ \<Rightarrow> Stop fileSize)
             | _ \<Rightarrow> Stop fileSize)
      | _ \<Rightarrow> Stop fileSize)"

lemma readRecord_shorter: "readRecord fileSize r = Next rec r' \<Longrightarrow> length r' < length r"
  by (auto simp: readRecord_def readPayload_def Let_def dest!: read_shorter
      split: res.splits if_splits prod.splits)

function readRecords :: "nat \<Rightarrow> bytes \<Rightarrow> WalRecord list \<Rightarrow> WalRecord list res \<times> nat" where
  "readRecords fileSize r records =
     (case readRecord fileSize r of
        Stop pos \<Rightarrow> (Ok records, pos)
      | Fail e pos \<Rightarrow> (Err e, pos)
      | Next record r' \<Rightarrow> readRecords fileSize r' (records @ [record]))"
  by pat_completeness auto
termination
  by (relation "measure (\<lambda>(fileSize, r, records). length r)") (auto dest: readRecord_shorter)

declare readRecords.simps [simp del]

definition ReadAllRecords :: "error option \<Rightarrow> WalManager \<Rightarrow> WalRecord list res \<times> WalManager" where
  "ReadAllRecords seekOutcome wm =
     (case wal_file wm of
        NilFile \<Rightarrow> (Err OsErrInvalid, wm)
      | ClosedFile \<Rightarrow> (Err (OsError ''file already closed''), wm)
      | OpenFile \<Rightarrow>
          (case seekOutcome of
             Some e \<Rightarrow> (Err e, wm)
           | None \<Rightarrow>
               (case readRecords (length (wal_disk wm)) (wal_disk wm) [] of
                  (r, pos) \<Rightarrow> (r, wm\<lparr>wal_pos := pos\<rparr>))))"

section \<open>Write tasks\<close>

type_synonym stores = "string \<rightharpoonup> TableStorage"

type_synonym resolver = "string \<Rightarrow> stores \<Rightarrow> error + TableStorage \<times> stores"

text \<open>The resolver the database installs, \<^verbatim>\<open>getTableStorage\<close> of \<^verbatim>\<open>src/db.go\<close>: the storage that is
  already open, else a new one on the table's file. Two goroutines that open the same table
  at once end up with the storage of the first, so one atomic step is enough.\<close>

definition getTableStorage :: "bool \<Rightarrow> string \<Rightarrow> (string \<Rightarrow> bytes option) \<Rightarrow> (string \<Rightarrow> open_io) \<Rightarrow> resolver" where
  "getTableStorage closed directory files io tableName tableStorageMap =
     (if closed then Inl DatabaseClosedError
      else case tableStorageMap tableName of
        Some ts \<Rightarrow> Inr (ts, tableStorageMap)
      | None \<Rightarrow>
          (case NewTableStorage directory tableName (files tableName) (io tableName) of
             Ok ts \<Rightarrow> Inr (ts, tableStorageMap(tableName \<mapsto> ts))
           | Err e \<Rightarrow> Inl e
           | _ \<Rightarrow> Inl OsErrInvalid))"

record WriteTask =
  TxID :: "64 word"
  wt_Generation :: "64 word"
  WalRecords :: "WalRecord list"
  TableAppends :: "(string \<times> bytes list) list"

type_synonym WriteResult = "(string \<times> RecordPointer list) list res"

text \<open>What the operating system answers during one call of \<open>processTasks\<close>, and the order in which
  the map of modified tables is ranged over.\<close>

record task_io =
  ti_write :: write_outcome
  ti_sync :: "error option"
  ti_append :: "nat \<Rightarrow> string \<Rightarrow> write_outcome"
  ti_tableSync :: "string \<Rightarrow> error option"
  ti_order :: "string list \<Rightarrow> string list"
  ti_write2 :: write_outcome
  ti_sync2 :: "error option"

definition marker :: "WalOperation \<Rightarrow> WriteTask \<Rightarrow> WalRecord" where
  "marker op task = \<lparr>wr_Type = op, wr_TransactionID = TxID task, wr_Generation = wt_Generation task, wr_Payload = []\<rparr>"

definition taskMutations :: "WriteTask \<Rightarrow> WalRecord list" where
  "taskMutations writeTask = marker OpBeginTransaction writeTask # WalRecords writeTask"

definition mutationBuffer :: "WriteTask list \<Rightarrow> bytes" where
  "mutationBuffer tasks = concat (map (\<lambda>t. concat (map writeRecordToBuffer (taskMutations t))) tasks)"

text \<open>Writing a buffer to the log and syncing it, unless the mode is asynchronous.\<close>

definition writeAndSync :: "bytes \<Rightarrow> write_outcome \<Rightarrow> error option \<Rightarrow> WalManager \<Rightarrow> error option \<times> WalManager" where
  "writeAndSync buffer writeOutcome syncOutcome wm =
     (case walFile_Write buffer writeOutcome wm of
        (Ok _, wm') \<Rightarrow>
          (if durability wm' \<noteq> DurabilityAsync
           then (case walFile_Sync syncOutcome wm' of Err e \<Rightarrow> Some e | _ \<Rightarrow> None) else None, wm')
      | (Err e, wm') \<Rightarrow> (Some e, wm')
      | (_, wm') \<Rightarrow> (None, wm'))"

text \<open>The inner loop of step 3: the appends of one task, table by table, stopping at the first
  error. The resolver returns the error, or the table's storage and the open storages with it
  among them.\<close>

fun appendTables ::
  "resolver \<Rightarrow> (string \<Rightarrow> write_outcome) \<Rightarrow> (string \<times> bytes list) list \<Rightarrow>
   (string \<times> RecordPointer list) list \<Rightarrow> string list \<Rightarrow> stores \<Rightarrow> WriteResult \<times> string list \<times> stores"
where
  "appendTables tableStorage outcome [] pointersMap modified st = (Ok pointersMap, modified, st)"
| "appendTables tableStorage outcome ((tableName, appends) # rest) pointersMap modified st =
     (case tableStorage tableName st of
        Inl e \<Rightarrow> (Err e, modified, st)
      | Inr (ts, st') \<Rightarrow>
          (case AppendRecords appends (outcome tableName) ts of
             (Ok recordPointers, ts') \<Rightarrow>
               appendTables tableStorage outcome rest (pointersMap @ [(tableName, recordPointers)])
                 (List.insert tableName modified) (st'(tableName \<mapsto> ts'))
           | (failure, ts') \<Rightarrow>
               (bindR failure (\<lambda>_. Ok []), List.insert tableName modified, st'(tableName \<mapsto> ts'))))"

fun appendTasks ::
  "resolver \<Rightarrow> (nat \<Rightarrow> string \<Rightarrow> write_outcome) \<Rightarrow> nat \<Rightarrow> WriteTask list \<Rightarrow>
   string list \<Rightarrow> stores \<Rightarrow> WriteResult list \<times> string list \<times> stores"
where
  "appendTasks tableStorage outcome index [] modified st = ([], modified, st)"
| "appendTasks tableStorage outcome index (writeTask # rest) modified st =
     (case appendTables tableStorage (outcome index) (TableAppends writeTask) [] modified st of
        (r, modified', st') \<Rightarrow>
          (case appendTasks tableStorage outcome (Suc index) rest modified' st' of
             (rs, modified'', st'') \<Rightarrow> (r # rs, modified'', st'')))"

text \<open>Step 4: the last sync error of a modified table file.\<close>

definition syncTables :: "(string \<Rightarrow> error option) \<Rightarrow> string list \<Rightarrow> stores \<Rightarrow> error option" where
  "syncTables tableSync modified st =
     foldl (\<lambda>lastError tableName.
         case st tableName of
           None \<Rightarrow> lastError
         | Some ts \<Rightarrow>
             (case ts_file ts of
                NilFile \<Rightarrow> lastError
              | ClosedFile \<Rightarrow> Some (OsError ''file already closed'')
              | OpenFile \<Rightarrow> (case tableSync tableName of Some e \<Rightarrow> Some e | None \<Rightarrow> lastError)))
       None modified"

definition taskMarker :: "error option \<Rightarrow> WriteTask \<times> WriteResult \<Rightarrow> WalRecord" where
  "taskMarker lastError p =
     (case p of (writeTask, result) \<Rightarrow>
       case (lastError, result) of
         (None, Ok _) \<Rightarrow> marker OpCommitTransaction writeTask
       | _ \<Rightarrow> marker OpRollbackTransaction writeTask)"

definition processTasks ::
  "resolver \<Rightarrow> task_io \<Rightarrow> WriteTask list \<Rightarrow> WalManager \<times> stores \<Rightarrow>
   WriteResult list \<times> WalManager \<times> stores"
where
  "processTasks tableStorage io tasks s =
     (case s of (wm, st) \<Rightarrow>
       if tasks = [] then ([], wm, st)
       else
         let (lastError1, wm1) = writeAndSync (mutationBuffer tasks) (ti_write io) (ti_sync io) wm;
             (taskResults, modified, st1) =
               (case lastError1 of
                  Some e \<Rightarrow> (map (\<lambda>_. Err e) tasks, [], st)
                | None \<Rightarrow> appendTasks tableStorage (ti_append io) 0 tasks [] st);
             lastError2 =
               (if lastError1 = None \<and> durability wm \<noteq> DurabilityAsync
                then syncTables (ti_tableSync io) (ti_order io modified) st1 else lastError1);
             commitBuffer = concat (map (writeRecordToBuffer \<circ> taskMarker lastError2) (zip tasks taskResults));
             (writeError, wm2) = writeAndSync commitBuffer (ti_write2 io) (ti_sync2 io) wm1;
             lastError3 = (case writeError of Some e \<Rightarrow> Some e | None \<Rightarrow> lastError2)
         in (map (\<lambda>r. case lastError3 of Some e \<Rightarrow> Err e | None \<Rightarrow> r) taskResults, wm2, st1))"

end
