(* ===== verification/WalQueue.thy ===== *)
theory WalQueue
  imports Wal
begin

text \<open>
  The queue between the clients of the write-ahead log and its background writer (\<^verbatim>\<open>Submit\<close>,
  \<^verbatim>\<open>Close\<close> and \<^verbatim>\<open>backgroundWriterLoop\<close> of \<^verbatim>\<open>src/wal.go\<close>) as an interleaving of steps.

  A client is a goroutine that submits one task, named by a number, and waits for its result. The
  program counter of each goroutine says which channel operation comes next; one step is one channel
  operation, or one call of \<^verbatim>\<open>processTasks\<close>, whose effect on the files is the function \<open>processTasks\<close> of
  the theory \<open>Wal\<close>. The batches handed to it are recorded, and so is the order of the tasks in the channel.
\<close>

section \<open>State and steps\<close>

datatype client =
    Ready \<comment> \<open>before the first \<^verbatim>\<open>select\<close> of \<^verbatim>\<open>Submit\<close>\<close>
  | Checked \<comment> \<open>the log was not closed, before the second \<^verbatim>\<open>select\<close>\<close>
  | Waiting \<comment> \<open>the task is in the channel, waiting for \<^verbatim>\<open>Done\<close>\<close>
  | Answered bool \<comment> \<open>the result has been received; false for \<^verbatim>\<open>DatabaseClosedError\<close>\<close>

datatype writer =
    Idle \<comment> \<open>at the outer \<^verbatim>\<open>select\<close>\<close>
  | Gather "nat list" \<comment> \<open>in the gather loop of the batched mode\<close>
  | Process "nat list" \<comment> \<open>before \<^verbatim>\<open>processTasks(tasks)\<close>\<close>
  | Drain \<comment> \<open>in the loop after the close\<close>
  | DrainProcess nat
  | Exited

record wal_queue =
  closeChan :: bool
  writeQueue :: "nat list"
  clients :: "nat \<Rightarrow> client"
  writer :: writer
  sent :: "nat list"
  batches :: "nat list list"

definition queueCapacity :: nat where
  "queueCapacity = 1000"

definition batchLimit :: nat where
  "batchLimit = 100"

definition initialQueue :: wal_queue where
  "initialQueue = \<lparr>closeChan = False, writeQueue = [], clients = (\<lambda>_. Ready), writer = Idle, sent = [], batches = []\<rparr>"

text \<open>\<^verbatim>\<open>Submit\<close>: the first \<^verbatim>\<open>select\<close> answers when the log is closed; the second one takes either ready case.\<close>

inductive Submit :: "nat \<Rightarrow> wal_queue \<Rightarrow> wal_queue \<Rightarrow> bool" for i where
  refuse: "clients s i = Ready \<Longrightarrow> closeChan s \<Longrightarrow> Submit i s (s\<lparr>clients := (clients s)(i := Answered False)\<rparr>)"
| check: "clients s i = Ready \<Longrightarrow> \<not> closeChan s \<Longrightarrow> Submit i s (s\<lparr>clients := (clients s)(i := Checked)\<rparr>)"
| refuseLate: "clients s i = Checked \<Longrightarrow> closeChan s \<Longrightarrow> Submit i s (s\<lparr>clients := (clients s)(i := Answered False)\<rparr>)"
| enqueue: "clients s i = Checked \<Longrightarrow> length (writeQueue s) < queueCapacity \<Longrightarrow>
    Submit i s (s\<lparr>clients := (clients s)(i := Waiting), writeQueue := writeQueue s @ [i], sent := sent s @ [i]\<rparr>)"

text \<open>\<^verbatim>\<open>Close\<close> closes the channel once; waiting for the writer and closing the file come after.\<close>

inductive CloseQueue :: "wal_queue \<Rightarrow> wal_queue \<Rightarrow> bool" where
  close: "\<not> closeChan s \<Longrightarrow> CloseQueue s (s\<lparr>closeChan := True\<rparr>)"

definition answer :: "nat list \<Rightarrow> wal_queue \<Rightarrow> wal_queue" where
  "answer tasks s = s\<lparr>clients := (\<lambda>i. if i \<in> set tasks then Answered True else clients s i), batches := batches s @ [tasks]\<rparr>"

inductive backgroundWriterLoop :: "DurabilityMode \<Rightarrow> wal_queue \<Rightarrow> wal_queue \<Rightarrow> bool" for mode where
  take: "writer s = Idle \<Longrightarrow> writeQueue s = i # q \<Longrightarrow>
    backgroundWriterLoop mode s
      (s\<lparr>writeQueue := q, writer := if mode = DurabilityBatched then Gather [i] else Process [i]\<rparr>)"
| gather: "writer s = Gather tasks \<Longrightarrow> length tasks < batchLimit \<Longrightarrow> writeQueue s = i # q \<Longrightarrow>
    backgroundWriterLoop mode s (s\<lparr>writeQueue := q, writer := Gather (tasks @ [i])\<rparr>)"
| gathered: "writer s = Gather tasks \<Longrightarrow> backgroundWriterLoop mode s (s\<lparr>writer := Process tasks\<rparr>)"
| process: "writer s = Process tasks \<Longrightarrow> backgroundWriterLoop mode s ((answer tasks s)\<lparr>writer := Idle\<rparr>)"
| closed: "writer s = Idle \<Longrightarrow> closeChan s \<Longrightarrow> backgroundWriterLoop mode s (s\<lparr>writer := Drain\<rparr>)"
| drain: "writer s = Drain \<Longrightarrow> writeQueue s = i # q \<Longrightarrow>
    backgroundWriterLoop mode s (s\<lparr>writeQueue := q, writer := DrainProcess i\<rparr>)"
| drained: "writer s = DrainProcess i \<Longrightarrow> backgroundWriterLoop mode s ((answer [i] s)\<lparr>writer := Drain\<rparr>)"
| exit: "writer s = Drain \<Longrightarrow> writeQueue s = [] \<Longrightarrow> backgroundWriterLoop mode s (s\<lparr>writer := Exited\<rparr>)"

inductive queueStep :: "DurabilityMode \<Rightarrow> wal_queue \<Rightarrow> wal_queue \<Rightarrow> bool" for mode where
  submit: "Submit i s s' \<Longrightarrow> queueStep mode s s'"
| closing: "CloseQueue s s' \<Longrightarrow> queueStep mode s s'"
| writing: "backgroundWriterLoop mode s s' \<Longrightarrow> queueStep mode s s'"

inductive_simps Submit_simps: "Submit i s s'"
inductive_simps CloseQueue_simps: "CloseQueue s s'"
inductive_simps loop_simps: "backgroundWriterLoop mode s s'"
inductive_cases queueStepE: "queueStep mode s s'"

abbreviation queueSteps :: "DurabilityMode \<Rightarrow> wal_queue \<Rightarrow> wal_queue \<Rightarrow> bool" where
  "queueSteps mode \<equiv> (queueStep mode)\<^sup>*\<^sup>*"

section \<open>The invariant: first in, first out, nothing lost\<close>

fun held :: "writer \<Rightarrow> nat list" where
  "held (Gather tasks) = tasks"
| "held (Process tasks) = tasks"
| "held (DrainProcess i) = [i]"
| "held _ = []"

text \<open>What was sent is what has been processed, in batches, then what the writer holds, then what is in
  the channel; every task was sent once; a client waits exactly while its task is held or in the
  channel.\<close>

definition queueInv :: "wal_queue \<Rightarrow> bool" where
  "queueInv s = (sent s = concat (batches s) @ held (writer s) @ writeQueue s \<and> distinct (sent s) \<and>
     (\<forall>i. clients s i = Waiting \<longleftrightarrow> i \<in> set (held (writer s) @ writeQueue s)) \<and>
     (\<forall>i. i \<in> set (concat (batches s)) \<longleftrightarrow> clients s i = Answered True) \<and>
     length (writeQueue s) \<le> queueCapacity \<and> length (held (writer s)) \<le> batchLimit \<and>
     (\<forall>tasks \<in> set (batches s). length tasks \<le> batchLimit))"

lemma queueInv_initial: "queueInv initialQueue"
  by (simp add: queueInv_def initialQueue_def)

lemma queueInv_Submit:
  assumes "queueInv s" "Submit i s s'" shows "queueInv s'"
proof -
  have sent: "\<And>j. j \<in> set (sent s) \<longleftrightarrow> clients s j = Waiting \<or> clients s j = Answered True"
    using assms(1) by (auto simp: queueInv_def simp del: set_concat)
  from assms(2) show ?thesis
  proof cases
    case enqueue
    then show ?thesis using assms(1) sent [of i] by (auto simp: queueInv_def simp del: set_concat; metis client.distinct)
  qed (use assms(1) in \<open>auto simp: queueInv_def simp del: set_concat; metis client.distinct\<close>)+
qed

lemma queueInv_loop:
  assumes "queueInv s" "backgroundWriterLoop mode s s'" shows "queueInv s'"
  using assms(2)
proof cases
  case (process tasks)
  then show ?thesis using assms(1) by (auto simp: queueInv_def answer_def simp del: set_concat; metis client.distinct)
next
  case (drained i)
  then show ?thesis using assms(1) by (auto simp: queueInv_def answer_def batchLimit_def simp del: set_concat; metis client.distinct)
qed (use assms(1) in \<open>auto simp: queueInv_def batchLimit_def simp del: set_concat; metis client.distinct\<close>)+

lemma queueInv_Close: "queueInv s \<Longrightarrow> CloseQueue s s' \<Longrightarrow> queueInv s'"
  by (auto simp: CloseQueue_simps queueInv_def simp del: set_concat; metis client.distinct)

lemma queueInv_step: "queueInv s \<Longrightarrow> queueStep mode s s' \<Longrightarrow> queueInv s'"
  by (auto elim!: queueStepE intro: queueInv_Submit queueInv_loop queueInv_Close)

lemma queueInv_reachable: "queueSteps mode s s' \<Longrightarrow> queueInv s \<Longrightarrow> queueInv s'"
  by (induction rule: rtranclp_induct) (auto intro: queueInv_step)

section \<open>Progress\<close>

text \<open>How many steps of the writer are left, at most, before it has answered the task.\<close>

fun phase :: "writer \<Rightarrow> nat" where
  "phase Exited = 0"
| "phase Drain = 0"
| "phase Idle = 1"
| "phase (Process tasks) = 2"
| "phase (DrainProcess i) = 2"
| "phase (Gather tasks) = 3 + (batchLimit - length tasks)"

fun position :: "nat \<Rightarrow> nat list \<Rightarrow> nat" where
  "position i [] = 0"
| "position i (j # q) = (if i = j then 1 else Suc (position i q))"

definition rank :: "nat \<Rightarrow> wal_queue \<Rightarrow> nat" where
  "rank i s = (if i \<in> set (held (writer s)) then phase (writer s) else 200 * position i (writeQueue s) + phase (writer s))"

lemma position_append: "i \<in> set q \<Longrightarrow> position i (q @ r) = position i q"
  by (induction q) auto

text \<open>A waiting client whose writer has not exited.\<close>

definition pending :: "nat \<Rightarrow> wal_queue \<Rightarrow> bool" where
  "pending i s = (queueInv s \<and> clients s i = Waiting \<and> writer s \<noteq> Exited)"

lemma pending_where: "pending i s \<Longrightarrow> i \<in> set (held (writer s)) \<or> i \<in> set (writeQueue s)"
  by (auto simp: pending_def queueInv_def)

text \<open>A step of the writer answers the task or brings it nearer; no other step sends it back.\<close>

lemma loop_progress:
  assumes "pending i s" "backgroundWriterLoop mode s s'"
  shows "clients s' i = Answered True \<or> (pending i s' \<and> rank i s' < rank i s)"
proof -
  have inv: "queueInv s'" using assms queueInv_loop by (auto simp: pending_def)
  note wh = pending_where [OF assms(1)]
  have w: "clients s i = Waiting" using assms(1) by (simp add: pending_def)
  have len: "length (held (writer s)) \<le> batchLimit" using assms(1) by (simp add: pending_def queueInv_def)
  from assms(2) show ?thesis
  proof cases
    case (process tasks)
    then show ?thesis using w wh inv by (auto simp: pending_def rank_def answer_def batchLimit_def)
  next
    case (drained j)
    then show ?thesis using w wh inv by (auto simp: pending_def rank_def answer_def batchLimit_def)
  qed (use w wh inv len in \<open>auto simp: pending_def rank_def batchLimit_def\<close>)
qed

lemma other_progress:
  assumes "pending i s" "Submit j s s' \<or> CloseQueue s s'"
  shows "pending i s' \<and> rank i s' = rank i s"
proof -
  have inv: "queueInv s'" using assms queueInv_step submit closing by (auto simp: pending_def)
  note wh = pending_where [OF assms(1)]
  from assms(2) show ?thesis
  proof
    assume "Submit j s s'"
    then show ?thesis
      using wh inv assms(1) by cases (auto simp: pending_def rank_def position_append)
  next
    assume "CloseQueue s s'"
    then show ?thesis using inv assms(1) by cases (auto simp: pending_def rank_def)
  qed
qed

lemma step_progress:
  assumes "pending i s" "queueStep mode s s' \<or> s' = s"
  shows "clients s' i = Answered True \<or> (pending i s' \<and> rank i s' \<le> rank i s)"
  using assms(2)
proof
  assume "queueStep mode s s'"
  then show ?thesis
  proof cases
    case writing
    then show ?thesis using loop_progress [OF assms(1)] by fastforce
  next
    case (submit j)
    then show ?thesis using other_progress [OF assms(1), of j s'] by auto
  next
    case closing
    then show ?thesis using other_progress [OF assms(1), of 0 s'] by auto
  qed
qed (use assms(1) in simp)

lemma writer_enabled:
  assumes "pending i s" shows "\<exists>s'. backgroundWriterLoop mode s s'"
proof (cases "writer s")
  case Idle
  then obtain j q where "writeQueue s = j # q" using pending_where [OF assms] by (cases "writeQueue s") auto
  then show ?thesis using take [OF Idle] by blast
next
  case Drain
  then show ?thesis using drain [OF Drain] exit [OF Drain] by (cases "writeQueue s") blast+
next
  case Exited
  then show ?thesis using assms by (simp add: pending_def)
qed (use gathered process drained in blast)+

text \<open>A run is an infinite sequence of states, each a step from the one before or equal to it; it is fair
  when the writer does not stay able to take a step forever without taking one.\<close>

definition queueRun :: "DurabilityMode \<Rightarrow> (nat \<Rightarrow> wal_queue) \<Rightarrow> bool" where
  "queueRun mode run = (\<forall>n. queueStep mode (run n) (run (Suc n)) \<or> run (Suc n) = run n)"

definition fairWriter :: "DurabilityMode \<Rightarrow> (nat \<Rightarrow> wal_queue) \<Rightarrow> bool" where
  "fairWriter mode run = (\<forall>n. \<exists>m \<ge> n. (\<nexists>s'. backgroundWriterLoop mode (run m) s') \<or>
     backgroundWriterLoop mode (run m) (run (Suc m)))"

lemma run_pending:
  assumes "queueRun mode run" "pending i (run n)" "n \<le> m" "\<And>k. clients (run k) i \<noteq> Answered True"
  shows "pending i (run m) \<and> rank i (run m) \<le> rank i (run n)"
  using assms(3)
proof (induction rule: dec_induct)
  case base
  then show ?case using assms(2) by simp
next
  case (step k)
  then show ?case
    using step_progress [of i "run k" mode "run (Suc k)"] assms(1,4) unfolding queueRun_def by (meson le_trans)
qed

lemma run_answered:
  assumes "queueRun mode run" "fairWriter mode run" "pending i (run n)"
  shows "\<exists>m. clients (run m) i = Answered True"
  using assms(3)
proof (induction "rank i (run n)" arbitrary: n rule: less_induct)
  case less
  show ?case
  proof (rule ccontr)
    assume "\<nexists>m. clients (run m) i = Answered True"
    then have not: "\<And>k. clients (run k) i \<noteq> Answered True" by blast
    obtain m where m: "n \<le> m" "(\<nexists>s'. backgroundWriterLoop mode (run m) s') \<or> backgroundWriterLoop mode (run m) (run (Suc m))"
      using assms(2) unfolding fairWriter_def by blast
    have p: "pending i (run m)" "rank i (run m) \<le> rank i (run n)" using run_pending [OF assms(1) less.prems m(1) not] by auto
    then have "backgroundWriterLoop mode (run m) (run (Suc m))" using m(2) writer_enabled by blast
    then have "pending i (run (Suc m))" "rank i (run (Suc m)) < rank i (run n)" using loop_progress [OF p(1)] p(2) not by fastforce+
    then show False using less.hyps not by blast
  qed
qed

section \<open>Properties\<close>

text \<open>C13: the channel between submitters and writer is first-in first-out and loses nothing. In every
  reachable state the tasks sent so far are, in order, those processed, those the writer holds and
  those in the channel; no task is processed twice, a client has an answer of the writer exactly if
  its task was in a batch, and a batch never has more than a hundred tasks.\<close>

theorem queue_is_fifo:
  assumes "queueSteps mode initialQueue s"
  shows "sent s = concat (batches s) @ held (writer s) @ writeQueue s \<and> distinct (concat (batches s)) \<and>
    (\<forall>i. clients s i = Answered True \<longleftrightarrow> i \<in> set (concat (batches s))) \<and> (\<forall>b \<in> set (batches s). length b \<le> 100)"
  using queueInv_reachable [OF assms queueInv_initial] by (auto simp: queueInv_def batchLimit_def)

text \<open>The states of a run with one task in the batched mode.\<close>

definition exampleQueue :: "nat \<Rightarrow> wal_queue" where
  "exampleQueue n = (
     let s1 = initialQueue\<lparr>clients := (clients initialQueue)(7 := Checked)\<rparr>;
         s2 = s1\<lparr>clients := (clients s1)(7 := Waiting), writeQueue := [7], sent := [7]\<rparr>;
         s3 = s2\<lparr>writeQueue := [], writer := Gather [7]\<rparr>;
         s4 = s3\<lparr>writer := Process [7]\<rparr>;
         s5 = (answer [7] s4)\<lparr>writer := Idle\<rparr>
     in if n = 0 then initialQueue else if n = 1 then s1 else if n = 2 then s2 else if n = 3 then s3
        else if n = 4 then s4 else s5)"

lemma exampleQueue_steps:
  "queueStep DurabilityBatched (exampleQueue 0) (exampleQueue 1)"
  "queueStep DurabilityBatched (exampleQueue 1) (exampleQueue 2)"
  "backgroundWriterLoop DurabilityBatched (exampleQueue 2) (exampleQueue 3)"
  "backgroundWriterLoop DurabilityBatched (exampleQueue 3) (exampleQueue 4)"
  "backgroundWriterLoop DurabilityBatched (exampleQueue 4) (exampleQueue 5)"
  by (rule queueStep.submit [of 7], simp add: Submit_simps exampleQueue_def initialQueue_def Let_def queueCapacity_def,
      rule queueStep.submit [of 7], simp add: Submit_simps exampleQueue_def initialQueue_def Let_def queueCapacity_def,
      simp_all add: loop_simps exampleQueue_def initialQueue_def Let_def answer_def fun_eq_iff)

lemma exampleQueue_tail: "5 \<le> n \<Longrightarrow> exampleQueue n = exampleQueue 5"
  by (simp add: exampleQueue_def)

lemma exampleQueue_reach: "queueSteps DurabilityBatched initialQueue (exampleQueue 5)"
proof -
  note ws = exampleQueue_steps(3-5) [THEN queueStep.writing]
  have "queueSteps DurabilityBatched (exampleQueue 0) (exampleQueue 5)"
    using exampleQueue_steps(1,2) ws by (meson converse_rtranclp_into_rtranclp r_into_rtranclp)
  then show ?thesis by (simp add: exampleQueue_def)
qed

theorem queue_is_fifo_witness:
  "queueSteps DurabilityBatched initialQueue (exampleQueue 5) \<and> batches (exampleQueue 5) = [[7]] \<and>
   sent (exampleQueue 5) = concat (batches (exampleQueue 5))"
proof -
  have "held (writer (exampleQueue 5)) = []" "writeQueue (exampleQueue 5) = []" "batches (exampleQueue 5) = [[7]]"
    by (simp_all add: exampleQueue_def initialQueue_def Let_def answer_def)
  then show ?thesis using exampleQueue_reach queue_is_fifo [OF exampleQueue_reach] by simp
qed

text \<open>C12: every submitted task is answered. In a run from the start in which the writer goroutine is
  scheduled fairly, a client that waits while the writer has not returned gets its result, in every
  durability mode, whatever the other clients do and whether or not the log is closed meanwhile.\<close>

theorem submitted_task_is_answered:
  assumes "queueRun mode run" "fairWriter mode run" "run 0 = initialQueue"
    and "clients (run n) i = Waiting" "writer (run n) \<noteq> Exited"
  shows "\<exists>m > n. clients (run m) i = Answered True"
proof -
  have inv: "queueInv (run k)" for k
  proof (induction k)
    case 0
    then show ?case by (simp add: assms(3) queueInv_initial)
  next
    case (Suc k)
    then show ?case using assms(1) queueInv_step unfolding queueRun_def by metis
  qed
  have late: "queueRun mode (\<lambda>k. run (n + k))" "fairWriter mode (\<lambda>k. run (n + k))"
  proof -
    show "queueRun mode (\<lambda>k. run (n + k))" using assms(1) by (simp add: queueRun_def)
    show "fairWriter mode (\<lambda>k. run (n + k))" unfolding fairWriter_def
    proof
      fix k
      obtain m where "n + k \<le> m" "(\<nexists>s'. backgroundWriterLoop mode (run m) s') \<or> backgroundWriterLoop mode (run m) (run (Suc m))"
        using assms(2) unfolding fairWriter_def by blast
      then show "\<exists>m\<ge>k. (\<nexists>s'. backgroundWriterLoop mode (run (n + m)) s') \<or> backgroundWriterLoop mode (run (n + m)) (run (n + Suc m))"
        by (intro exI [of _ "m - n"]) auto
    qed
  qed
  have "pending i (run (n + 0))" using inv assms(4,5) by (simp add: pending_def)
  from run_answered [OF late this] obtain m where m: "clients (run (n + m)) i = Answered True" by blast
  then have "m \<noteq> 0" using assms(4) by (auto intro: ccontr)
  then show ?thesis using m by (intro exI [of _ "n + m"]) simp
qed

theorem submitted_task_is_answered_witness:
  "\<exists>m > 2. clients (exampleQueue m) 7 = Answered True"
proof (rule submitted_task_is_answered)
  note ss = exampleQueue_steps(1,2) exampleQueue_steps(3-5) [THEN queueStep.writing]
  have "queueStep DurabilityBatched (exampleQueue n) (exampleQueue (Suc n)) \<or> exampleQueue (Suc n) = exampleQueue n" for n
  proof (cases "5 \<le> n")
    case True
    then show ?thesis using exampleQueue_tail [of n] exampleQueue_tail [of "Suc n"] by simp
  next
    case False
    then have "n = 0 \<or> n = 1 \<or> n = 2 \<or> n = 3 \<or> n = 4" by linarith
    then show ?thesis using ss by (auto simp: numeral_eq_Suc)
  qed
  then show "queueRun DurabilityBatched exampleQueue" by (simp add: queueRun_def)
  have "\<nexists>s'. backgroundWriterLoop DurabilityBatched (exampleQueue 5) s'"
    by (simp add: loop_simps exampleQueue_def initialQueue_def Let_def answer_def)
  then have "\<nexists>s'. backgroundWriterLoop DurabilityBatched (exampleQueue (n + 5)) s'" for n
    using exampleQueue_tail [of "n + 5"] by simp
  then show "fairWriter DurabilityBatched exampleQueue" unfolding fairWriter_def by (meson le_add1)
qed (simp_all add: exampleQueue_def initialQueue_def Let_def)

lemma lost_forever:
  assumes "clients s i = Waiting" "writer s = Exited" "queueSteps mode s s'"
  shows "clients s' i = Waiting \<and> writer s' = Exited"
  using assms(3)
proof (induction rule: rtranclp_induct)
  case base
  then show ?case using assms(1,2) by simp
next
  case (step t u)
  from step.hyps(2) step.IH show ?case
    by cases (auto simp: Submit_simps CloseQueue_simps loop_simps)
qed

text \<open>The steps of the race.\<close>

definition racingQueue :: "nat \<Rightarrow> wal_queue" where
  "racingQueue i = initialQueue\<lparr>clients := (clients initialQueue)(i := Waiting), closeChan := True, writer := Exited,
     writeQueue := [i], sent := [i]\<rparr>"

lemma racingQueue_reach: "queueSteps mode initialQueue (racingQueue i)"
proof -
  let ?s1 = "initialQueue\<lparr>clients := (clients initialQueue)(i := Checked)\<rparr>"
  let ?s2 = "?s1\<lparr>closeChan := True\<rparr>"
  let ?s3 = "?s2\<lparr>writer := Drain\<rparr>"
  let ?s4 = "?s3\<lparr>writer := Exited\<rparr>"
  have s1: "queueStep mode initialQueue ?s1"
    by (rule queueStep.submit [of i]) (simp add: Submit_simps initialQueue_def)
  have s2: "queueStep mode ?s1 ?s2" by (rule queueStep.closing) (simp add: CloseQueue_simps initialQueue_def)
  have s3: "queueStep mode ?s2 ?s3" by (rule queueStep.writing) (simp add: loop_simps initialQueue_def)
  have s4: "queueStep mode ?s3 ?s4" by (rule queueStep.writing) (simp add: loop_simps initialQueue_def)
  have s5: "queueStep mode ?s4 (racingQueue i)"
    by (rule queueStep.submit [of i]) (simp add: Submit_simps initialQueue_def racingQueue_def queueCapacity_def)
  show ?thesis
    by (rule converse_rtranclp_into_rtranclp [OF s1 converse_rtranclp_into_rtranclp [OF s2 converse_rtranclp_into_rtranclp
          [OF s3 converse_rtranclp_into_rtranclp [OF s4 r_into_rtranclp [where r = "queueStep mode", OF s5]]]]])
qed

text \<open>C32: a client that passed the first check before the log was closed can send its task after the
  writer has emptied the channel and returned. Then nothing receives the task: the client waits
  in every state that can follow.\<close>

theorem submit_race_loses_task:
  "\<exists>s. queueSteps mode initialQueue s \<and> clients s i = Waiting \<and>
     {s'. queueSteps mode s s'} \<subseteq> {s'. clients s' i = Waiting}"
  using racingQueue_reach [of mode i] lost_forever [of "racingQueue i" i mode]
  by (intro exI [of _ "racingQueue i"]) (auto simp: racingQueue_def)

end
