(* ===== verification/GoText.thy ===== *)
theory GoText
  imports GoRuntime "HOL-Library.Multiset"
begin

text \<open>
  Decimal numbers and more string functions of Go's standard library: \<^verbatim>\<open>fmt.Sprintf("%d", n)\<close>,
  \<^verbatim>\<open>strconv.ParseInt(s, 10, 64)\<close>, \<^verbatim>\<open>strings.HasPrefix\<close>, \<^verbatim>\<open>HasSuffix\<close>, \<^verbatim>\<open>Contains\<close> and \<^verbatim>\<open>Join\<close>,
  \<^verbatim>\<open>bytes.IndexByte\<close>, and \<^verbatim>\<open>sort.Slice\<close>.
\<close>

section \<open>Decimal numbers\<close>

definition digit :: "nat \<Rightarrow> char" where
  "digit d = char_of (48 + d)"

definition isDigit :: "char \<Rightarrow> bool" where
  "isDigit c = (48 \<le> (of_char c :: nat) \<and> (of_char c :: nat) \<le> 57)"

definition digitValue :: "char \<Rightarrow> nat" where
  "digitValue c = of_char c - 48"

fun decimal :: "nat \<Rightarrow> string" where
  "decimal n = (if n < 10 then [digit n] else decimal (n div 10) @ [digit (n mod 10)])"

declare decimal.simps [simp del]

definition fmt_d :: "int \<Rightarrow> string" where
  "fmt_d n = (if n < 0 then CHR ''-'' # decimal (nat (- n)) else decimal (nat n))"

definition digitsValue :: "string \<Rightarrow> nat" where
  "digitsValue s = foldl (\<lambda>n c. 10 * n + digitValue c) 0 s"

text \<open>\<^verbatim>\<open>strconv.ParseInt(s, 10, 64)\<close>: an optional sign and digits; \<open>None\<close> for a syntax error or a value out
  of range.\<close>

definition ParseInt :: "string \<Rightarrow> int option" where
  "ParseInt s =
     (let (neg, ds) = (case s of c # cs \<Rightarrow> if c = CHR ''-'' then (True, cs) else if c = CHR ''+'' then (False, cs) else (False, s)
                       | [] \<Rightarrow> (False, s))
      in if ds = [] \<or> \<not> list_all isDigit ds then None
         else let n = (if neg then - int (digitsValue ds) else int (digitsValue ds)) in
              if - (2 ^ 63) \<le> n \<and> n < 2 ^ 63 then Some n else None)"

lemma digit_props [simp]: "d < 10 \<Longrightarrow> isDigit (digit d)" "d < 10 \<Longrightarrow> digitValue (digit d) = d"
  by (simp_all add: isDigit_def digit_def digitValue_def)

lemma decimal_digits: "list_all isDigit (decimal n)"
  by (induction n rule: decimal.induct) (subst decimal.simps, auto)

lemma decimal_ne [simp]: "decimal n \<noteq> []"
  by (subst decimal.simps) auto

lemma digitsValue_decimal: "digitsValue (decimal n) = n"
proof (induction n rule: decimal.induct)
  case (1 n)
  show ?case
  proof (cases "n < 10")
    case True
    then show ?thesis by (subst decimal.simps) (simp add: digitsValue_def)
  next
    case False
    have "digitsValue (decimal n) = 10 * digitsValue (decimal (n div 10)) + n mod 10"
      using False by (subst decimal.simps) (simp add: digitsValue_def)
    then show ?thesis using 1 False by simp
  qed
qed

lemma decimal_inj: "decimal m = decimal n \<Longrightarrow> m = n"
  by (metis digitsValue_decimal)

lemma digit_not_sign: "isDigit c \<Longrightarrow> c \<noteq> CHR ''-'' \<and> c \<noteq> CHR ''+'' \<and> c \<noteq> CHR '' ''"
  by (auto simp: isDigit_def)

lemma ParseInt_decimal: "n < 2 ^ 63 \<Longrightarrow> ParseInt (decimal n) = Some (int n)"
proof -
  assume n: "n < 2 ^ 63"
  obtain c cs where d: "decimal n = c # cs" by (cases "decimal n") auto
  then have "c \<noteq> CHR ''-''" "c \<noteq> CHR ''+''" using decimal_digits [of n] digit_not_sign [of c] by auto
  moreover have "int n < 2 ^ 63" using n by (metis of_nat_less_iff of_nat_numeral of_nat_power)
  ultimately show ?thesis using decimal_digits [of n] digitsValue_decimal [of n] by (simp add: ParseInt_def d)
qed

lemma length_decimal: "n < 10 ^ Suc k \<Longrightarrow> length (decimal n) \<le> Suc k"
proof (induction k arbitrary: n)
  case 0
  then show ?case by (subst decimal.simps) simp
next
  case (Suc k)
  show ?case
  proof (cases "n < 10")
    case True
    then show ?thesis by (subst decimal.simps) simp
  next
    case False
    have "n div 10 < 10 ^ Suc k" using Suc.prems by (simp add: less_mult_imp_div_less)
    then have "length (decimal (n div 10)) \<le> Suc k" by (rule Suc.IH)
    then show ?thesis using False by (subst decimal.simps) simp
  qed
qed

lemma decimal_no_space: "CHR '' '' \<notin> set (decimal n)"
  using decimal_digits [of n] digit_not_sign by (auto simp: list_all_iff)

section \<open>Strings\<close>

fun strings_HasPrefix :: "string \<Rightarrow> string \<Rightarrow> bool" where
  "strings_HasPrefix s [] = True"
| "strings_HasPrefix [] (p # ps) = False"
| "strings_HasPrefix (c # s) (p # ps) = (c = p \<and> strings_HasPrefix s ps)"

definition strings_HasSuffix :: "string \<Rightarrow> string \<Rightarrow> bool" where
  "strings_HasSuffix s suffix = strings_HasPrefix (rev s) (rev suffix)"

fun strings_Contains :: "string \<Rightarrow> string \<Rightarrow> bool" where
  "strings_Contains [] t = (t = [])"
| "strings_Contains (c # s) t = (strings_HasPrefix (c # s) t \<or> strings_Contains s t)"

fun strings_Join :: "string list \<Rightarrow> string \<Rightarrow> string" where
  "strings_Join [] sep = []"
| "strings_Join [s] sep = s"
| "strings_Join (s # t # rest) sep = s @ sep @ strings_Join (t # rest) sep"

fun IndexByte :: "string \<Rightarrow> char \<Rightarrow> nat option" where
  "IndexByte [] b = None"
| "IndexByte (c # s) b = (if c = b then Some 0 else map_option Suc (IndexByte s b))"

lemma HasPrefix_iff: "strings_HasPrefix s p \<longleftrightarrow> (\<exists>r. s = p @ r)"
  by (induction s p rule: strings_HasPrefix.induct) auto

lemma HasPrefix_append [simp]: "strings_HasPrefix (p @ r) p"
  by (auto simp: HasPrefix_iff)

lemma HasSuffix_iff: "strings_HasSuffix s p \<longleftrightarrow> (\<exists>r. s = r @ p)"
  by (auto simp: strings_HasSuffix_def HasPrefix_iff) (metis rev_append rev_rev_ident)

lemma Contains_iff: "strings_Contains s t \<longleftrightarrow> (\<exists>a b. s = a @ t @ b)"
proof (induction s)
  case (Cons c s)
  have "(\<exists>a b. c # s = a @ t @ b) \<longleftrightarrow> (\<exists>b. c # s = t @ b) \<or> (\<exists>a b. s = a @ t @ b)"
    by (metis append_Cons append_Nil list.sel(3) neq_Nil_conv)
  then show ?case using Cons.IH by (simp add: HasPrefix_iff)
qed auto

lemma IndexByte_append: "b \<notin> set s \<Longrightarrow> IndexByte (s @ b # r) b = Some (length s)"
  by (induction s) auto

section \<open>sort.Slice\<close>

text \<open>The insertion sort Go uses on up to twelve elements. On more elements Go may arrange equal ones
  differently; what is proved of a sorted result does not depend on their arrangement.

  One pass of the insertion sort: the new element moves left past the elements it is less than; the
  sorted part is kept in reverse.\<close>

fun insertFromRight :: "('a \<Rightarrow> 'a \<Rightarrow> bool) \<Rightarrow> 'a \<Rightarrow> 'a list \<Rightarrow> 'a list" where
  "insertFromRight lt x [] = [x]"
| "insertFromRight lt x (y # ys) = (if lt x y then y # insertFromRight lt x ys else x # y # ys)"

definition sort_Slice :: "('a \<Rightarrow> 'a \<Rightarrow> bool) \<Rightarrow> 'a list \<Rightarrow> 'a list" where
  "sort_Slice lt xs = rev (foldl (\<lambda>sorted x. insertFromRight lt x sorted) [] xs)"

text \<open>The result is a permutation of the slice, and ordered when the comparison is the strict part of a total
  preorder on its elements.\<close>

lemma mset_insertFromRight [simp]: "mset (insertFromRight lt x ys) = add_mset x (mset ys)"
  by (induction ys) auto

lemma mset_sort_Slice [simp]: "mset (sort_Slice lt xs) = mset xs"
proof -
  have "mset (foldl (\<lambda>sorted x. insertFromRight lt x sorted) ys xs) = mset ys + mset xs" for ys
    by (induction xs arbitrary: ys) auto
  then show ?thesis by (simp add: sort_Slice_def)
qed

lemma set_sort_Slice [simp]: "set (sort_Slice lt xs) = set xs"
  by (metis mset_sort_Slice set_mset_mset)

lemma length_sort_Slice [simp]: "length (sort_Slice lt xs) = length xs"
  by (metis mset_sort_Slice size_mset)

definition weakOrder :: "('a \<Rightarrow> 'a \<Rightarrow> bool) \<Rightarrow> 'a set \<Rightarrow> bool" where
  "weakOrder lt S = ((\<forall>a \<in> S. \<forall>b \<in> S. lt a b \<longrightarrow> \<not> lt b a) \<and>
     (\<forall>a \<in> S. \<forall>b \<in> S. \<forall>c \<in> S. \<not> lt a b \<longrightarrow> \<not> lt b c \<longrightarrow> \<not> lt a c))"

lemma weakOrderD:
  "weakOrder lt S \<Longrightarrow> lt a b \<Longrightarrow> a \<in> S \<Longrightarrow> b \<in> S \<Longrightarrow> \<not> lt b a"
  "weakOrder lt S \<Longrightarrow> \<not> lt a b \<Longrightarrow> \<not> lt b c \<Longrightarrow> a \<in> S \<Longrightarrow> b \<in> S \<Longrightarrow> c \<in> S \<Longrightarrow> \<not> lt a c"
  unfolding weakOrder_def by blast+

lemma set_insertFromRight [simp]: "set (insertFromRight lt x ys) = insert x (set ys)"
  by (induction ys) auto

lemma insertFromRight_sorted:
  assumes "weakOrder lt S" "x \<in> S"
  shows "sorted_wrt (\<lambda>a b. \<not> lt a b) ys \<Longrightarrow> set ys \<subseteq> S \<Longrightarrow> sorted_wrt (\<lambda>a b. \<not> lt a b) (insertFromRight lt x ys)"
proof (induction ys)
  case (Cons y ys)
  show ?case
  proof (cases "lt x y")
    case True
    then have "\<not> lt y x" using weakOrderD(1) [OF assms(1) _ assms(2)] Cons.prems(2) by simp
    then show ?thesis using True Cons by simp
  next
    case False
    have "\<not> lt x z" if z: "z \<in> set ys" for z
    proof -
      have "\<not> lt y z" "y \<in> S" "z \<in> S" using Cons.prems z by auto
      then show ?thesis using weakOrderD(2) [OF assms(1) False] assms(2) by simp
    qed
    then show ?thesis using False Cons.prems(1) by simp
  qed
qed simp

lemma sort_Slice_sorted:
  assumes "weakOrder lt (set xs)" shows "sorted_wrt (\<lambda>a b. \<not> lt b a) (sort_Slice lt xs)"
proof -
  have "sorted_wrt (\<lambda>a b. \<not> lt a b) (foldl (\<lambda>sorted x. insertFromRight lt x sorted) ys zs)"
    if "sorted_wrt (\<lambda>a b. \<not> lt a b) ys" "set ys \<subseteq> set xs" "set zs \<subseteq> set xs" for ys zs
    using that
  proof (induction zs arbitrary: ys)
    case (Cons z zs)
    then have "sorted_wrt (\<lambda>a b. \<not> lt a b) (insertFromRight lt z ys)" by (intro insertFromRight_sorted [OF assms]) simp_all
    then show ?case using Cons by simp
  qed simp
  from this [of "[]" xs] show ?thesis by (simp add: sort_Slice_def sorted_wrt_rev)
qed

end
