(* ===== verification/Locking.thy ===== *)
theory Locking
  imports GoText
begin

text \<open>
  The writer lock of a database (\<^verbatim>\<open>lock\<close>, \<^verbatim>\<open>unlock\<close>, \<^verbatim>\<open>releaseWriterLock\<close>, \<^verbatim>\<open>runTransaction\<close> and
  \<^verbatim>\<open>getGoroutineID\<close> of \<^verbatim>\<open>src/db.go\<close>) as an interleaving of the steps of its goroutines.

  The lock is a channel of capacity one that holds a token while it is free. A goroutine is a positive
  number; its program counter says where it is in \<^verbatim>\<open>runTransaction\<close> or in one of the operations that
  take the lock themselves (\<^verbatim>\<open>registerTableMetadata\<close>, \<^verbatim>\<open>DropTable\<close>, \<^verbatim>\<open>Compact\<close>, \<^verbatim>\<open>Backup\<close>, \<^verbatim>\<open>Close\<close>).
\<close>

section \<open>The goroutine number\<close>

text \<open>The number is parsed from the first 64 bytes of the stack trace, which starts with
  \<^verbatim>\<open>"goroutine 17 [running]:"\<close>.\<close>

definition goroutinePrefix :: string where
  "goroutinePrefix = ''goroutine ''"

definition getGoroutineID :: "string \<Rightarrow> int" where
  "getGoroutineID stackTrace =
     (let stackSlice = take 64 stackTrace in
      if \<not> strings_HasPrefix stackSlice goroutinePrefix then 0
      else
        let rest = drop (length goroutinePrefix) stackSlice in
        case IndexByte rest CHR '' '' of
          None \<Rightarrow> 0
        | Some endIndex \<Rightarrow> (case ParseInt (take endIndex rest) of None \<Rightarrow> 0 | Some n \<Rightarrow> n))"

text \<open>Every number Go gives a goroutine is read back.\<close>

lemma getGoroutineID_stack:
  assumes "n < 2 ^ 63" shows "getGoroutineID (goroutinePrefix @ decimal n @ CHR '' '' # rest) = int n"
proof -
  have "n < 10 ^ Suc 18" using assms by simp
  then have len: "length (decimal n) \<le> 19" using length_decimal [of n 18] by simp
  define k where "k = 53 - length (decimal n)"
  have p: "length goroutinePrefix = 10" by (simp add: goroutinePrefix_def)
  have t: "take 64 (goroutinePrefix @ decimal n @ CHR '' '' # rest) = goroutinePrefix @ decimal n @ CHR '' '' # take k rest"
    using len by (simp add: p k_def take_Cons' )
  show ?thesis
    using ParseInt_decimal [OF assms] IndexByte_append [OF decimal_no_space, of n "take k rest"]
    unfolding getGoroutineID_def t Let_def by simp
qed

section \<open>State and steps\<close>

datatype pc =
    Outside
  | TryTx \<comment> \<open>in \<^verbatim>\<open>lock\<close>, called by \<^verbatim>\<open>runTransaction\<close>\<close>
  | GotTx \<comment> \<open>the token is taken, before the checks of the context and of \<^verbatim>\<open>closed\<close>\<close>
  | InTx \<comment> \<open>in the callback\<close>
  | Releasing \<comment> \<open>in \<^verbatim>\<open>releaseWriterLock\<close>, after the reset of the number\<close>
  | TrySchema \<comment> \<open>in \<^verbatim>\<open>lock\<close>, called by an operation outside a transaction\<close>
  | InSchema
  | TryInside \<comment> \<open>in \<^verbatim>\<open>lock\<close>, called by such an operation from inside the callback\<close>
  | InsideBoth

record lock_state =
  writeLock :: bool
  activeGoroutineID :: nat
  lk_closed :: bool
  pcs :: "nat \<Rightarrow> pc"

definition at :: "nat \<Rightarrow> pc \<Rightarrow> lock_state \<Rightarrow> lock_state" where
  "at g p s = s\<lparr>pcs := (pcs s)(g := p)\<rparr>"

definition initialLock :: lock_state where
  "initialLock = \<lparr>writeLock = True, activeGoroutineID = 0, lk_closed = False, pcs = (\<lambda>_. Outside)\<rparr>"

text \<open>\<^verbatim>\<open>unlock\<close> puts the token back unless the channel holds one.\<close>

definition unlock :: "lock_state \<Rightarrow> lock_state" where
  "unlock s = s\<lparr>writeLock := True\<rparr>"

text \<open>\<^verbatim>\<open>lock\<close> waits for the token; only a transaction has a context that can end the wait.\<close>

inductive lockStep :: "nat \<Rightarrow> lock_state \<Rightarrow> lock_state \<Rightarrow> bool" for g where
  acquireTx: "pcs s g = TryTx \<Longrightarrow> writeLock s \<Longrightarrow> lockStep g s (at g GotTx (s\<lparr>writeLock := False\<rparr>))"
| giveUp: "pcs s g = TryTx \<Longrightarrow> lockStep g s (at g Outside s)"
| cancelled: "pcs s g = GotTx \<Longrightarrow> lockStep g s (at g Outside (unlock s))"
| acquireSchema: "pcs s g = TrySchema \<Longrightarrow> writeLock s \<Longrightarrow> lockStep g s (at g InSchema (s\<lparr>writeLock := False\<rparr>))"
| acquireInside: "pcs s g = TryInside \<Longrightarrow> writeLock s \<Longrightarrow> lockStep g s (at g InsideBoth (s\<lparr>writeLock := False\<rparr>))"

text \<open>\<^verbatim>\<open>runTransaction\<close>: refused at once when the number of the active goroutine is the caller's.\<close>

definition nestedRefused :: "nat \<Rightarrow> lock_state \<Rightarrow> bool" where
  "nestedRefused g s = (activeGoroutineID s = g)"

inductive runTransaction :: "nat \<Rightarrow> lock_state \<Rightarrow> lock_state \<Rightarrow> bool" for g where
  start: "pcs s g = Outside \<Longrightarrow> \<not> nestedRefused g s \<Longrightarrow> runTransaction g s (at g TryTx s)"
| closedAlready: "pcs s g = GotTx \<Longrightarrow> lk_closed s \<Longrightarrow> runTransaction g s (at g Outside (unlock s))"
| enter: "pcs s g = GotTx \<Longrightarrow> \<not> lk_closed s \<Longrightarrow> runTransaction g s (at g InTx (s\<lparr>activeGoroutineID := g\<rparr>))"
| finish: "pcs s g = InTx \<Longrightarrow> runTransaction g s (at g Releasing (s\<lparr>activeGoroutineID := 0\<rparr>))"
| released: "pcs s g = Releasing \<Longrightarrow> runTransaction g s (at g Outside (unlock s))"

text \<open>The operations that lock with \<^verbatim>\<open>context.Background()\<close>.\<close>

inductive schemaOperation :: "nat \<Rightarrow> lock_state \<Rightarrow> lock_state \<Rightarrow> bool" for g where
  call: "pcs s g = Outside \<Longrightarrow> schemaOperation g s (at g TrySchema s)"
| callInside: "pcs s g = InTx \<Longrightarrow> schemaOperation g s (at g TryInside s)"
| return: "pcs s g = InSchema \<Longrightarrow> schemaOperation g s (at g Outside (unlock s))"
| returnInside: "pcs s g = InsideBoth \<Longrightarrow> schemaOperation g s (at g InTx (unlock s))"
| closeDatabase: "pcs s g = InSchema \<Longrightarrow> schemaOperation g s (at g Outside (unlock (s\<lparr>lk_closed := True\<rparr>)))"

inductive dbStep :: "lock_state \<Rightarrow> lock_state \<Rightarrow> bool" where
  locking: "0 < g \<Longrightarrow> lockStep g s s' \<Longrightarrow> dbStep s s'"
| transaction: "0 < g \<Longrightarrow> runTransaction g s s' \<Longrightarrow> dbStep s s'"
| schema: "0 < g \<Longrightarrow> schemaOperation g s s' \<Longrightarrow> dbStep s s'"

inductive_simps lockStep_simps: "lockStep g s s'"
inductive_simps runTransaction_simps: "runTransaction g s s'"
inductive_simps schemaOperation_simps: "schemaOperation g s s'"
inductive_cases dbStepE: "dbStep s s'"

section \<open>The invariant\<close>

definition holding :: "pc \<Rightarrow> bool" where
  "holding p = (p \<in> {GotTx, InTx, Releasing, InSchema, TryInside})"

text \<open>The token is in the channel or one goroutine holds the lock; the recorded number is that of the
  goroutine in its callback.\<close>

definition inCallback :: "pc \<Rightarrow> bool" where
  "inCallback p = (p \<in> {InTx, TryInside})"

definition owned :: "nat option \<Rightarrow> lock_state \<Rightarrow> bool" where
  "owned owner s = ((\<forall>g. holding (pcs s g) = (owner = Some g)) \<and> writeLock s = (owner = None) \<and> (\<forall>g. pcs s g \<noteq> InsideBoth))"

definition numbered :: "lock_state \<Rightarrow> bool" where
  "numbered s = (\<forall>g. 0 < g \<longrightarrow> (activeGoroutineID s = g) = inCallback (pcs s g))"

definition lockInv :: "lock_state \<Rightarrow> bool" where
  "lockInv s = ((\<exists>owner. owned owner s) \<and> numbered s)"

lemma lockInv_initial: "lockInv initialLock"
  by (auto simp: lockInv_def owned_def numbered_def inCallback_def initialLock_def holding_def)

text \<open>How the steps move the ownership.\<close>

lemma owned_take: "owned owner s \<Longrightarrow> writeLock s \<Longrightarrow> holding p \<Longrightarrow> p \<noteq> InsideBoth \<Longrightarrow> owned (Some g) (at g p (s\<lparr>writeLock := False\<rparr>))"
  by (auto simp: owned_def at_def)

lemma owned_drop: "owned owner s \<Longrightarrow> holding (pcs s g) \<Longrightarrow> owned None (at g Outside (unlock s))"
  by (auto simp: owned_def at_def unlock_def holding_def)

lemma owned_move: "owned owner s \<Longrightarrow> holding p = holding (pcs s g) \<Longrightarrow> p \<noteq> InsideBoth \<Longrightarrow> owned owner (at g p s)"
  by (auto simp: owned_def at_def)

lemma owned_other: "owned owner (s\<lparr>activeGoroutineID := n\<rparr>) = owned owner s" "owned owner (s\<lparr>lk_closed := b\<rparr>) = owned owner s"
  by (simp_all add: owned_def)

lemma numbered_move: "numbered s \<Longrightarrow> inCallback p = inCallback (pcs s g) \<Longrightarrow> numbered (at g p s)"
  by (simp add: numbered_def at_def)

lemma numbered_other: "numbered (s\<lparr>writeLock := b\<rparr>) = numbered s" "numbered (unlock s) = numbered s"
  "numbered (s\<lparr>lk_closed := b\<rparr>) = numbered s"
  by (simp_all add: numbered_def unlock_def)

lemma owned_free: "owned owner s \<Longrightarrow> pcs s g \<noteq> InsideBoth"
  by (simp add: owned_def)

lemma owned_unique: "owned owner s \<Longrightarrow> holding (pcs s g) \<Longrightarrow> holding (pcs s h) \<Longrightarrow> h = g"
  by (metis owned_def option.inject)

lemma inCallback_holding: "inCallback p \<Longrightarrow> holding p"
  by (auto simp: inCallback_def holding_def)

lemma callback_of_owner: "owned owner s \<Longrightarrow> holding (pcs s g) \<Longrightarrow> h \<noteq> g \<Longrightarrow> \<not> inCallback (pcs s h)"
  using owned_unique inCallback_holding by blast

lemmas pc_classes = holding_def inCallback_def

lemma lockInv_lock:
  assumes "lockInv s" "lockStep g s s'" shows "lockInv s'"
proof -
  obtain owner where o: "owned owner s" and n: "numbered s" using assms(1) by (auto simp: lockInv_def)
  from assms(2) show ?thesis
  proof cases
    case acquireTx
    then show ?thesis using owned_take [OF o, of GotTx g] numbered_move [of "s\<lparr>writeLock := False\<rparr>" GotTx g] n
      by (auto simp: lockInv_def pc_classes numbered_other)
  next
    case giveUp
    then show ?thesis using owned_move [OF o, of Outside g] numbered_move [OF n, of Outside g]
      by (auto simp: lockInv_def pc_classes)
  next
    case cancelled
    then show ?thesis using owned_drop [OF o, of g] numbered_move [of "unlock s" Outside g] n
      by (auto simp: lockInv_def pc_classes numbered_other unlock_def)
  next
    case acquireSchema
    then show ?thesis using owned_take [OF o, of InSchema g] numbered_move [of "s\<lparr>writeLock := False\<rparr>" InSchema g] n
      by (auto simp: lockInv_def pc_classes numbered_other)
  next
    case acquireInside
    then have False using o by (auto simp: owned_def holding_def)
    then show ?thesis ..
  qed
qed

lemma lockInv_transaction:
  assumes "lockInv s" "runTransaction g s s'" "0 < g" shows "lockInv s'"
proof -
  obtain owner where o: "owned owner s" and n: "numbered s" using assms(1) by (auto simp: lockInv_def)
  from assms(2) show ?thesis
  proof cases
    case start
    then show ?thesis using owned_move [OF o, of TryTx g] numbered_move [OF n, of TryTx g]
      by (auto simp: lockInv_def pc_classes)
  next
    case closedAlready
    then show ?thesis using owned_drop [OF o, of g] numbered_move [of "unlock s" Outside g] n
      by (auto simp: lockInv_def pc_classes numbered_other unlock_def)
  next
    case enter
    have "owned owner (at g InTx (s\<lparr>activeGoroutineID := g\<rparr>))"
      using owned_move [of owner "s\<lparr>activeGoroutineID := g\<rparr>" InTx g] o enter by (simp add: owned_other pc_classes)
    moreover have "\<not> inCallback (pcs s h)" if "h \<noteq> g" for h
      using callback_of_owner [OF o _ that] enter by (simp add: holding_def)
    then have "numbered (at g InTx (s\<lparr>activeGoroutineID := g\<rparr>))" by (auto simp: numbered_def at_def inCallback_def)
    ultimately show ?thesis using enter by (auto simp: lockInv_def)
  next
    case finish
    have "owned owner (at g Releasing (s\<lparr>activeGoroutineID := 0\<rparr>))"
      using owned_move [of owner "s\<lparr>activeGoroutineID := 0\<rparr>" Releasing g] o finish by (simp add: owned_other pc_classes)
    moreover have "\<not> inCallback (pcs s h)" if "h \<noteq> g" for h
      using callback_of_owner [OF o _ that] finish by (simp add: holding_def)
    then have "numbered (at g Releasing (s\<lparr>activeGoroutineID := 0\<rparr>))" by (auto simp: numbered_def at_def inCallback_def)
    ultimately show ?thesis using finish by (auto simp: lockInv_def)
  next
    case released
    then show ?thesis using owned_drop [OF o, of g] numbered_move [of "unlock s" Outside g] n
      by (auto simp: lockInv_def pc_classes numbered_other unlock_def)
  qed
qed

lemma lockInv_schema:
  assumes "lockInv s" "schemaOperation g s s'" shows "lockInv s'"
proof -
  obtain owner where o: "owned owner s" and n: "numbered s" using assms(1) by (auto simp: lockInv_def)
  from assms(2) show ?thesis
  proof cases
    case call
    then show ?thesis using owned_move [OF o, of TrySchema g] numbered_move [OF n, of TrySchema g]
      by (auto simp: lockInv_def pc_classes)
  next
    case callInside
    then show ?thesis using owned_move [OF o, of TryInside g] numbered_move [OF n, of TryInside g]
      by (auto simp: lockInv_def pc_classes)
  next
    case return
    then show ?thesis using owned_drop [OF o, of g] numbered_move [of "unlock s" Outside g] n
      by (auto simp: lockInv_def pc_classes numbered_other unlock_def)
  next
    case returnInside
    then show ?thesis using owned_free [OF o, of g] by simp
  next
    case closeDatabase
    then show ?thesis
      using owned_drop [of owner "s\<lparr>lk_closed := True\<rparr>" g] numbered_move [of "unlock (s\<lparr>lk_closed := True\<rparr>)" Outside g] o n
      by (auto simp: lockInv_def pc_classes numbered_other owned_other unlock_def)
  qed
qed

lemma lockInv_reachable: "dbStep\<^sup>*\<^sup>* s s' \<Longrightarrow> lockInv s \<Longrightarrow> lockInv s'"
  by (induction rule: rtranclp_induct) (auto elim!: dbStepE intro: lockInv_lock lockInv_transaction lockInv_schema)

section \<open>Properties\<close>

lemma stuck_step:
  assumes "lockInv s" "dbStep s s'" "pcs s g = TryInside" shows "pcs s' g = TryInside"
proof -
  have nw: "\<not> writeLock s" using assms(1,3) by (auto simp: lockInv_def owned_def holding_def)
  show ?thesis
    using assms(2,3) nw by cases (auto simp: lockStep_simps runTransaction_simps schemaOperation_simps at_def unlock_def)
qed

text \<open>A goroutine in its callback, and one that creates a table there.\<close>

definition enteredLock :: lock_state where
  "enteredLock = initialLock\<lparr>writeLock := False, activeGoroutineID := 1, pcs := (\<lambda>_. Outside)(1 := InTx)\<rparr>"

definition stuckLock :: lock_state where
  "stuckLock = at 1 TryInside enteredLock"

lemma enteredLock_reach: "dbStep\<^sup>*\<^sup>* initialLock enteredLock"
proof -
  let ?s1 = "at 1 TryTx initialLock"
  let ?s2 = "at 1 GotTx (?s1\<lparr>writeLock := False\<rparr>)"
  have "dbStep initialLock ?s1"
    by (rule dbStep.transaction [of 1]) (simp_all add: runTransaction_simps initialLock_def nestedRefused_def at_def)
  moreover have "dbStep ?s1 ?s2"
    by (rule dbStep.locking [of 1]) (simp_all add: lockStep_simps initialLock_def at_def)
  moreover have "dbStep ?s2 enteredLock"
    by (rule dbStep.transaction [of 1])
       (simp_all add: runTransaction_simps initialLock_def enteredLock_def at_def fun_upd_def fun_eq_iff)
  ultimately show ?thesis by (meson converse_rtranclp_into_rtranclp rtranclp.rtrancl_refl)
qed

text \<open>C11: the writer lock is exclusive. In every reachable state at most one goroutine holds it, no one
  does while the token is in the channel, and a call of runTransaction is refused as nested exactly
  for the goroutine that is inside its own callback.\<close>

theorem writer_lock_is_exclusive:
  assumes "dbStep\<^sup>*\<^sup>* initialLock s"
  shows "(\<forall>g h. holding (pcs s g) \<longrightarrow> holding (pcs s h) \<longrightarrow> g = h) \<and> (writeLock s \<longrightarrow> (\<forall>g. \<not> holding (pcs s g))) \<and>
    (\<forall>g. 0 < g \<longrightarrow> nestedRefused g s = (pcs s g \<in> {InTx, TryInside}))"
  using lockInv_reachable [OF assms lockInv_initial]
  by (auto simp: lockInv_def owned_def numbered_def inCallback_def nestedRefused_def)

theorem writer_lock_is_exclusive_witness:
  "nestedRefused 1 enteredLock \<and> \<not> nestedRefused 2 enteredLock \<and> \<not> holding (pcs enteredLock 2)"
  using writer_lock_is_exclusive [OF enteredLock_reach] by (simp add: enteredLock_def holding_def)

text \<open>C33: an operation that takes the lock itself, such as getting a table that is not registered yet,
  waits forever when it is called from inside a transaction callback: in every state that can follow
  the goroutine still waits and no other goroutine can get the lock.\<close>

theorem schema_call_in_transaction_hangs:
  assumes "dbStep\<^sup>*\<^sup>* initialLock s" "pcs s g = TryInside"
  shows "{s'. dbStep\<^sup>*\<^sup>* s s'} \<subseteq> {s'. pcs s' g = TryInside \<and> \<not> writeLock s'}"
proof
  fix s' assume "s' \<in> {s'. dbStep\<^sup>*\<^sup>* s s'}"
  then have "dbStep\<^sup>*\<^sup>* s s'" by simp
  then have "pcs s' g = TryInside \<and> lockInv s'"
  proof (induction rule: rtranclp_induct)
    case base
    then show ?case using assms lockInv_reachable lockInv_initial by blast
  next
    case (step t u)
    then show ?case using stuck_step lockInv_reachable by blast
  qed
  then show "s' \<in> {s'. pcs s' g = TryInside \<and> \<not> writeLock s'}" by (auto simp: lockInv_def owned_def holding_def)
qed

theorem schema_call_in_transaction_hangs_witness:
  "dbStep\<^sup>*\<^sup>* initialLock stuckLock \<and> {s'. dbStep\<^sup>*\<^sup>* stuckLock s'} \<subseteq> {s'. pcs s' 1 = TryInside \<and> \<not> writeLock s'}"
proof -
  have "dbStep enteredLock stuckLock"
    by (rule dbStep.schema [of 1]) (simp_all add: schemaOperation_simps enteredLock_def stuckLock_def)
  then have "dbStep\<^sup>*\<^sup>* initialLock stuckLock" using enteredLock_reach by (rule rtranclp.rtrancl_into_rtrancl [rotated])
  then show ?thesis
    using schema_call_in_transaction_hangs [of stuckLock 1] by (simp add: stuckLock_def at_def)
qed

end
