(* ===== verification/Keys.thy ===== *)
theory Keys
  imports CodecLaws
begin

text \<open>
  The comparison of serialized index keys (\<^verbatim>\<open>compareByteKeys\<close> and
  \<^verbatim>\<open>compareCompositeKeys\<close> of \<^verbatim>\<open>src/bplus_tree.go\<close>): a primary or unique key is an encoded
  value, a key of a non-unique index is the composite of the encoded field value and the
  encoded primary key. The comparison tells the two apart by the first byte.
\<close>

section \<open>Definitions\<close>

text \<open>The tests on the first bytes of two non-empty keys.\<close>

definition isComposite :: "bytes \<Rightarrow> bool" where
  "isComposite key = ((length key > 1 \<and> hd key = 0) \<or> hd key > 7)"

text \<open>The part of \<open>compareByteKeys\<close> after the composite attempt: strings, int32 and int64 are
  compared on their bytes, everything else on the decoded values; keys that do not decode are
  compared as byte strings.\<close>

definition compareDecoded :: "(gval \<Rightarrow> string) \<Rightarrow> bytes \<Rightarrow> bytes \<Rightarrow> int res" where
  "compareDecoded fmt keyFirst keySecond =
     (case deserializeKey keyFirst of
        Panic p \<Rightarrow> Panic p
      | NoFuel \<Rightarrow> NoFuel
      | first \<Rightarrow>
          (case deserializeKey keySecond of
             Panic p \<Rightarrow> Panic p
           | NoFuel \<Rightarrow> NoFuel
           | second \<Rightarrow>
               (case (first, second) of
                  (Ok valueFirst, Ok valueSecond) \<Rightarrow> Ok (compareValues fmt valueFirst valueSecond)
                | _ \<Rightarrow> Ok (bytes_Compare keyFirst keySecond))))"

definition comparePlain :: "(gval \<Rightarrow> string) \<Rightarrow> bytes \<Rightarrow> bytes \<Rightarrow> int res" where
  "comparePlain fmt keyFirst keySecond =
     (if hd keyFirst = 1 \<and> hd keySecond = 1 \<and> length keyFirst \<ge> 5 \<and> length keySecond \<ge> 5 then
        Ok (bytes_Compare (drop 5 keyFirst) (drop 5 keySecond))
      else if hd keyFirst = 4 \<and> hd keySecond = 4 \<and> length keyFirst = 5 \<and> length keySecond = 5 then
        Ok (three_way (<) (sint (Uint32 (sub keyFirst 1 4))) (sint (Uint32 (sub keySecond 1 4))))
      else if hd keyFirst = 5 \<and> hd keySecond = 5 \<and> length keyFirst = 9 \<and> length keySecond = 9 then
        Ok (three_way (<) (sint (Uint64 (sub keyFirst 1 8))) (sint (Uint64 (sub keySecond 1 8))))
      else compareDecoded fmt keyFirst keySecond)"

text \<open>\<open>compareCompositeKeys\<close> returns \<open>None\<close> for the Go result \<^verbatim>\<open>(0, false)\<close>: not two composite
  keys after all.\<close>

function compareByteKeys :: "(gval \<Rightarrow> string) \<Rightarrow> bytes \<Rightarrow> bytes \<Rightarrow> int res"
  and compareCompositeKeys :: "(gval \<Rightarrow> string) \<Rightarrow> bytes \<Rightarrow> bytes \<Rightarrow> int option res"
where
  "compareByteKeys fmt keyFirst keySecond =
     (if keyFirst = [] \<and> keySecond = [] then Ok 0
      else if keyFirst = [] then Ok (-1)
      else if keySecond = [] then Ok 1
      else if isComposite keyFirst \<and> isComposite keySecond then
        bindR (compareCompositeKeys fmt keyFirst keySecond) (\<lambda>r.
          case r of Some result \<Rightarrow> Ok result | None \<Rightarrow> comparePlain fmt keyFirst keySecond)
      else comparePlain fmt keyFirst keySecond)"
| "compareCompositeKeys fmt keyFirst keySecond =
     (if length keyFirst < 4 \<or> length keySecond < 4 then Ok None
      else
        let lenFirst = unat (Uint16 (sub keyFirst 0 2)) in
        if length keyFirst < 2 + lenFirst + 2 then Ok None
        else
          let lenSecond = unat (Uint16 (sub keySecond 0 2)) in
          if length keySecond < 2 + lenSecond + 2 then Ok None
          else
            bindR (compareByteKeys fmt (sub keyFirst 2 lenFirst) (sub keySecond 2 lenSecond))
              (\<lambda>comparison.
                if comparison \<noteq> 0 then Ok (Some comparison)
                else
                  let offsetFirst = 2 + lenFirst;
                      primLenFirst = unat (Uint16 (sub keyFirst offsetFirst 2))
                  in if length keyFirst < offsetFirst + 2 + primLenFirst then Ok None
                     else
                       let offsetSecond = 2 + lenSecond;
                           primLenSecond = unat (Uint16 (sub keySecond offsetSecond 2))
                       in if length keySecond < offsetSecond + 2 + primLenSecond then Ok None
                          else mapR Some
                            (compareByteKeys fmt (sub keyFirst (offsetFirst + 2) primLenFirst)
                               (sub keySecond (offsetSecond + 2) primLenSecond))))"
  by pat_completeness auto
termination
  by (relation "measure (\<lambda>x. case x of Inl (fmt, a, b) \<Rightarrow> 2 * length a + 1
        | Inr (fmt, a, b) \<Rightarrow> 2 * length a)")
     (auto simp: sub_def)

declare compareByteKeys.simps [simp del] compareCompositeKeys.simps [simp del]

end
