(* ===== verification/KeyLaws.thy ===== *)
theory KeyLaws
  imports Keys
begin

text \<open>
  The order of the index: on the keys of one value comparing serialized keys agrees with
  comparing the decoded values, composite keys are ordered by the secondary and then by the
  primary key, and the keys an index holds are totally ordered. The order is stated as the
  locale \<open>key_order\<close>, which the searches of the B+ tree rest on, and interpreted for string,
  int32, int64 and composite keys.
\<close>

section \<open>The contract of a key order\<close>

text \<open>On the keys of \<open>K\<close> the comparison never panics, is antisymmetric and transitive, and two
  keys that compare equal are the same bytes. \<open>sorted_keys\<close> is the order of the keys of a
  node.\<close>

locale key_order =
  fixes cmp :: "bytes \<Rightarrow> bytes \<Rightarrow> int res"
    and K :: "bytes set"
  assumes total: "a \<in> K \<Longrightarrow> b \<in> K \<Longrightarrow> \<exists>c. cmp a b = Ok c"
    and swap: "a \<in> K \<Longrightarrow> b \<in> K \<Longrightarrow> cmp a b = Ok c \<Longrightarrow> cmp b a = Ok (- c)"
    and trans: "a \<in> K \<Longrightarrow> b \<in> K \<Longrightarrow> d \<in> K \<Longrightarrow> cmp a b = Ok x \<Longrightarrow> cmp b d = Ok y \<Longrightarrow>
          x \<le> 0 \<Longrightarrow> y \<le> 0 \<Longrightarrow> \<exists>z \<le> 0. cmp a d = Ok z"
    and eq: "a \<in> K \<Longrightarrow> b \<in> K \<Longrightarrow> cmp a b = Ok 0 \<Longrightarrow> a = b"
begin

definition lt :: "bytes \<Rightarrow> bytes \<Rightarrow> bool" where
  "lt a b = (\<exists>c < 0. cmp a b = Ok c)"

lemma refl_0: "a \<in> K \<Longrightarrow> cmp a a = Ok 0"
  using total [of a a] swap [of a a] by fastforce

lemma lt_irrefl: "a \<in> K \<Longrightarrow> \<not> lt a a"
  by (auto simp: lt_def refl_0)

lemma lt_asym: "a \<in> K \<Longrightarrow> b \<in> K \<Longrightarrow> lt a b \<Longrightarrow> \<not> lt b a"
  unfolding lt_def by (auto dest: swap [of a b])

lemma lt_linear: "a \<in> K \<Longrightarrow> b \<in> K \<Longrightarrow> lt a b \<or> a = b \<or> lt b a"
proof -
  assume ab: "a \<in> K" "b \<in> K"
  then obtain c where c: "cmp a b = Ok c" "cmp b a = Ok (- c)" using total swap by blast
  consider "c < 0" | "c = 0" | "c > 0" by linarith
  then show ?thesis using c ab eq by cases (auto simp: lt_def)
qed

lemma lt_trans: "a \<in> K \<Longrightarrow> b \<in> K \<Longrightarrow> d \<in> K \<Longrightarrow> lt a b \<Longrightarrow> lt b d \<Longrightarrow> lt a d"
proof -
  assume k: "a \<in> K" "b \<in> K" "d \<in> K" and l: "lt a b" "lt b d"
  obtain x y where x: "cmp a b = Ok x" "x < 0" and y: "cmp b d = Ok y" "y < 0"
    using l by (auto simp: lt_def)
  obtain z where z: "z \<le> 0" "cmp a d = Ok z" using trans [OF k x(1) y(1)] x y by auto
  have "z \<noteq> 0"
  proof
    assume "z = 0"
    then have "a = d" using z eq k by blast
    then show False using lt_asym [of a b] k l by blast
  qed
  then show ?thesis using z by (auto simp: lt_def)
qed

lemma cmp_sign:
  assumes "a \<in> K" "b \<in> K"
  obtains c where "cmp a b = Ok c" "c < 0 \<longleftrightarrow> lt a b" "c = 0 \<longleftrightarrow> a = b" "c > 0 \<longleftrightarrow> lt b a"
proof -
  obtain c where c: "cmp a b = Ok c" "cmp b a = Ok (- c)" using assms total swap by blast
  have "c = 0 \<longleftrightarrow> a = b" using c eq assms refl_0 by auto
  moreover have "c > 0 \<longleftrightarrow> lt b a" using c(2) by (simp add: lt_def)
  ultimately show ?thesis using that [OF c(1)] c(1) by (simp add: lt_def)
qed

text \<open>The search of a node: the predicate \<^verbatim>\<open>compareByteKeys(keys[i], key) >= 0\<close> is monotone on
  sorted keys, so \<open>sort_Search\<close> returns the number of keys below the wanted one.\<close>

definition sorted_keys :: "bytes list \<Rightarrow> bool" where
  "sorted_keys ks = (set ks \<subseteq> K \<and> sorted_wrt lt ks)"

definition rank :: "bytes list \<Rightarrow> bytes \<Rightarrow> nat" where
  "rank ks k = length (filter (\<lambda>a. lt a k) ks)"

lemma sorted_keys_Cons: "sorted_keys (a # ks) \<longleftrightarrow> a \<in> K \<and> (\<forall>b \<in> set ks. lt a b) \<and> sorted_keys ks"
  by (auto simp: sorted_keys_def)

lemma sorted_keys_append:
  "sorted_keys (xs @ ys) \<longleftrightarrow> sorted_keys xs \<and> sorted_keys ys \<and> (\<forall>a \<in> set xs. \<forall>b \<in> set ys. lt a b)"
  by (auto simp: sorted_keys_def sorted_wrt_append)

lemma sorted_keys_distinct: "sorted_keys ks \<Longrightarrow> distinct ks"
  by (induction ks) (auto simp: sorted_keys_Cons dest: lt_irrefl)

lemma rank_zero: "sorted_keys (a # ks) \<Longrightarrow> k \<in> K \<Longrightarrow> \<not> lt a k \<Longrightarrow> rank (a # ks) k = 0"
proof -
  assume s: "sorted_keys (a # ks)" and k: "k \<in> K" "\<not> lt a k"
  have "\<not> lt b k" if "b \<in> set ks" for b
  proof
    assume "lt b k"
    moreover have "a \<in> K" "b \<in> K" "lt a b" using s that by (auto simp: sorted_keys_def)
    ultimately show False using k lt_trans by blast
  qed
  then show ?thesis using k by (simp add: rank_def)
qed

lemma rank_le: "rank ks k \<le> length ks"
  by (simp add: rank_def)

lemma rank_iff:
  "sorted_keys ks \<Longrightarrow> k \<in> K \<Longrightarrow> i < length ks \<Longrightarrow> i < rank ks k \<longleftrightarrow> lt (ks ! i) k"
proof (induction ks arbitrary: i)
  case (Cons a ks)
  show ?case
  proof (cases "lt a k")
    case True
    then have "rank (a # ks) k = Suc (rank ks k)" by (simp add: rank_def)
    then show ?thesis using Cons True by (cases i) (auto simp: sorted_keys_Cons)
  next
    case False
    then have z: "rank (a # ks) k = 0" using Cons.prems rank_zero by blast
    then have "filter (\<lambda>a. lt a k) (a # ks) = []" by (simp add: rank_def del: filter.simps)
    then have "\<not> lt ((a # ks) ! i) k" using Cons.prems(3) by (meson filter_empty_conv nth_mem)
    then show ?thesis using z by simp
  qed
qed simp

lemma search_rank:
  assumes "sorted_keys ks" "k \<in> K"
  shows "sort_Search (length ks) (\<lambda>i. bindR (index_at ks i) (\<lambda>a. mapR (\<lambda>c. c \<ge> 0) (cmp a k)))
       = Ok (rank ks k)"
proof (rule sort_Search_correct [OF _ rank_le])
  fix i assume i: "i < length ks"
  then have "ks ! i \<in> K" using assms(1) by (auto simp: sorted_keys_def)
  then obtain c where c: "cmp (ks ! i) k = Ok c" "c < 0 \<longleftrightarrow> lt (ks ! i) k"
    using cmp_sign assms(2) by blast
  then show "bindR (index_at ks i) (\<lambda>a. mapR (\<lambda>c. c \<ge> 0) (cmp a k)) = Ok (rank ks k \<le> i)"
    using rank_iff [OF assms i] i by (auto simp: not_less)
qed

lemma rank_found:
  assumes "sorted_keys ks" "k \<in> K"
  shows "k \<in> set ks \<longleftrightarrow> rank ks k < length ks \<and> ks ! rank ks k = k"
proof
  assume "k \<in> set ks"
  then obtain i where i: "i < length ks" "ks ! i = k" by (auto simp: in_set_conv_nth)
  then have ge: "rank ks k \<le> i" using rank_iff [OF assms i(1)] lt_irrefl assms(2) by (simp add: not_less)
  then have r: "rank ks k < length ks" using i by simp
  have "\<not> lt (ks ! rank ks k) k" using rank_iff [OF assms r] by simp
  moreover have "\<not> lt (ks ! rank ks k) k \<longrightarrow> ks ! rank ks k = k"
  proof (cases "rank ks k = i")
    case False
    then have "lt (ks ! rank ks k) (ks ! i)"
      using ge i assms(1) by (auto simp: sorted_keys_def sorted_wrt_iff_nth_less)
    then show ?thesis using i by simp
  qed (use i in simp)
  ultimately show "rank ks k < length ks \<and> ks ! rank ks k = k" using r by blast
next
  assume "rank ks k < length ks \<and> ks ! rank ks k = k"
  then show "k \<in> set ks" by (metis nth_mem)
qed

lemma rank_split:
  assumes "sorted_keys ks" "k \<in> K"
  shows "\<forall>a \<in> set (take (rank ks k) ks). lt a k"
    and "\<forall>a \<in> set (drop (rank ks k) ks). \<not> lt a k"
proof -
  have "lt (ks ! i) k" if "i < rank ks k" for i
    using rank_iff [OF assms, of i] rank_le [of ks k] that by simp
  then show "\<forall>a \<in> set (take (rank ks k) ks). lt a k" by (auto simp: in_set_conv_nth)
  have "\<not> lt (ks ! (rank ks k + i)) k" if "rank ks k + i < length ks" for i
    using rank_iff [OF assms that] by simp
  then show "\<forall>a \<in> set (drop (rank ks k) ks). \<not> lt a k"
    by (auto simp: in_set_conv_nth)
qed

end

section \<open>Keys of one value\<close>

text \<open>\<open>plainValue\<close>: the values an index key is built from, everything the format represents
  except structs, whose tag the comparison takes for a composite key.\<close>

definition plainValue :: "gval \<Rightarrow> bool" where
  "plainValue v = (encodable v \<and> (case decoded v of VPlaceholder n fs \<Rightarrow> False | _ \<Rightarrow> True))"

text \<open>The encoding of a plain value, by the value it decodes to.\<close>

fun encoding :: "gval \<Rightarrow> bytes" where
  "encoding VNil = [0]"
| "encoding (VString s) = 1 # writeString s"
| "encoding (VBytes b) = 2 # PutUint32 (of_nat (length b)) @ b"
| "encoding (VTime sec nsec) = 3 # PutUint64 sec @ PutUint32 nsec"
| "encoding (VInt32 w) = 4 # PutUint32 w"
| "encoding (VInt64 w) = 5 # PutUint64 w"
| "encoding (VFloat64 w) = 6 # PutUint64 w"
| "encoding (VBool b) = [7, if b then 1 else 0]"
| "encoding _ = []"

lemma writeValue_encoding: "plainValue v \<Longrightarrow> writeValue v = Ok (encoding (decoded v))"
proof (induction v)
  case (VPtr t v)
  then show ?case by (cases v) (auto simp: plainValue_def)
next
  case (VIface v)
  then show ?case by (cases v) (auto simp: plainValue_def)
qed (auto simp: plainValue_def Let_def)

lemma decoded_plain_cases:
  assumes "plainValue v"
  obtains "decoded v = VNil" | s where "decoded v = VString s" | b where "decoded v = VBytes b"
    | s n where "decoded v = VTime s n" | w where "decoded v = VInt32 w"
    | w where "decoded v = VInt64 w" | w where "decoded v = VFloat64 w" | b where "decoded v = VBool b"
proof -
  have "\<not> is_indirect (decoded v) \<or> decoded v = VNil" "\<forall>t. decoded v \<noteq> VOther t"
    "\<forall>w. decoded v \<noteq> VInt w" "\<forall>w. decoded v \<noteq> VInt8 w" "\<forall>w. decoded v \<noteq> VInt16 w"
    "\<forall>w. decoded v \<noteq> VFloat32 w" "\<forall>n fs vs. decoded v \<noteq> VStruct n fs vs"
    if "encodable v" for v
    using that by (induction v rule: decoded.induct) (auto simp: Let_def)
  note this [of v]
  with assms that show ?thesis by (cases "decoded v") (auto simp: plainValue_def)
qed

lemma isComposite_encoding: "plainValue v \<Longrightarrow> \<not> isComposite (encoding (decoded v))"
  by (erule decoded_plain_cases) (auto simp: isComposite_def word_less_nat_alt)

lemma encoding_nonempty: "plainValue v \<Longrightarrow> encoding (decoded v) \<noteq> []"
  by (erule decoded_plain_cases) auto

lemma readValue_encoding: "plainValue v \<Longrightarrow> readValue (encoding (decoded v)) = Ok (decoded v, [])"
  using encodable_roundtrips [of v] writeValue_encoding [of v]
  by (auto simp: roundtrips_def plainValue_def dest: spec [of _ "[]"])

lemma compareDecoded_encoding:
  assumes "plainValue a" "plainValue b"
  shows "compareDecoded fmt (encoding (decoded a)) (encoding (decoded b))
       = Ok (compareValues fmt (decoded a) (decoded b))"
  using assms
  by (simp add: compareDecoded_def deserializeKey_def encoding_nonempty readValue_encoding)

lemma comparePlain_encoding:
  assumes "plainValue a" "plainValue b"
  shows "comparePlain fmt (encoding (decoded a)) (encoding (decoded b))
       = Ok (compareValues fmt (decoded a) (decoded b))"
proof -
  consider s t where "decoded a = VString s" "decoded b = VString t"
    | w x where "decoded a = VInt32 w" "decoded b = VInt32 x"
    | w x where "decoded a = VInt64 w" "decoded b = VInt64 x"
    | "comparePlain fmt (encoding (decoded a)) (encoding (decoded b))
       = compareDecoded fmt (encoding (decoded a)) (encoding (decoded b))"
    using assms by (elim decoded_plain_cases) (auto simp: comparePlain_def)
  then show ?thesis
  proof cases
    case 1
    then show ?thesis
      by (simp add: comparePlain_def writeString_def compareValues_def compareTyped_def
          asFloatOrInteger_def three_way_string)
  next
    case 2
    then show ?thesis by (simp add: comparePlain_def compareValues_def sub_def)
  next
    case 3
    then show ?thesis by (simp add: comparePlain_def compareValues_def sub_def)
  next
    case 4
    then show ?thesis using assms by (simp add: compareDecoded_encoding)
  qed
qed

lemma compareByteKeys_encoding:
  assumes "plainValue a" "plainValue b"
  shows "compareByteKeys fmt (encoding (decoded a)) (encoding (decoded b))
       = Ok (compareValues fmt (decoded a) (decoded b))"
  using assms
  by (simp add: compareByteKeys.simps encoding_nonempty isComposite_encoding comparePlain_encoding)

text \<open>The keys of an index over one field: the class of keys is ordered when comparing its
  values is transitive and tells different values apart.\<close>

lemma key_order_values:
  assumes plain: "\<And>v. v \<in> V \<Longrightarrow> plainValue v \<and> decoded v = v"
    and tr: "\<And>a b c. a \<in> V \<Longrightarrow> b \<in> V \<Longrightarrow> c \<in> V \<Longrightarrow> compareValues fmt a b \<le> 0 \<Longrightarrow>
      compareValues fmt b c \<le> 0 \<Longrightarrow> compareValues fmt a c \<le> 0"
    and eq: "\<And>a b. a \<in> V \<Longrightarrow> b \<in> V \<Longrightarrow> compareValues fmt a b = 0 \<Longrightarrow> a = b"
  shows "key_order (compareByteKeys fmt) (encoding ` V)"
proof -
  have cmp: "compareByteKeys fmt (encoding a) (encoding b) = Ok (compareValues fmt a b)"
    if "a \<in> V" "b \<in> V" for a b
    using compareByteKeys_encoding [of a b fmt] plain that by simp
  show ?thesis
  proof
    show "\<exists>c. compareByteKeys fmt a b = Ok c" if "a \<in> encoding ` V" "b \<in> encoding ` V" for a b
      using that cmp by auto
    fix a b c assume ab: "a \<in> encoding ` V" "b \<in> encoding ` V" "compareByteKeys fmt a b = Ok c"
    then obtain va vb where "va \<in> V" "vb \<in> V" "a = encoding va" "b = encoding vb" by blast
    then show "compareByteKeys fmt b a = Ok (- c)"
      using ab(3) compareValues_neg_swap [of fmt vb va] by (simp add: cmp)
  next
    show "\<exists>z\<le>0. compareByteKeys fmt a d = Ok z"
      if "a \<in> encoding ` V" "b \<in> encoding ` V" "d \<in> encoding ` V" "compareByteKeys fmt a b = Ok x"
        "compareByteKeys fmt b d = Ok y" "x \<le> 0" "y \<le> 0" for a b d x y
      using that by (auto simp: cmp intro: tr)
    show "a = b" if "a \<in> encoding ` V" "b \<in> encoding ` V" "compareByteKeys fmt a b = Ok 0" for a b
      using that by (auto simp: cmp dest: eq)
  qed
qed

definition stringKeys :: "bytes set" where
  "stringKeys = encoding ` {VString s | s. encodableName s}"

definition int32Keys :: "bytes set" where
  "int32Keys = encoding ` range VInt32"

definition int64Keys :: "bytes set" where
  "int64Keys = encoding ` range VInt64"

lemma three_way_int:
  "three_way (<) (i :: int) j \<le> 0 \<longleftrightarrow> i \<le> j" "three_way (<) (i :: int) j = 0 \<longleftrightarrow> i = j"
  by (auto simp: three_way_def)

lemma compareValues_strings:
  "compareValues fmt (VString s) (VString t) = bytes_Compare (string_bytes s) (string_bytes t)"
  by (simp add: compareValues_def compareTyped_def asFloatOrInteger_def three_way_string)

interpretation string_keys: key_order "compareByteKeys fmt" stringKeys for fmt
  unfolding stringKeys_def
  by (rule key_order_values)
     (auto simp: plainValue_def compareValues_strings intro: bytes_Compare_trans)

interpretation int32_keys: key_order "compareByteKeys fmt" int32Keys for fmt
  unfolding int32Keys_def
  by (rule key_order_values)
     (auto simp: plainValue_def compareValues_int three_way_int intro: signed_word_eqI)

interpretation int64_keys: key_order "compareByteKeys fmt" int64Keys for fmt
  unfolding int64Keys_def
  by (rule key_order_values)
     (auto simp: plainValue_def compareValues_int three_way_int intro: signed_word_eqI)

section \<open>Composite keys\<close>

definition compositeKey :: "bytes \<Rightarrow> bytes \<Rightarrow> bytes" where
  "compositeKey s p = PutUint16 (of_nat (length s)) @ s @ PutUint16 (of_nat (length p)) @ p"

lemma compositeKey_parts:
  assumes "length s < 65536" "length p < 65536"
  shows "length (compositeKey s p) = 4 + length s + length p"
    and "Uint16 (sub (compositeKey s p) 0 2) = of_nat (length s)"
    and "sub (compositeKey s p) 2 (length s) = s"
    and "Uint16 (sub (compositeKey s p) (2 + length s) 2) = of_nat (length p)"
    and "sub (compositeKey s p) (2 + length s + 2) (length p) = p"
    and "Uint16 (sub (compositeKey s p) (Suc (Suc (length s))) 2) = of_nat (length p)"
    and "sub (compositeKey s p) (Suc (Suc (Suc (Suc (length s))))) (length p) = p"
  by (simp_all add: compositeKey_def sub_def)

lemma compareCompositeKeys_compositeKey:
  assumes "length s < 65536" "length p < 65536" "length s' < 65536" "length p' < 65536"
  shows "compareCompositeKeys fmt (compositeKey s p) (compositeKey s' p') =
    bindR (compareByteKeys fmt s s') (\<lambda>c.
      if c \<noteq> 0 then Ok (Some c) else mapR Some (compareByteKeys fmt p p'))"
  using assms
  by (subst compareCompositeKeys.simps)
     (auto simp: compositeKey_parts unat_of_nat16 Let_def intro!: bindR_cong)

lemma hd_compositeKey: "hd (compositeKey s p) = of_nat (length s div 256)"
proof -
  have "hd (compositeKey s p) = ucast (drop_bit 8 (of_nat (length s) :: 16 word))"
    by (simp add: compositeKey_def numeral_2_eq_2)
  also have "\<dots> = of_nat (length s div 256)"
    by (rule bit_word_eqI)
       (auto simp: bit_simps drop_bit_eq_div [of 8 "length s", symmetric, simplified])
  finally show ?thesis .
qed

text \<open>A composite key is recognised as one when its secondary part is shorter than 256 bytes.\<close>

lemma isComposite_compositeKey:
  assumes "length s < 256"
  shows "isComposite (compositeKey s p)"
proof -
  have "hd (compositeKey s p) = 0" "length (compositeKey s p) > 1"
    using assms by (simp_all add: hd_compositeKey) (simp add: compositeKey_def)
  then show ?thesis by (simp add: isComposite_def)
qed

lemma compareByteKeys_compositeKey:
  assumes "length s < 256" "length p < 65536" "length s' < 256" "length p' < 65536"
  shows "compareByteKeys fmt (compositeKey s p) (compositeKey s' p') =
    bindR (compareByteKeys fmt s s') (\<lambda>c. if c \<noteq> 0 then Ok c else compareByteKeys fmt p p')"
proof -
  have "compositeKey s p \<noteq> []" "compositeKey s' p' \<noteq> []" by (simp_all add: compositeKey_def)
  moreover have "bindR (bindR (compareByteKeys fmt s s') (\<lambda>c.
      if c \<noteq> 0 then Ok (Some c) else mapR Some (compareByteKeys fmt p p')))
        (\<lambda>r. case r of Some result \<Rightarrow> Ok result | None \<Rightarrow> x)
    = bindR (compareByteKeys fmt s s') (\<lambda>c. if c \<noteq> 0 then Ok c else compareByteKeys fmt p p')" for x
    by (cases "compareByteKeys fmt s s'"; cases "compareByteKeys fmt p p'") auto
  ultimately show ?thesis
    using assms
    by (subst compareByteKeys.simps)
       (simp add: isComposite_compositeKey compareCompositeKeys_compositeKey)
qed

definition compositeKeys :: "bytes set \<Rightarrow> bytes set \<Rightarrow> bytes set" where
  "compositeKeys S P = {compositeKey s p | s p. s \<in> S \<and> p \<in> P \<and> length s < 256 \<and> length p < 65536}"

lemma composite_trans:
  assumes S: "key_order (compareByteKeys fmt) S" and P: "key_order (compareByteKeys fmt) P"
    and k: "s1 \<in> S" "s2 \<in> S" "s3 \<in> S" "p1 \<in> P" "p2 \<in> P" "p3 \<in> P"
    and u: "bindR (compareByteKeys fmt s1 s2) (\<lambda>c. if c \<noteq> 0 then Ok c else compareByteKeys fmt p1 p2) = Ok u"
    and v: "bindR (compareByteKeys fmt s2 s3) (\<lambda>c. if c \<noteq> 0 then Ok c else compareByteKeys fmt p2 p3) = Ok v"
    and le: "u \<le> 0" "v \<le> 0"
  shows "\<exists>z\<le>0. bindR (compareByteKeys fmt s1 s3)
      (\<lambda>c. if c \<noteq> 0 then Ok c else compareByteKeys fmt p1 p3) = Ok z"
proof -
  obtain x where x: "compareByteKeys fmt s1 s2 = Ok x" "(if x \<noteq> 0 then Ok x else compareByteKeys fmt p1 p2) = Ok u"
    using u by auto
  obtain y where y: "compareByteKeys fmt s2 s3 = Ok y" "(if y \<noteq> 0 then Ok y else compareByteKeys fmt p2 p3) = Ok v"
    using v by auto
  have xy: "x \<le> 0" "y \<le> 0" using x y le by (auto split: if_splits)
  obtain z where z: "compareByteKeys fmt s1 s3 = Ok z" "z \<le> 0"
    using key_order.trans [OF S k(1-3) x(1) y(1) xy] by blast
  show ?thesis
  proof (cases "z = 0")
    case False
    then show ?thesis using z by simp
  next
    case True
    then have s13: "s1 = s3" using key_order.eq [OF S k(1,3)] z by blast
    then have "x = - y" using key_order.swap [OF S k(1,2) x(1)] y(1) by simp
    then have "x = 0" "y = 0" using xy by auto
    then have "\<exists>z\<le>0. compareByteKeys fmt p1 p3 = Ok z"
      using key_order.trans [OF P k(4-6)] x y le by simp
    then show ?thesis using True z by simp
  qed
qed

text \<open>The lexicographic order of composite keys is a key order again.\<close>

lemma key_order_composite:
  assumes S: "key_order (compareByteKeys fmt) S" and P: "key_order (compareByteKeys fmt) P"
  shows "key_order (compareByteKeys fmt) (compositeKeys S P)"
proof -
  note s = key_order.total [OF S] key_order.swap [OF S] key_order.trans [OF S] key_order.eq [OF S]
    key_order.refl_0 [OF S]
  note p = key_order.total [OF P] key_order.swap [OF P] key_order.trans [OF P] key_order.eq [OF P]
  note c = compareByteKeys_compositeKey
  show ?thesis
  proof
    fix a b assume ab: "a \<in> compositeKeys S P" "b \<in> compositeKeys S P"
    then obtain s1 p1 s2 p2 where a: "a = compositeKey s1 p1" "s1 \<in> S" "p1 \<in> P" "length s1 < 256"
        "length p1 < 65536"
      and b: "b = compositeKey s2 p2" "s2 \<in> S" "p2 \<in> P" "length s2 < 256" "length p2 < 65536"
      by (auto simp: compositeKeys_def)
    obtain x y where x: "compareByteKeys fmt s1 s2 = Ok x" and y: "compareByteKeys fmt p1 p2 = Ok y"
      using s(1) p(1) a b by blast
    note x' = s(2) [OF a(2) b(2) x] and y' = p(2) [OF a(3) b(3) y]
    show "\<exists>c. compareByteKeys fmt a b = Ok c" using a b x y by (auto simp: c)
    show "compareByteKeys fmt b a = Ok (- d)" if "compareByteKeys fmt a b = Ok d" for d
      using that a b x y x' y' by (auto simp: c split: if_splits)
    show "a = b" if "compareByteKeys fmt a b = Ok 0"
    proof -
      have "x = 0" "y = 0" using that a b x y by (auto simp: c split: if_splits)
      then show ?thesis using x y s(4) p(4) a b by blast
    qed
    fix d u v assume d: "d \<in> compositeKeys S P" and uv: "compareByteKeys fmt a b = Ok u"
      "compareByteKeys fmt b d = Ok v" "u \<le> 0" "v \<le> 0"
    obtain s3 p3 where d: "d = compositeKey s3 p3" "s3 \<in> S" "p3 \<in> P" "length s3 < 256" "length p3 < 65536"
      using d by (auto simp: compositeKeys_def)
    show "\<exists>z\<le>0. compareByteKeys fmt a d = Ok z"
      using composite_trans [OF S P] a b d uv by (simp add: c)
  qed
qed

interpretation string_string_keys: key_order "compareByteKeys fmt" "compositeKeys stringKeys stringKeys" for fmt
  by (rule key_order_composite) unfold_locales

interpretation int64_string_keys: key_order "compareByteKeys fmt" "compositeKeys int64Keys stringKeys" for fmt
  by (rule key_order_composite) unfold_locales

interpretation string_int64_keys: key_order "compareByteKeys fmt" "compositeKeys stringKeys int64Keys" for fmt
  by (rule key_order_composite) unfold_locales

text \<open>What the index layer builds is a composite key of the two encodings.\<close>

lemma SerializeCompositeKey_compositeKey:
  assumes "plainValue s" "plainValue p" "s \<noteq> VNil" "p \<noteq> VNil"
  shows "SerializeCompositeKey s p = Ok (compositeKey (encoding (decoded s)) (encoding (decoded p)))"
  using assms by (simp add: SerializeCompositeKey_def serializeKey_def writeValue_encoding compositeKey_def)

section \<open>Composite keys whose secondary part is too long\<close>

lemma drop_bit_small: "n < 2 ^ k \<Longrightarrow> drop_bit k (of_nat n :: 'a::len word) = 0"
  by (rule bit_word_eqI) (auto simp: bit_simps bit_iff_odd [of n] power_add div_mult2_eq)

lemma compositeKey_long_string:
  assumes "635 \<le> length s" "length s \<le> 762"
  shows "\<exists>lo r. compositeKey (encoding (VString s)) p = 2 # lo # 1 # 0 # 0 # r \<and> bit lo 7"
proof -
  let ?k = "compositeKey (encoding (VString s)) p"
  have len: "length (encoding (VString s)) = 5 + length s" by (simp add: writeString_def)
  have "hd ?k = of_nat ((5 + length s) div 256)" by (simp only: hd_compositeKey len)
  moreover have "(5 + length s) div 256 = 2" using assms by simp
  ultimately have hi: "hd ?k = 2" by (simp del: of_nat_add)
  have odd: "odd ((5 + length s) div 128)"
  proof -
    have "(5 + length s) div 128 = 5" using assms by simp
    then show ?thesis by simp
  qed
  let ?lo = "ucast (of_nat (5 + length s) :: 16 word) :: byte"
  have "bit ?lo 7"
    using odd by (simp add: bit_simps bit_iff_odd [of "5 + length s"] del: of_nat_add)
  moreover have "\<exists>b r. ?k = b # ?lo # 1 # 0 # 0 # r"
    using assms
    by (simp add: compositeKey_def PutUint16_bytes writeString_def PutUint32_bytes drop_bit_small)
  ultimately show ?thesis using hi by auto
qed

lemma readInt32_negative: "bit lo 7 \<Longrightarrow> \<exists>w. readInt32 (lo # b # c # d # r) = Ok (w, r) \<and> sint w < 0"
proof -
  assume "bit lo 7"
  then have "bit (Uint32 [lo, b, c, d]) 31"
    by (simp add: be_get_def be_step_def bit_simps)
  then have "sint (Uint32 [lo, b, c, d]) < 0"
    using bit_last_iff [of "Uint32 [lo, b, c, d]"] by simp
  then show ?thesis by (simp add: readInt32_def readFull_def numeral_eq_Suc)
qed

lemma compareByteKeys_long_string:
  assumes "635 \<le> length s" "length s \<le> 762" "635 \<le> length t" "length t \<le> 762"
  shows "compareByteKeys fmt (compositeKey (encoding (VString s)) p) (compositeKey (encoding (VString t)) q)
       = Panic MakeSliceLen"
proof -
  obtain lo r where k: "compositeKey (encoding (VString s)) p = 2 # lo # 1 # 0 # 0 # r" "bit lo 7"
    using compositeKey_long_string assms by blast
  obtain lo' r' where k': "compositeKey (encoding (VString t)) q = 2 # lo' # 1 # 0 # 0 # r'"
    using compositeKey_long_string assms by blast
  obtain w where w: "readInt32 (lo # 1 # 0 # 0 # r) = Ok (w, r)" "sint w < 0"
    using readInt32_negative [OF k(2)] by blast
  then have "deserializeKey (2 # lo # 1 # 0 # 0 # r) = Panic MakeSliceLen"
    by (simp add: deserializeKey_def readValue_scalar readScalar_def)
  then show ?thesis
    unfolding k k' by (simp add: compareByteKeys.simps isComposite_def comparePlain_def compareDecoded_def)
qed

section \<open>Properties of the key order\<close>

text \<open>C25: comparing the serialized keys of two index values (anything the format represents but
  structs) gives exactly what comparing the decoded values gives, with the byte-wise shortcuts
  for strings and integers as without them, and never panics.\<close>

theorem compareByteKeys_values:
  assumes "plainValue a" "plainValue b" "a \<noteq> VNil" "b \<noteq> VNil"
  shows "\<exists>ka kb. serializeKey a = Ok ka \<and> serializeKey b = Ok kb \<and>
    compareByteKeys fmt ka kb = Ok (compareValues fmt (decoded a) (decoded b))"
  using assms by (simp add: serializeKey_def writeValue_encoding compareByteKeys_encoding)

theorem compareByteKeys_values_witness:
  "\<exists>ka kb. serializeKey (VInt8 (-3)) = Ok ka \<and> serializeKey (VInt64 2) = Ok kb \<and>
     compareByteKeys (\<lambda>v. []) ka kb = Ok (-1)"
proof -
  have d: "compareValues (\<lambda>v. []) (decoded (VInt8 (-3))) (decoded (VInt64 2)) = -1" by code_simp
  have "plainValue (VInt8 (-3))" "plainValue (VInt64 2)" by code_simp+
  then show ?thesis
    using compareByteKeys_values [of "VInt8 (-3)" "VInt64 2" "\<lambda>v. []"] unfolding d by simp
qed

text \<open>Keys of a non-unique index compare by the secondary value and, when it is equal, by the
  primary key, as long as the secondary encoding is shorter than 256 bytes.\<close>

theorem composite_key_order:
  assumes "plainValue s" "plainValue p" "plainValue s'" "plainValue p'"
    and "s \<noteq> VNil" "p \<noteq> VNil" "s' \<noteq> VNil" "p' \<noteq> VNil"
    and "length (encoding (decoded s)) < 256" "length (encoding (decoded s')) < 256"
    and "length (encoding (decoded p)) < 65536" "length (encoding (decoded p')) < 65536"
  shows "\<exists>k k'. SerializeCompositeKey s p = Ok k \<and> SerializeCompositeKey s' p' = Ok k' \<and>
    compareByteKeys fmt k k' =
      Ok (let c = compareValues fmt (decoded s) (decoded s')
          in if c \<noteq> 0 then c else compareValues fmt (decoded p) (decoded p'))"
  using assms
  by (simp add: SerializeCompositeKey_compositeKey compareByteKeys_compositeKey compareByteKeys_encoding Let_def)

theorem composite_key_order_witness:
  "\<exists>k k'. SerializeCompositeKey (VString ''Ada'') (VInt64 2) = Ok k \<and>
     SerializeCompositeKey (VString ''Ada'') (VInt64 1) = Ok k' \<and> compareByteKeys (\<lambda>v. []) k k' = Ok 1"
proof -
  have "(let c = compareValues (\<lambda>v. []) (decoded (VString ''Ada'')) (decoded (VString ''Ada''))
      in if c \<noteq> 0 then c else compareValues (\<lambda>v. []) (decoded (VInt64 2)) (decoded (VInt64 1))) = 1"
    by code_simp
  moreover have "plainValue (VString ''Ada'')" "plainValue (VInt64 2)" "plainValue (VInt64 1)"
    by code_simp+
  moreover have "length (encoding (decoded (VString ''Ada''))) < 256"
    "length (encoding (decoded (VInt64 2))) < 65536" "length (encoding (decoded (VInt64 1))) < 65536"
    by (simp_all add: writeString_def)
  ultimately show ?thesis
    using composite_key_order [of "VString ''Ada''" "VInt64 2" "VString ''Ada''" "VInt64 1" "\<lambda>v. []"] by simp
qed

text \<open>A composite key gives back its secondary and primary values, when both encodings fit
  the two-byte lengths.\<close>

theorem composite_key_roundtrip:
  assumes "plainValue s" "plainValue p" "s \<noteq> VNil" "p \<noteq> VNil"
    and "length (encoding (decoded s)) < 65536" "length (encoding (decoded p)) < 65536"
  shows "bindR (SerializeCompositeKey s p) DeserializeCompositeKey = Ok (decoded s, decoded p)"
  using assms compositeKey_parts [OF assms(5,6)]
  by (simp add: SerializeCompositeKey_compositeKey DeserializeCompositeKey_def unat_of_nat16 Let_def
      deserializeKey_def encoding_nonempty readValue_encoding)

theorem composite_key_roundtrip_witness:
  "bindR (SerializeCompositeKey (VString ''Ada'') (VInt 7)) DeserializeCompositeKey
     = Ok (VString ''Ada'', VInt64 7)"
  using composite_key_roundtrip [of "VString ''Ada''" "VInt 7"]
  by (simp add: plainValue_def encodableName_def maxStringLength_def writeString_def)

text \<open>When the secondary string of two composite keys is 635 to 762 bytes long, the first
  byte of the key is taken for the byte-slice tag, the next bytes for a negative length, and
  comparing the keys panics.\<close>

theorem composite_key_long_panic:
  assumes "635 \<le> length s" "length s \<le> 762" "635 \<le> length t" "length t \<le> 762"
    and "plainValue p" "plainValue q" "p \<noteq> VNil" "q \<noteq> VNil"
  shows "\<exists>k k'. SerializeCompositeKey (VString s) p = Ok k \<and> SerializeCompositeKey (VString t) q = Ok k' \<and>
    compareByteKeys fmt k k' = Panic MakeSliceLen"
proof -
  have "plainValue (VString s)" "plainValue (VString t)"
    using assms by (simp_all add: plainValue_def encodableName_def maxStringLength_def)
  then show ?thesis
    using assms by (simp add: SerializeCompositeKey_compositeKey compareByteKeys_long_string del: encoding.simps)
qed

theorem composite_key_long_panic_witness:
  "\<exists>k k'. SerializeCompositeKey (VString (replicate 700 CHR ''a'')) (VInt 1) = Ok k \<and>
     SerializeCompositeKey (VString (replicate 700 CHR ''a'')) (VInt 2) = Ok k' \<and>
     compareByteKeys (\<lambda>v. []) k k' = Panic MakeSliceLen"
  using composite_key_long_panic [of "replicate 700 CHR ''a''" "replicate 700 CHR ''a''" "VInt 1" "VInt 2"]
  by (simp add: plainValue_def)

end
