(* ===== verification/Page.thy ===== *)
theory Page
  imports Storage
begin

text \<open>
  The page layer of \<^verbatim>\<open>src/bplus_tree.go\<close> (lines 1 to 431): page headers, checksums, reading and
  writing pages of the index file, the superblock, the catalog page and the node pages.

  A page is a list of 16384 bytes. Offsets inside a node page are 16-bit words, as in the
  code, so that every addition wraps; a slice expression outside the page is a panic.
\<close>

section \<open>Headers and checksums\<close>

type_synonym PageID = "64 word"

definition IndexPageSize :: nat where
  "IndexPageSize = 16384"

record PageHeader =
  ph_Magic :: "32 word"
  ph_Version :: "16 word"
  ph_PageType :: byte
  ph_Flags :: byte
  ph_PageID :: PageID
  ph_Generation :: "64 word"
  ph_CellCount :: "16 word"
  ph_FreeStart :: "16 word"
  ph_FreeEnd :: "16 word"
  ph_RightSibling :: PageID
  ph_Checksum :: "32 word"

definition PageTypeInternal :: byte where "PageTypeInternal = 1"
definition PageTypeLeaf :: byte where "PageTypeLeaf = 2"
definition PageTypeCatalog :: byte where "PageTypeCatalog = 4"

definition emptyPage :: bytes where
  "emptyPage = replicate IndexPageSize 0"

definition headerBytes :: "PageHeader \<Rightarrow> bytes" where
  "headerBytes header =
     PutUint32 (ph_Magic header) @ PutUint16 (ph_Version header) @ [ph_PageType header, ph_Flags header]
     @ PutUint64 (ph_PageID header) @ PutUint64 (ph_Generation header)
     @ PutUint16 (ph_CellCount header) @ PutUint16 (ph_FreeStart header) @ PutUint16 (ph_FreeEnd header)
     @ PutUint64 (ph_RightSibling header) @ PutUint32 (ph_Checksum header) @ replicate 6 0"

definition writeHeader :: "bytes \<Rightarrow> PageHeader \<Rightarrow> bytes" where
  "writeHeader page header = splice page 0 (headerBytes header)"

definition readHeader :: "bytes \<Rightarrow> PageHeader" where
  "readHeader buffer =
     \<lparr>ph_Magic = Uint32 (sub buffer 0 4),
      ph_Version = Uint16 (sub buffer 4 2),
      ph_PageType = buffer ! 6,
      ph_Flags = buffer ! 7,
      ph_PageID = Uint64 (sub buffer 8 8),
      ph_Generation = Uint64 (sub buffer 16 8),
      ph_CellCount = Uint16 (sub buffer 24 2),
      ph_FreeStart = Uint16 (sub buffer 26 2),
      ph_FreeEnd = Uint16 (sub buffer 28 2),
      ph_RightSibling = Uint64 (sub buffer 30 8),
      ph_Checksum = Uint32 (sub buffer 38 4)\<rparr>"

definition updateChecksum :: "bytes \<Rightarrow> bytes" where
  "updateChecksum page =
     (let cleared = splice page 38 (PutUint32 0)
      in splice cleared 38 (PutUint32 (crc32c cleared)))"

text \<open>\<open>validateChecksum\<close> restores the stored checksum before it returns, so it only reads.\<close>

definition validateChecksum :: "bytes \<Rightarrow> unit res" where
  "validateChecksum page =
     (let storedChecksum = Uint32 (sub page 38 4);
          computedChecksum = crc32c (splice page 38 (PutUint32 0))
      in if computedChecksum \<noteq> storedChecksum then Err PageChecksumError else Ok ())"

section \<open>Reading and writing pages\<close>

definition pageOffset :: "PageID \<Rightarrow> int" where
  "pageOffset pageID = sint (pageID * of_nat IndexPageSize :: 64 word)"

definition readPage :: "osFile \<Rightarrow> bytes \<Rightarrow> PageID \<Rightarrow> bytes res" where
  "readPage file disk pageID =
     (case file of
        NilFile \<Rightarrow> Err OsErrInvalid
      | _ \<Rightarrow>
          (case file_ReadAt file disk IndexPageSize (pageOffset pageID) None of
             Ok page \<Rightarrow> bindR (validateChecksum page) (\<lambda>_. Ok page)
           | Err e \<Rightarrow> if e = IoEOF then Err IoErrUnexpectedEOF else Err e
           | Panic p \<Rightarrow> Panic p
           | NoFuel \<Rightarrow> NoFuel))"

definition writePage :: "osFile \<Rightarrow> bytes \<Rightarrow> PageID \<Rightarrow> bytes \<Rightarrow> write_outcome \<Rightarrow> unit res \<times> bytes" where
  "writePage file disk pageID page outcome =
     (if length page \<noteq> IndexPageSize then (Err InvalidPageSizeError, disk)
      else if file = NilFile then (Err OsErrInvalid, disk)
      else case file_WriteAt file disk (updateChecksum page) (pageOffset pageID) outcome of
             (Ok bytesWritten, disk') \<Rightarrow>
               (if bytesWritten \<noteq> IndexPageSize then Err IoErrShortWrite else Ok (), disk')
           | (r, disk') \<Rightarrow> (bindR r (\<lambda>_. Ok ()), disk'))"

section \<open>The superblock\<close>

record Superblock =
  sb_Magic :: "32 word"
  sb_Version :: "16 word"
  sb_PageSize :: "32 word"
  sb_Generation :: "64 word"
  CatalogRootPageID :: PageID
  NextPageID :: PageID
  sb_Checksum :: "32 word"

definition SuperblockMagic :: "32 word" where
  "SuperblockMagic = 0x4d4b5342"

definition serializeSuperblock :: "Superblock \<Rightarrow> bytes" where
  "serializeSuperblock superblock =
     splice emptyPage 0
       (PutUint32 (sb_Magic superblock) @ PutUint16 (sb_Version superblock)
        @ PutUint32 (sb_PageSize superblock) @ PutUint64 (sb_Generation superblock)
        @ PutUint64 (CatalogRootPageID superblock) @ PutUint64 (NextPageID superblock))"

definition deserializeSuperblock :: "bytes \<Rightarrow> Superblock res" where
  "deserializeSuperblock page =
     (if length page \<noteq> IndexPageSize then Err InvalidPageSizeError
      else
        let superblock = \<lparr>sb_Magic = Uint32 (sub page 0 4), sb_Version = Uint16 (sub page 4 2),
              sb_PageSize = Uint32 (sub page 6 4), sb_Generation = Uint64 (sub page 10 8),
              CatalogRootPageID = Uint64 (sub page 18 8), NextPageID = Uint64 (sub page 26 8),
              sb_Checksum = Uint32 (sub page 38 4)\<rparr>
        in if sb_Magic superblock \<noteq> SuperblockMagic then Err InvalidSuperblockMagic
           else Ok superblock)"

section \<open>The catalog\<close>

record IndexRoot =
  ir_Name :: string
  RootPageID :: PageID
  ir_Generation :: "64 word"
  ir_Unique :: bool
  ir_Ordered :: bool

definition CatalogMagic :: "32 word" where
  "CatalogMagic = 0x4d4b4341"

definition catalogHeader :: "IndexRoot list \<Rightarrow> PageID \<Rightarrow> 64 word \<Rightarrow> PageHeader" where
  "catalogHeader roots pageID generation =
     \<lparr>ph_Magic = CatalogMagic, ph_Version = 1, ph_PageType = PageTypeCatalog, ph_Flags = 0,
      ph_PageID = pageID, ph_Generation = generation, ph_CellCount = of_nat (length roots),
      ph_FreeStart = 0, ph_FreeEnd = 0, ph_RightSibling = 0, ph_Checksum = 0\<rparr>"

definition rootBytes :: "IndexRoot \<Rightarrow> bytes" where
  "rootBytes root =
     PutUint16 (of_nat (length (ir_Name root))) @ string_bytes (ir_Name root)
     @ PutUint64 (RootPageID root) @ PutUint64 (ir_Generation root)
     @ [if ir_Unique root then 1 else 0] @ [if ir_Ordered root then 1 else 0]"

text \<open>One turn of the loop over the roots: the page and the offset behind the entry.\<close>

definition writeRoot :: "bytes \<times> nat \<Rightarrow> IndexRoot \<Rightarrow> (bytes \<times> nat) res" where
  "writeRoot s root =
     (case s of (page, offset) \<Rightarrow>
       let nameLength = length (ir_Name root) in
       if offset + 2 + nameLength + 8 + 8 + 1 + 1 > IndexPageSize - 4 then Err CatalogPageOverflow
       else Ok (splice page offset (rootBytes root), offset + (2 + nameLength) + 8 + 8 + 1 + 1))"

definition serializeCatalog :: "IndexRoot list \<Rightarrow> PageID list \<Rightarrow> PageID \<Rightarrow> 64 word \<Rightarrow> bytes res" where
  "serializeCatalog roots freeList pageID generation =
     bindR (foldR writeRoot (writeHeader emptyPage (catalogHeader roots pageID generation), 48) roots)
       (\<lambda>(page, offset).
          let maxFreeIDs = (IndexPageSize - 4 - offset - 4) div 8;
              kept = (if length freeList > maxFreeIDs then take maxFreeIDs freeList else freeList);
              page1 = splice page offset (PutUint32 (of_nat (length kept)));
              page2 = splice page1 (offset + 4) (concat (map PutUint64 kept))
          in Ok (updateChecksum page2))"

text \<open>\<^verbatim>\<open>page[a:b]\<close> followed by a fixed-width read.\<close>

definition getU16 :: "bytes \<Rightarrow> nat \<Rightarrow> (16 word) res" where
  "getU16 page off = mapR Uint16 (slice page off (off + 2))"

definition getU32 :: "bytes \<Rightarrow> nat \<Rightarrow> (32 word) res" where
  "getU32 page off = mapR Uint32 (slice page off (off + 4))"

definition getU64 :: "bytes \<Rightarrow> nat \<Rightarrow> (64 word) res" where
  "getU64 page off = mapR Uint64 (slice page off (off + 8))"

fun readRoots :: "bytes \<Rightarrow> nat \<Rightarrow> nat \<Rightarrow> (IndexRoot list \<times> nat) res" where
  "readRoots page offset 0 = Ok ([], offset)"
| "readRoots page offset (Suc n) =
     bindR (getU16 page offset) (\<lambda>len.
       let nameLength = unat len; o1 = offset + 2 in
       bindR (slice page o1 (o1 + nameLength)) (\<lambda>name.
         let o2 = o1 + nameLength in
         bindR (getU64 page o2) (\<lambda>rootPageID.
           bindR (getU64 page (o2 + 8)) (\<lambda>generation.
             bindR (index_at page (o2 + 16)) (\<lambda>unique.
               bindR (index_at page (o2 + 17)) (\<lambda>ordered.
                 bindR (readRoots page (o2 + 18) n) (\<lambda>(roots, offset').
                   Ok (\<lparr>ir_Name = bytes_string name, RootPageID = rootPageID, ir_Generation = generation,
                        ir_Unique = (unique = 1), ir_Ordered = (ordered = 1)\<rparr> # roots, offset'))))))))"

fun readFree :: "bytes \<Rightarrow> nat \<Rightarrow> nat \<Rightarrow> PageID list res" where
  "readFree page offset 0 = Ok []"
| "readFree page offset (Suc n) =
     bindR (getU64 page offset) (\<lambda>freeID.
       bindR (readFree page (offset + 8) n) (\<lambda>rest. Ok (freeID # rest)))"

definition deserializeCatalog :: "bytes \<Rightarrow> (IndexRoot list \<times> PageID list) res" where
  "deserializeCatalog page =
     bindR (validateChecksum page) (\<lambda>_.
       let header = readHeader page in
       if ph_Magic header \<noteq> CatalogMagic then Err InvalidCatalogMagic
       else
         bindR (readRoots page 48 (unat (ph_CellCount header))) (\<lambda>(roots, offset).
           if offset + 4 \<le> IndexPageSize - 4 then
             bindR (getU32 page offset) (\<lambda>count.
               let freeCount = unat count in
               if offset + 4 + 8 * freeCount \<le> IndexPageSize - 4 then
                 bindR (readFree page (offset + 4) freeCount) (\<lambda>freeList. Ok (roots, freeList))
               else Ok (roots, []))
           else Ok (roots, [])))"

section \<open>Node pages\<close>

record BPlusNode =
  nd_PageID :: PageID
  nd_PageType :: byte
  nd_Generation :: "64 word"
  nd_Keys :: "bytes list"
  nd_Pointers :: "RecordPointer list"
  nd_Children :: "PageID list"
  nd_RightSibling :: PageID

definition NodeMagic :: "32 word" where
  "NodeMagic = 0x4d4b4958"

definition leafCell :: "bytes \<Rightarrow> RecordPointer \<Rightarrow> bytes" where
  "leafCell key ptr =
     PutUint16 (of_nat (length key)) @ key @ PutUint64 (Offset ptr) @ PutUint32 (Size ptr)"

definition internalCell :: "bytes \<Rightarrow> PageID \<Rightarrow> bytes" where
  "internalCell key child = PutUint64 child @ PutUint16 (of_nat (length key)) @ key"

definition cellData :: "BPlusNode \<Rightarrow> nat \<Rightarrow> bytes res" where
  "cellData node index =
     (if nd_PageType node = PageTypeLeaf then
        bindR (index_at (nd_Pointers node) index) (\<lambda>ptr. Ok (leafCell (nd_Keys node ! index) ptr))
      else
        bindR (index_at (nd_Children node) index) (\<lambda>child. Ok (internalCell (nd_Keys node ! index) child)))"

text \<open>\<^verbatim>\<open>copy(page[freeEnd:], cellData)\<close>.\<close>

definition copyInto :: "bytes \<Rightarrow> nat \<Rightarrow> bytes \<Rightarrow> bytes res" where
  "copyInto page off cell =
     (if off \<le> length page then Ok (splice page off (take (length page - off) cell))
      else Panic SliceOutOfRange)"

text \<open>The loop over the keys, from key \<open>index\<close> on: the page, the lower end of the cells, and the
  offset of each cell.\<close>

fun writeCells ::
  "BPlusNode \<Rightarrow> 16 word \<Rightarrow> nat list \<Rightarrow> bytes \<Rightarrow> 16 word \<Rightarrow> (bytes \<times> 16 word \<times> 16 word list) res"
where
  "writeCells node freeStart [] page freeEnd = Ok (page, freeEnd, [])"
| "writeCells node freeStart (index # rest) page freeEnd =
     bindR (cellData node index) (\<lambda>cell.
       if freeEnd - freeStart < of_nat (length cell) then Err PageOverflow
       else
         let freeEnd' = freeEnd - of_nat (length cell) in
         bindR (copyInto page (unat freeEnd') cell) (\<lambda>page'.
           bindR (writeCells node freeStart rest page' freeEnd') (\<lambda>(p, fe, offsets).
             Ok (p, fe, freeEnd' # offsets))))"

text \<open>The cell directory behind the header; the positions are 16-bit words.\<close>

fun writeOffsets :: "bytes \<Rightarrow> nat \<Rightarrow> 16 word list \<Rightarrow> bytes res" where
  "writeOffsets page index [] = Ok page"
| "writeOffsets page index (offsetValue # rest) =
     (let at = (48 + 2 * of_nat index) :: 16 word in
      bindR (slice page (unat at) (unat (at + 2))) (\<lambda>_.
        writeOffsets (splice page (unat at) (PutUint16 offsetValue)) (Suc index) rest))"

definition nodeHeader :: "BPlusNode \<Rightarrow> 16 word \<Rightarrow> 16 word \<Rightarrow> PageHeader" where
  "nodeHeader node freeStart freeEnd =
     \<lparr>ph_Magic = NodeMagic, ph_Version = 1, ph_PageType = nd_PageType node, ph_Flags = 0,
      ph_PageID = nd_PageID node, ph_Generation = nd_Generation node,
      ph_CellCount = of_nat (length (nd_Keys node)),
      ph_FreeStart = freeStart, ph_FreeEnd = freeEnd,
      ph_RightSibling =
        (if nd_PageType node = PageTypeInternal \<and> nd_Children node \<noteq> [] then last (nd_Children node)
         else nd_RightSibling node),
      ph_Checksum = 0\<rparr>"

definition Serialize :: "BPlusNode \<Rightarrow> bytes res" where
  "Serialize node =
     (let freeStart = (48 + 2 * of_nat (length (nd_Keys node))) :: 16 word;
          freeEnd = of_nat IndexPageSize :: 16 word
      in bindR (writeCells node freeStart [0..<length (nd_Keys node)] emptyPage freeEnd)
           (\<lambda>(page, fe, offsets).
              bindR (writeOffsets (writeHeader page (nodeHeader node freeStart fe)) 0 offsets)
                (\<lambda>page'. Ok (updateChecksum page'))))"

text \<open>Slices of a node page between 16-bit positions.\<close>

definition sliceW :: "bytes \<Rightarrow> 16 word \<Rightarrow> 16 word \<Rightarrow> bytes res" where
  "sliceW page a b = slice page (unat a) (unat b)"

definition readOffset :: "bytes \<Rightarrow> nat \<Rightarrow> (16 word) res" where
  "readOffset page index =
     (let at = (48 + 2 * of_nat index) :: 16 word in mapR Uint16 (sliceW page at (at + 2)))"

definition readLeafCell :: "bytes \<Rightarrow> 16 word \<Rightarrow> (bytes \<times> RecordPointer) res" where
  "readLeafCell page offsetValue =
     bindR (mapR Uint16 (sliceW page offsetValue (offsetValue + 2))) (\<lambda>keyLength.
       bindR (sliceW page (offsetValue + 2) (offsetValue + 2 + keyLength)) (\<lambda>key.
         bindR (mapR Uint64 (sliceW page (offsetValue + 2 + keyLength) (offsetValue + 2 + keyLength + 8)))
           (\<lambda>pointerOffset.
             bindR (mapR Uint32 (sliceW page (offsetValue + 2 + keyLength + 8) (offsetValue + 2 + keyLength + 12)))
               (\<lambda>pointerSize. Ok (key, \<lparr>Offset = pointerOffset, Size = pointerSize\<rparr>)))))"

definition readInternalCell :: "bytes \<Rightarrow> 16 word \<Rightarrow> (bytes \<times> PageID) res" where
  "readInternalCell page offsetValue =
     bindR (mapR Uint64 (sliceW page offsetValue (offsetValue + 8))) (\<lambda>childID.
       bindR (mapR Uint16 (sliceW page (offsetValue + 8) (offsetValue + 10))) (\<lambda>keyLength.
         bindR (sliceW page (offsetValue + 10) (offsetValue + 10 + keyLength)) (\<lambda>key. Ok (key, childID))))"

fun mapM :: "('a \<Rightarrow> 'b res) \<Rightarrow> 'a list \<Rightarrow> 'b list res" where
  "mapM f [] = Ok []"
| "mapM f (x # xs) = bindR (f x) (\<lambda>y. bindR (mapM f xs) (\<lambda>ys. Ok (y # ys)))"

definition DeserializeNode :: "bytes \<Rightarrow> BPlusNode res" where
  "DeserializeNode page =
     bindR (validateChecksum page) (\<lambda>_.
       let header = readHeader page in
       if ph_Magic header \<noteq> NodeMagic then Err InvalidPageMagic
       else
         bindR (mapM (readOffset page) [0..<unat (ph_CellCount header)]) (\<lambda>offsets.
           if ph_PageType header = PageTypeLeaf then
             bindR (mapM (readLeafCell page) offsets) (\<lambda>cells.
               Ok \<lparr>nd_PageID = ph_PageID header, nd_PageType = ph_PageType header,
                   nd_Generation = ph_Generation header, nd_Keys = map fst cells,
                   nd_Pointers = map snd cells, nd_Children = [], nd_RightSibling = ph_RightSibling header\<rparr>)
           else
             bindR (mapM (readInternalCell page) offsets) (\<lambda>cells.
               Ok \<lparr>nd_PageID = ph_PageID header, nd_PageType = ph_PageType header,
                   nd_Generation = ph_Generation header, nd_Keys = map fst cells, nd_Pointers = [],
                   nd_Children = map snd cells @ [ph_RightSibling header],
                   nd_RightSibling = ph_RightSibling header\<rparr>)))"

end
