(* ===== verification/BPlusTree.thy ===== *)
theory BPlusTree
  imports Page Keys
begin

text \<open>
  The disk B+ tree of \<^verbatim>\<open>src/bplus_tree.go\<close> (lines 530 to 1428): opening, the node cache, page
  allocation, writing a new state, and the search, insertion, deletion and range operations on
  a named index.

  The state is the Go struct with the contents of the index file and the list \<open>bt_io\<close> of the
  outcomes of the next page writes (a write behind the end of the list succeeds). Operations
  are functions from the state to a result and the state, which an error leaves as far as the
  code had changed it. A cached node is a Go pointer: changing a node in place changes the
  cache entry it was found under. Loops and recursion down the tree take a bound \<open>fuel\<close>; the
  theorems show that any bound above the height of the tree is enough.
\<close>

section \<open>State and combinators\<close>

record DiskBPlusTree =
  bt_file :: osFile
  bt_disk :: bytes
  bt_io :: "write_outcome list"
  nextPageID :: PageID
  bt_generation :: "64 word"
  bt_catalog :: "(string \<times> IndexRoot) list"
  catalogRoot :: PageID
  nodeCache :: "PageID \<rightharpoonup> BPlusNode"
  dirtyNodes :: "PageID list"
  freeList :: "PageID list"
  orphanedList :: "PageID list"

text \<open>The order in which Go ranges over the catalog and over the set of dirty pages.\<close>

record map_order =
  mo_roots :: "IndexRoot list \<Rightarrow> IndexRoot list"
  mo_dirty :: "PageID list \<Rightarrow> PageID list"

type_synonym 'a tree_op = "DiskBPlusTree \<Rightarrow> 'a res \<times> DiskBPlusTree"

definition returnT :: "'a \<Rightarrow> 'a tree_op" where
  "returnT x t = (Ok x, t)"

definition liftT :: "'a res \<Rightarrow> 'a tree_op" where
  "liftT r t = (r, t)"

definition bindT :: "'a tree_op \<Rightarrow> ('a \<Rightarrow> 'b tree_op) \<Rightarrow> 'b tree_op" where
  "bindT m f t = (case m t of
      (Ok x, t') \<Rightarrow> f x t'
    | (Err e, t') \<Rightarrow> (Err e, t')
    | (Panic p, t') \<Rightarrow> (Panic p, t')
    | (NoFuel, t') \<Rightarrow> (NoFuel, t'))"

definition modifyT :: "(DiskBPlusTree \<Rightarrow> DiskBPlusTree) \<Rightarrow> unit tree_op" where
  "modifyT f t = (Ok (), f t)"

lemma bindT_cong [fundef_cong]:
  "m t = m' t' \<Longrightarrow> (\<And>x s. m' t' = (Ok x, s) \<Longrightarrow> f x s = g x s) \<Longrightarrow> bindT m f t = bindT m' g t'"
  by (auto simp: bindT_def split: prod.splits res.splits)

text \<open>Go's slice idioms for inserting and removing an element at an index.\<close>

definition insertAt :: "nat \<Rightarrow> 'a \<Rightarrow> 'a list \<Rightarrow> 'a list res" where
  "insertAt i x xs = (if i \<le> length xs then Ok (take i xs @ x # drop i xs) else Panic SliceOutOfRange)"

definition setAt :: "nat \<Rightarrow> 'a \<Rightarrow> 'a list \<Rightarrow> 'a list res" where
  "setAt i x xs = (if i < length xs then Ok (xs[i := x]) else Panic IndexOutOfRange)"

definition removeAt :: "nat \<Rightarrow> 'a list \<Rightarrow> 'a list res" where
  "removeAt i xs = (if i < length xs then Ok (take i xs @ drop (Suc i) xs) else Panic SliceOutOfRange)"

section \<open>Opening\<close>

definition initialSuperblock :: Superblock where
  "initialSuperblock = \<lparr>sb_Magic = SuperblockMagic, sb_Version = 1, sb_PageSize = of_nat IndexPageSize,
     sb_Generation = 1, CatalogRootPageID = 2, NextPageID = 3, sb_Checksum = 0\<rparr>"

definition nextOutcome :: "write_outcome list \<Rightarrow> write_outcome" where
  "nextOutcome io = (case io of [] \<Rightarrow> WOk | w # _ \<Rightarrow> w)"

definition writePageT :: "PageID \<Rightarrow> bytes \<Rightarrow> unit tree_op" where
  "writePageT pageID page t =
     (case writePage (bt_file t) (bt_disk t) pageID page (nextOutcome (bt_io t)) of
        (r, disk) \<Rightarrow> (r, t\<lparr>bt_disk := disk, bt_io := tl (bt_io t)\<rparr>))"

text \<open>Reading one of the two superblock slots.\<close>

definition readSuperblock :: "osFile \<Rightarrow> bytes \<Rightarrow> PageID \<Rightarrow> Superblock res" where
  "readSuperblock file disk slot = bindR (readPage file disk slot) deserializeSuperblock"

definition activeSuperblock :: "Superblock res \<Rightarrow> Superblock res \<Rightarrow> Superblock res" where
  "activeSuperblock a b =
     (case a of
        Ok superblockA \<Rightarrow>
          (case b of
             Ok superblockB \<Rightarrow>
               if sb_Generation superblockA \<ge> sb_Generation superblockB then Ok superblockA else Ok superblockB
           | Err _ \<Rightarrow> Ok superblockA
           | Panic p \<Rightarrow> Panic p
           | NoFuel \<Rightarrow> NoFuel)
      | Err _ \<Rightarrow> (case b of Err _ \<Rightarrow> Err BothSuperblocksCorrupt | r \<Rightarrow> r)
      | Panic p \<Rightarrow> Panic p
      | NoFuel \<Rightarrow> NoFuel)"

definition emptyTree :: "osFile \<Rightarrow> bytes \<Rightarrow> write_outcome list \<Rightarrow> DiskBPlusTree" where
  "emptyTree file disk io = \<lparr>bt_file = file, bt_disk = disk, bt_io = io, nextPageID = 0, bt_generation = 0,
     bt_catalog = [], catalogRoot = 0, nodeCache = Map.empty, dirtyNodes = [], freeList = [], orphanedList = []\<rparr>"

definition initializeTree :: "unit tree_op" where
  "initializeTree =
     bindT (liftT (serializeCatalog [] [] 2 1)) (\<lambda>catalogBytes.
       bindT (writePageT 2 catalogBytes) (\<lambda>_.
         bindT (writePageT 0 (serializeSuperblock initialSuperblock)) (\<lambda>_.
           bindT (writePageT 1 emptyPage) (\<lambda>_.
             modifyT (\<lambda>t. t\<lparr>catalogRoot := 2, nextPageID := 3, bt_generation := 1\<rparr>)))))"

definition loadTree :: "unit tree_op" where
  "loadTree t =
     (case activeSuperblock (readSuperblock (bt_file t) (bt_disk t) 0) (readSuperblock (bt_file t) (bt_disk t) 1) of
        Ok active \<Rightarrow>
          bindT (liftT (bindR (readPage (bt_file t) (bt_disk t) (CatalogRootPageID active)) deserializeCatalog))
            (\<lambda>(roots, free). modifyT (\<lambda>t.
               t\<lparr>bt_catalog := foldl (\<lambda>c root. AList.update (ir_Name root) root c) (bt_catalog t) roots,
                 freeList := free, catalogRoot := CatalogRootPageID active,
                 nextPageID := NextPageID active, bt_generation := sb_Generation active\<rparr>)) t
      | Err e \<Rightarrow> (Err e, t)
      | Panic p \<Rightarrow> (Panic p, t)
      | NoFuel \<Rightarrow> (NoFuel, t))"

definition NewDiskBPlusTree ::
  "osFile \<Rightarrow> bytes \<Rightarrow> error option \<Rightarrow> write_outcome list \<Rightarrow> unit res \<times> DiskBPlusTree"
where
  "NewDiskBPlusTree file disk statOutcome io =
     (case statOutcome of
        Some e \<Rightarrow> (Err e, emptyTree file disk io)
      | None \<Rightarrow> if length disk = 0 then initializeTree (emptyTree file disk io)
                else loadTree (emptyTree file disk io))"

section \<open>Nodes and pages\<close>

definition getNode :: "PageID \<Rightarrow> BPlusNode tree_op" where
  "getNode pageID t =
     (case nodeCache t pageID of
        Some node \<Rightarrow> (Ok node, t)
      | None \<Rightarrow>
          (case bindR (readPage (bt_file t) (bt_disk t) pageID) DeserializeNode of
             Ok node \<Rightarrow> (Ok node, t\<lparr>nodeCache := (nodeCache t)(pageID \<mapsto> node)\<rparr>)
           | Err e \<Rightarrow> (Err e, t)
           | Panic p \<Rightarrow> (Panic p, t)
           | NoFuel \<Rightarrow> (NoFuel, t)))"

definition markDirty :: "PageID \<Rightarrow> unit tree_op" where
  "markDirty pageID = modifyT (\<lambda>t. t\<lparr>dirtyNodes := List.insert pageID (dirtyNodes t)\<rparr>)"

definition registerNewNode :: "BPlusNode \<Rightarrow> unit tree_op" where
  "registerNewNode node = modifyT (\<lambda>t.
     t\<lparr>nodeCache := (nodeCache t)(nd_PageID node \<mapsto> node),
       dirtyNodes := List.insert (nd_PageID node) (dirtyNodes t)\<rparr>)"

text \<open>An assignment through the node pointer cached under \<open>at\<close>.\<close>

definition putNode :: "PageID \<Rightarrow> BPlusNode \<Rightarrow> unit tree_op" where
  "putNode at node = modifyT (\<lambda>t. t\<lparr>nodeCache := (nodeCache t)(at \<mapsto> node)\<rparr>)"

definition markOrphaned :: "PageID \<Rightarrow> unit tree_op" where
  "markOrphaned pageID = modifyT (\<lambda>t.
     if pageID < 3 then t else t\<lparr>orphanedList := orphanedList t @ [pageID]\<rparr>)"

definition allocatePageID :: "PageID tree_op" where
  "allocatePageID t =
     (if freeList t \<noteq> [] then (Ok (last (freeList t)), t\<lparr>freeList := butlast (freeList t)\<rparr>)
      else (Ok (nextPageID t), t\<lparr>nextPageID := nextPageID t + 1\<rparr>))"

section \<open>Writing a new state\<close>

fun writeDirty :: "(PageID \<times> BPlusNode option) list \<Rightarrow> unit tree_op" where
  "writeDirty [] = returnT ()"
| "writeDirty ((pageID, node) # rest) =
     (case node of
        None \<Rightarrow> writeDirty rest
      | Some n \<Rightarrow>
          bindT (liftT (Serialize n)) (\<lambda>serialized.
            bindT (writePageT pageID serialized) (\<lambda>_. writeDirty rest)))"

text \<open>The superblock slot to overwrite: an unreadable one, else the older one.\<close>

definition targetSlot :: "Superblock res \<Rightarrow> Superblock res \<Rightarrow> PageID res" where
  "targetSlot a b =
     (case a of
        Ok oldSuperblockA \<Rightarrow>
          (case b of
             Ok oldSuperblockB \<Rightarrow>
               if sb_Generation oldSuperblockA \<le> sb_Generation oldSuperblockB then Ok 0 else Ok 1
           | Err _ \<Rightarrow> Ok 1
           | Panic p \<Rightarrow> Panic p
           | NoFuel \<Rightarrow> NoFuel)
      | Err _ \<Rightarrow> Ok 0
      | Panic p \<Rightarrow> Panic p
      | NoFuel \<Rightarrow> NoFuel)"

definition newSuperblock :: "PageID \<Rightarrow> 64 word \<Rightarrow> DiskBPlusTree \<Rightarrow> Superblock" where
  "newSuperblock catalogPageID generation t = \<lparr>sb_Magic = SuperblockMagic, sb_Version = 1,
     sb_PageSize = of_nat IndexPageSize, sb_Generation = generation, CatalogRootPageID = catalogPageID,
     NextPageID = nextPageID t, sb_Checksum = 0\<rparr>"

definition writeSuperblock :: "PageID \<Rightarrow> 64 word \<Rightarrow> unit tree_op" where
  "writeSuperblock catalogPageID generation t =
     bindT (liftT (targetSlot (readSuperblock (bt_file t) (bt_disk t) 0) (readSuperblock (bt_file t) (bt_disk t) 1)))
       (\<lambda>targetPageID.
         bindT (writePageT targetPageID (serializeSuperblock (newSuperblock catalogPageID generation t)))
           (\<lambda>_. modifyT (\<lambda>t. t\<lparr>catalogRoot := catalogPageID, bt_generation := generation\<rparr>))) t"

definition writeNewStateLocked :: "map_order \<Rightarrow> 64 word \<Rightarrow> unit tree_op" where
  "writeNewStateLocked order generation t =
     (let roots = mo_roots order (map snd (bt_catalog t)) in
      bindT (markOrphaned (catalogRoot t)) (\<lambda>_.
        bindT (modifyT (\<lambda>t. t\<lparr>freeList := freeList t @ orphanedList t, orphanedList := []\<rparr>)) (\<lambda>_ t1.
          let nodesToWrite = map (\<lambda>pageID. (pageID, nodeCache t1 pageID)) (mo_dirty order (dirtyNodes t1)) in
          bindT (modifyT (\<lambda>t. t\<lparr>dirtyNodes := []\<rparr>)) (\<lambda>_.
            bindT (writeDirty nodesToWrite) (\<lambda>_.
              bindT allocatePageID (\<lambda>catalogPageID t2.
                bindT (liftT (serializeCatalog roots (freeList t2) catalogPageID generation)) (\<lambda>catalogBytes.
                  bindT (writePageT catalogPageID catalogBytes) (\<lambda>_.
                    writeSuperblock catalogPageID generation)) t2))) t1)) t)"

section \<open>Search\<close>

text \<open>The two searches inside a node: the first key not below, and the first key above.\<close>

definition searchGE :: "(gval \<Rightarrow> string) \<Rightarrow> bytes list \<Rightarrow> bytes \<Rightarrow> nat res" where
  "searchGE fmt keys key = sort_Search (length keys)
     (\<lambda>i. bindR (index_at keys i) (\<lambda>a. mapR (\<lambda>c. c \<ge> 0) (compareByteKeys fmt a key)))"

definition searchGT :: "(gval \<Rightarrow> string) \<Rightarrow> bytes list \<Rightarrow> bytes \<Rightarrow> nat res" where
  "searchGT fmt keys key = sort_Search (length keys)
     (\<lambda>i. bindR (index_at keys i) (\<lambda>a. mapR (\<lambda>c. c > 0) (compareByteKeys fmt a key)))"

definition findInLeaf :: "(gval \<Rightarrow> string) \<Rightarrow> BPlusNode \<Rightarrow> bytes \<Rightarrow> RecordPointer option res" where
  "findInLeaf fmt node key =
     bindR (searchGE fmt (nd_Keys node) key) (\<lambda>index.
       if index < length (nd_Keys node) \<and> nd_Keys node ! index = key
       then mapR Some (index_at (nd_Pointers node) index)
       else Ok None)"

definition childIndex :: "(gval \<Rightarrow> string) \<Rightarrow> BPlusNode \<Rightarrow> bytes \<Rightarrow> (nat \<times> PageID) res" where
  "childIndex fmt node key =
     bindR (searchGT fmt (nd_Keys node) key) (\<lambda>index.
       bindR (index_at (nd_Children node) index) (\<lambda>childID. Ok (index, childID)))"

fun findLoop :: "(gval \<Rightarrow> string) \<Rightarrow> nat \<Rightarrow> PageID \<Rightarrow> bytes \<Rightarrow> RecordPointer option tree_op" where
  "findLoop fmt 0 currentPageID key = liftT NoFuel"
| "findLoop fmt (Suc fuel) currentPageID key =
     bindT (getNode currentPageID) (\<lambda>node.
       if nd_PageType node = PageTypeLeaf then liftT (findInLeaf fmt node key)
       else bindT (liftT (childIndex fmt node key)) (\<lambda>(index, childID). findLoop fmt fuel childID key))"

text \<open>The Go result \<^verbatim>\<open>(RecordPointer{}, false, nil)\<close> is \<open>None\<close>.\<close>

definition FindNamed :: "(gval \<Rightarrow> string) \<Rightarrow> nat \<Rightarrow> string \<Rightarrow> bytes \<Rightarrow> RecordPointer option tree_op" where
  "FindNamed fmt fuel indexName key t =
     (case map_of (bt_catalog t) indexName of
        None \<Rightarrow> (Ok None, t)
      | Some rootEntry \<Rightarrow> findLoop fmt fuel (RootPageID rootEntry) key t)"

section \<open>Insertion\<close>

definition newNodeLike :: "BPlusNode \<Rightarrow> PageID \<Rightarrow> 64 word \<Rightarrow> BPlusNode" where
  "newNodeLike node pageID generation = \<lparr>nd_PageID = pageID, nd_PageType = nd_PageType node,
     nd_Generation = generation, nd_Keys = [], nd_Pointers = [], nd_Children = [],
     nd_RightSibling = nd_RightSibling node\<rparr>"

text \<open>Copy-on-write: a node of the current generation is changed in place, any other gets a fresh
  page. The result is where the working node is cached, and the node.\<close>

definition shadowNode :: "PageID \<Rightarrow> BPlusNode \<Rightarrow> 64 word \<Rightarrow> (PageID \<times> BPlusNode) tree_op" where
  "shadowNode currentPageID node generation =
     (if nd_Generation node = generation then
        bindT (markDirty (nd_PageID node)) (\<lambda>_. returnT (currentPageID, node))
      else
        bindT allocatePageID (\<lambda>pageID.
          bindT (registerNewNode (newNodeLike node pageID generation)) (\<lambda>_.
            bindT (markOrphaned (nd_PageID node)) (\<lambda>_.
              returnT (pageID, newNodeLike node pageID generation)))))"

definition insertIntoLeaf :: "(gval \<Rightarrow> string) \<Rightarrow> BPlusNode \<Rightarrow> bytes \<Rightarrow> RecordPointer \<Rightarrow> BPlusNode res" where
  "insertIntoLeaf fmt newNode key pointer =
     bindR (searchGE fmt (nd_Keys newNode) key) (\<lambda>index.
       if index < length (nd_Keys newNode) \<and> nd_Keys newNode ! index = key then
         bindR (setAt index pointer (nd_Pointers newNode)) (\<lambda>pointers.
           Ok (newNode\<lparr>nd_Pointers := pointers\<rparr>))
       else
         bindR (insertAt index key (nd_Keys newNode)) (\<lambda>keys.
           bindR (insertAt index pointer (nd_Pointers newNode)) (\<lambda>pointers.
             Ok (newNode\<lparr>nd_Keys := keys, nd_Pointers := pointers\<rparr>))))"

text \<open>The result of an insertion into a subtree: its new page, and the separator key and the page
  of the right half when it was split.\<close>

type_synonym insert_result = "PageID \<times> (bytes \<times> PageID) option"

definition splitLeaf :: "PageID \<Rightarrow> BPlusNode \<Rightarrow> 64 word \<Rightarrow> insert_result tree_op" where
  "splitLeaf at newNode generation =
     (let midpoint = length (nd_Keys newNode) div 2 in
      bindT allocatePageID (\<lambda>rightID.
        bindT (liftT (slice (nd_Pointers newNode) midpoint (length (nd_Pointers newNode)))) (\<lambda>rightPointers.
          let rightNode = \<lparr>nd_PageID = rightID, nd_PageType = PageTypeLeaf, nd_Generation = generation,
                nd_Keys = drop midpoint (nd_Keys newNode), nd_Pointers = rightPointers, nd_Children = [],
                nd_RightSibling = nd_RightSibling newNode\<rparr> in
          bindT (registerNewNode rightNode) (\<lambda>_.
            bindT (putNode at (newNode\<lparr>nd_Keys := take midpoint (nd_Keys newNode),
                     nd_Pointers := take midpoint (nd_Pointers newNode), nd_RightSibling := rightID\<rparr>)) (\<lambda>_.
              bindT (markDirty (nd_PageID newNode)) (\<lambda>_.
                bindT (liftT (index_at (nd_Keys rightNode) 0)) (\<lambda>separatorKey.
                  returnT (nd_PageID newNode, Some (separatorKey, rightID)))))))))"

definition splitInternal :: "PageID \<Rightarrow> BPlusNode \<Rightarrow> 64 word \<Rightarrow> insert_result tree_op" where
  "splitInternal at newNode generation =
     (let midpoint = length (nd_Keys newNode) div 2 in
      bindT (liftT (index_at (nd_Keys newNode) midpoint)) (\<lambda>parentKey.
        bindT allocatePageID (\<lambda>rightID.
          bindT (liftT (slice (nd_Children newNode) (Suc midpoint) (length (nd_Children newNode)))) (\<lambda>rightChildren.
            let rightNode = \<lparr>nd_PageID = rightID, nd_PageType = PageTypeInternal, nd_Generation = generation,
                  nd_Keys = drop (Suc midpoint) (nd_Keys newNode), nd_Pointers = [], nd_Children = rightChildren,
                  nd_RightSibling = 0\<rparr> in
            bindT (registerNewNode rightNode) (\<lambda>_.
              bindT (putNode at (newNode\<lparr>nd_Keys := take midpoint (nd_Keys newNode),
                       nd_Children := take (Suc midpoint) (nd_Children newNode)\<rparr>)) (\<lambda>_.
                bindT (markDirty (nd_PageID newNode)) (\<lambda>_.
                  returnT (nd_PageID newNode, Some (parentKey, rightID)))))))))"

text \<open>A node that can be serialized stays whole, any other is split.\<close>

definition splitUnlessFits ::
  "(PageID \<Rightarrow> BPlusNode \<Rightarrow> 64 word \<Rightarrow> insert_result tree_op) \<Rightarrow> PageID \<Rightarrow> BPlusNode \<Rightarrow> 64 word \<Rightarrow> insert_result tree_op"
where
  "splitUnlessFits split at newNode generation =
     bindT (putNode at newNode) (\<lambda>_.
       case Serialize newNode of
         Ok _ \<Rightarrow> returnT (nd_PageID newNode, None)
       | Err _ \<Rightarrow> split at newNode generation
       | Panic p \<Rightarrow> liftT (Panic p)
       | NoFuel \<Rightarrow> liftT NoFuel)"

definition replaceChild :: "nat \<Rightarrow> insert_result \<Rightarrow> BPlusNode \<Rightarrow> BPlusNode res" where
  "replaceChild index r newNode =
     (case r of (newChildID, splitResult) \<Rightarrow>
       bindR (setAt index newChildID (nd_Children newNode)) (\<lambda>children.
         case splitResult of
           None \<Rightarrow> Ok (newNode\<lparr>nd_Children := children\<rparr>)
         | Some (separatorKey, rightChildID) \<Rightarrow>
             bindR (insertAt index separatorKey (nd_Keys newNode)) (\<lambda>keys.
               bindR (insertAt (Suc index) rightChildID children) (\<lambda>children'.
                 Ok (newNode\<lparr>nd_Keys := keys, nd_Children := children'\<rparr>)))))"

fun insertRecursive ::
  "(gval \<Rightarrow> string) \<Rightarrow> nat \<Rightarrow> PageID \<Rightarrow> bytes \<Rightarrow> RecordPointer \<Rightarrow> 64 word \<Rightarrow> insert_result tree_op"
where
  "insertRecursive fmt 0 currentPageID key pointer generation = liftT NoFuel"
| "insertRecursive fmt (Suc fuel) currentPageID key pointer generation =
     bindT (getNode currentPageID) (\<lambda>node.
       bindT (shadowNode currentPageID node generation) (\<lambda>(at, newNode).
         if nd_PageType node = PageTypeLeaf then
           bindT (liftT (insertIntoLeaf fmt
                    (newNode\<lparr>nd_Keys := nd_Keys node, nd_Pointers := nd_Pointers node\<rparr>) key pointer)) (\<lambda>newNode.
             splitUnlessFits splitLeaf at newNode generation)
         else
           bindT (liftT (childIndex fmt node key)) (\<lambda>(index, childID).
             bindT (insertRecursive fmt fuel childID key pointer generation) (\<lambda>r.
               bindT (liftT (replaceChild index r
                        (newNode\<lparr>nd_Keys := nd_Keys node, nd_Children := nd_Children node\<rparr>))) (\<lambda>newNode.
                 splitUnlessFits splitInternal at newNode generation)))))"

definition setRoot :: "string \<Rightarrow> PageID \<Rightarrow> 64 word \<Rightarrow> unit tree_op" where
  "setRoot indexName pageID generation = modifyT (\<lambda>t. t\<lparr>bt_catalog := AList.update indexName
     \<lparr>ir_Name = indexName, RootPageID = pageID, ir_Generation = generation, ir_Unique = False, ir_Ordered = False\<rparr>
     (bt_catalog t)\<rparr>)"

definition newLeaf :: "PageID \<Rightarrow> 64 word \<Rightarrow> BPlusNode" where
  "newLeaf pageID generation = \<lparr>nd_PageID = pageID, nd_PageType = PageTypeLeaf, nd_Generation = generation,
     nd_Keys = [], nd_Pointers = [], nd_Children = [], nd_RightSibling = 0\<rparr>"

definition newRootNode :: "PageID \<Rightarrow> 64 word \<Rightarrow> PageID \<Rightarrow> bytes \<Rightarrow> PageID \<Rightarrow> BPlusNode" where
  "newRootNode pageID generation leftID separatorKey rightID = \<lparr>nd_PageID = pageID, nd_PageType = PageTypeInternal,
     nd_Generation = generation, nd_Keys = [separatorKey], nd_Pointers = [], nd_Children = [leftID, rightID],
     nd_RightSibling = 0\<rparr>"

definition rootOrNew :: "string \<Rightarrow> 64 word \<Rightarrow> PageID tree_op" where
  "rootOrNew indexName generation t =
     (case map_of (bt_catalog t) indexName of
        Some rootEntry \<Rightarrow> (Ok (RootPageID rootEntry), t)
      | None \<Rightarrow>
          bindT allocatePageID (\<lambda>rootPageID.
            bindT (registerNewNode (newLeaf rootPageID generation)) (\<lambda>_.
              bindT (setRoot indexName rootPageID generation) (\<lambda>_. returnT rootPageID))) t)"

definition insertNamedNoCommitLocked ::
  "(gval \<Rightarrow> string) \<Rightarrow> nat \<Rightarrow> string \<Rightarrow> bytes \<Rightarrow> RecordPointer \<Rightarrow> 64 word \<Rightarrow> PageID tree_op"
where
  "insertNamedNoCommitLocked fmt fuel indexName key pointer generation =
     bindT (rootOrNew indexName generation) (\<lambda>rootPageID.
       bindT (insertRecursive fmt fuel rootPageID key pointer generation) (\<lambda>(newChildID, splitResult).
         bindT (case splitResult of
             None \<Rightarrow> returnT newChildID
           | Some (separatorKey, rightChildID) \<Rightarrow>
               bindT allocatePageID (\<lambda>newRootID.
                 bindT (registerNewNode (newRootNode newRootID generation newChildID separatorKey rightChildID))
                   (\<lambda>_. returnT newRootID)))
           (\<lambda>newRootID. bindT (setRoot indexName newRootID generation) (\<lambda>_. returnT newRootID))))"

text \<open>Running an operation and writing the new state; a failure clears the list of orphaned
  pages.\<close>

definition committing :: "map_order \<Rightarrow> 64 word \<Rightarrow> PageID tree_op \<Rightarrow> PageID tree_op" where
  "committing order generation op t =
     (case bindT (modifyT (\<lambda>t. t\<lparr>orphanedList := []\<rparr>)) (\<lambda>_.
             bindT op (\<lambda>newRootID. bindT (writeNewStateLocked order generation) (\<lambda>_. returnT newRootID))) t of
        (Err e, t') \<Rightarrow> (Err e, t'\<lparr>orphanedList := []\<rparr>)
      | r \<Rightarrow> r)"

definition InsertNamed ::
  "(gval \<Rightarrow> string) \<Rightarrow> map_order \<Rightarrow> nat \<Rightarrow> string \<Rightarrow> bytes \<Rightarrow> RecordPointer \<Rightarrow> 64 word \<Rightarrow> PageID tree_op"
where
  "InsertNamed fmt order fuel indexName key pointer generation =
     committing order generation (insertNamedNoCommitLocked fmt fuel indexName key pointer generation)"

definition InsertNamedNoCommit ::
  "(gval \<Rightarrow> string) \<Rightarrow> nat \<Rightarrow> string \<Rightarrow> bytes \<Rightarrow> RecordPointer \<Rightarrow> 64 word \<Rightarrow> PageID tree_op"
where
  "InsertNamedNoCommit = insertNamedNoCommitLocked"

section \<open>Deletion\<close>

text \<open>A sibling of the current generation is used in place, any other is copied with its
  contents.\<close>

definition shadowCopy :: "PageID \<Rightarrow> BPlusNode \<Rightarrow> 64 word \<Rightarrow> (PageID \<times> BPlusNode) tree_op" where
  "shadowCopy at node generation =
     (if nd_Generation node = generation then
        bindT (markDirty (nd_PageID node)) (\<lambda>_. returnT (at, node))
      else
        bindT allocatePageID (\<lambda>pageID.
          let newNode = (if nd_PageType node = PageTypeLeaf
                then (newNodeLike node pageID generation)\<lparr>nd_Keys := nd_Keys node, nd_Pointers := nd_Pointers node\<rparr>
                else (newNodeLike node pageID generation)\<lparr>nd_Keys := nd_Keys node, nd_Children := nd_Children node\<rparr>) in
          bindT (registerNewNode newNode) (\<lambda>_.
            bindT (markOrphaned (nd_PageID node)) (\<lambda>_. returnT (pageID, newNode)))))"

text \<open>The node changes of a merge and of moving one entry from the right sibling to the left
  one: the new parent, left and right nodes.\<close>

definition mergeLeaves :: "nat \<Rightarrow> BPlusNode \<Rightarrow> BPlusNode \<Rightarrow> BPlusNode \<Rightarrow> (BPlusNode \<times> BPlusNode) res" where
  "mergeLeaves leftIndex parent newLeft newRight =
     bindR (removeAt leftIndex (nd_Keys parent)) (\<lambda>keys.
       bindR (removeAt (Suc leftIndex) (nd_Children parent)) (\<lambda>children.
         Ok (parent\<lparr>nd_Keys := keys, nd_Children := children\<rparr>,
             newLeft\<lparr>nd_Keys := nd_Keys newLeft @ nd_Keys newRight,
                     nd_Pointers := nd_Pointers newLeft @ nd_Pointers newRight,
                     nd_RightSibling := nd_RightSibling newRight\<rparr>)))"

definition shiftLeaves ::
  "nat \<Rightarrow> BPlusNode \<Rightarrow> BPlusNode \<Rightarrow> BPlusNode \<Rightarrow> (BPlusNode \<times> BPlusNode \<times> BPlusNode) res"
where
  "shiftLeaves leftIndex parent newLeft newRight =
     bindR (index_at (nd_Keys newRight) 0) (\<lambda>key.
       bindR (index_at (nd_Pointers newRight) 0) (\<lambda>pointer.
         let newRight' = newRight\<lparr>nd_Keys := tl (nd_Keys newRight), nd_Pointers := tl (nd_Pointers newRight)\<rparr> in
         bindR (index_at (nd_Keys newRight') 0) (\<lambda>separatorKey.
           bindR (setAt leftIndex separatorKey (nd_Keys parent)) (\<lambda>keys.
             Ok (parent\<lparr>nd_Keys := keys\<rparr>,
                 newLeft\<lparr>nd_Keys := nd_Keys newLeft @ [key], nd_Pointers := nd_Pointers newLeft @ [pointer]\<rparr>,
                 newRight')))))"

definition mergeInternals :: "nat \<Rightarrow> BPlusNode \<Rightarrow> BPlusNode \<Rightarrow> BPlusNode \<Rightarrow> (BPlusNode \<times> BPlusNode) res" where
  "mergeInternals leftIndex parent newLeft newRight =
     bindR (index_at (nd_Keys parent) leftIndex) (\<lambda>separatorKey.
       bindR (removeAt leftIndex (nd_Keys parent)) (\<lambda>keys.
         bindR (removeAt (Suc leftIndex) (nd_Children parent)) (\<lambda>children.
           Ok (parent\<lparr>nd_Keys := keys, nd_Children := children\<rparr>,
               newLeft\<lparr>nd_Keys := nd_Keys newLeft @ separatorKey # nd_Keys newRight,
                       nd_Children := nd_Children newLeft @ nd_Children newRight\<rparr>))))"

definition shiftInternals ::
  "nat \<Rightarrow> BPlusNode \<Rightarrow> BPlusNode \<Rightarrow> BPlusNode \<Rightarrow> (BPlusNode \<times> BPlusNode \<times> BPlusNode) res"
where
  "shiftInternals leftIndex parent newLeft newRight =
     bindR (index_at (nd_Keys parent) leftIndex) (\<lambda>separatorKey.
       bindR (index_at (nd_Children newRight) 0) (\<lambda>child.
         bindR (index_at (nd_Keys newRight) 0) (\<lambda>key.
           bindR (setAt leftIndex key (nd_Keys parent)) (\<lambda>keys.
             Ok (parent\<lparr>nd_Keys := keys\<rparr>,
                 newLeft\<lparr>nd_Keys := nd_Keys newLeft @ [separatorKey], nd_Children := nd_Children newLeft @ [child]\<rparr>,
                 newRight\<lparr>nd_Keys := tl (nd_Keys newRight), nd_Children := tl (nd_Children newRight)\<rparr>)))))"

definition mergeOrRedistribute ::
  "PageID \<Rightarrow> BPlusNode \<Rightarrow> nat \<Rightarrow> PageID \<times> BPlusNode \<Rightarrow> PageID \<times> BPlusNode \<Rightarrow> 64 word \<Rightarrow> unit tree_op"
where
  "mergeOrRedistribute parentAt parent leftIndex left right generation =
     bindT (shadowCopy (fst left) (snd left) generation) (\<lambda>(leftAt, newLeft).
       bindT (shadowCopy (fst right) (snd right) generation) (\<lambda>(rightAt, newRight).
         bindT (liftT (bindR (setAt leftIndex (nd_PageID newLeft) (nd_Children parent))
                  (setAt (Suc leftIndex) (nd_PageID newRight)))) (\<lambda>children.
           let parent1 = parent\<lparr>nd_Children := children\<rparr> in
           bindT (putNode parentAt parent1) (\<lambda>_.
             if nd_PageType (snd left) = PageTypeLeaf then
               if length (nd_Keys newLeft) + length (nd_Keys newRight) \<le> 20 then
                 bindT (liftT (mergeLeaves leftIndex parent1 newLeft newRight)) (\<lambda>(parent2, newLeft').
                   bindT (putNode leftAt newLeft') (\<lambda>_.
                     bindT (putNode parentAt parent2) (\<lambda>_. markOrphaned (nd_PageID newRight))))
               else
                 bindT (liftT (shiftLeaves leftIndex parent1 newLeft newRight)) (\<lambda>(parent2, newLeft', newRight').
                   bindT (putNode leftAt newLeft') (\<lambda>_.
                     bindT (putNode rightAt newRight') (\<lambda>_. putNode parentAt parent2)))
             else
               if length (nd_Keys newLeft) + length (nd_Keys newRight) + 1 \<le> 20 then
                 bindT (liftT (mergeInternals leftIndex parent1 newLeft newRight)) (\<lambda>(parent2, newLeft').
                   bindT (putNode leftAt newLeft') (\<lambda>_.
                     bindT (putNode parentAt parent2) (\<lambda>_. markOrphaned (nd_PageID newRight))))
               else
                 bindT (liftT (shiftInternals leftIndex parent1 newLeft newRight)) (\<lambda>(parent2, newLeft', newRight').
                   bindT (putNode leftAt newLeft') (\<lambda>_.
                     bindT (putNode rightAt newRight') (\<lambda>_. putNode parentAt parent2)))))))"

text \<open>Going on after an error, as \<open>handleUnderflow\<close> does: \<open>None\<close> for the error.\<close>

definition tryT :: "'a tree_op \<Rightarrow> 'a option tree_op" where
  "tryT m t = (case m t of
      (Ok x, t') \<Rightarrow> (Ok (Some x), t')
    | (Err e, t') \<Rightarrow> (Ok None, t')
    | (Panic p, t') \<Rightarrow> (Panic p, t')
    | (NoFuel, t') \<Rightarrow> (NoFuel, t'))"

text \<open>The parent is read again from where it is cached, since a failed first attempt may have
  changed its children.\<close>

definition mergeWith :: "PageID \<Rightarrow> nat \<Rightarrow> bool \<Rightarrow> PageID \<times> BPlusNode \<Rightarrow> 64 word \<Rightarrow> bool tree_op" where
  "mergeWith parentAt index withLeft child generation =
     bindT (getNode parentAt) (\<lambda>parent.
       bindT (liftT (index_at (nd_Children parent) (if withLeft then index - 1 else Suc index))) (\<lambda>siblingID.
         bindT (tryT (getNode siblingID)) (\<lambda>sibling.
           case sibling of
             None \<Rightarrow> returnT False
           | Some s \<Rightarrow>
               bindT (tryT (if withLeft
                   then mergeOrRedistribute parentAt parent (index - 1) (siblingID, s) child generation
                   else mergeOrRedistribute parentAt parent index child (siblingID, s) generation))
                 (\<lambda>r. returnT (r \<noteq> None)))))"

definition handleUnderflow :: "PageID \<Rightarrow> BPlusNode \<Rightarrow> nat \<Rightarrow> 64 word \<Rightarrow> unit tree_op" where
  "handleUnderflow parentAt parent index generation =
     bindT (liftT (index_at (nd_Children parent) index)) (\<lambda>childID.
       bindT (getNode childID) (\<lambda>child.
         if length (nd_Keys child) \<ge> 2 then returnT ()
         else
           bindT (if index > 0 then mergeWith parentAt index True (childID, child) generation else returnT False) (\<lambda>done.
             if done then returnT ()
             else if int index < int (length (nd_Children parent)) - 1
             then bindT (mergeWith parentAt index False (childID, child) generation) (\<lambda>_. returnT ())
             else returnT ())))"

fun deleteRecursive :: "(gval \<Rightarrow> string) \<Rightarrow> nat \<Rightarrow> PageID \<Rightarrow> bytes \<Rightarrow> 64 word \<Rightarrow> (PageID \<times> bool) tree_op" where
  "deleteRecursive fmt 0 currentPageID key generation = liftT NoFuel"
| "deleteRecursive fmt (Suc fuel) currentPageID key generation =
     bindT (getNode currentPageID) (\<lambda>node.
       bindT (shadowNode currentPageID node generation) (\<lambda>(at, newNode0).
         if nd_PageType node = PageTypeLeaf then
           let newNode = newNode0\<lparr>nd_Keys := nd_Keys node, nd_Pointers := nd_Pointers node\<rparr> in
           bindT (putNode at newNode) (\<lambda>_.
             bindT (liftT (searchGE fmt (nd_Keys newNode) key)) (\<lambda>index.
               if index < length (nd_Keys newNode) \<and> nd_Keys newNode ! index = key then
                 bindT (liftT (removeAt index (nd_Keys newNode))) (\<lambda>keys.
                   bindT (liftT (removeAt index (nd_Pointers newNode))) (\<lambda>pointers.
                     bindT (putNode at (newNode\<lparr>nd_Keys := keys, nd_Pointers := pointers\<rparr>)) (\<lambda>_.
                       returnT (nd_PageID newNode, True))))
               else returnT (currentPageID, False)))
         else
           bindT (liftT (childIndex fmt node key)) (\<lambda>(index, childID).
             bindT (deleteRecursive fmt fuel childID key generation) (\<lambda>(newChildID, found).
               if \<not> found then returnT (currentPageID, False)
               else
                 bindT (liftT (setAt index newChildID (nd_Children node))) (\<lambda>children.
                   let newNode = newNode0\<lparr>nd_Keys := nd_Keys node, nd_Children := children\<rparr> in
                   bindT (putNode at newNode) (\<lambda>_.
                     bindT (handleUnderflow at newNode index generation) (\<lambda>_.
                       returnT (nd_PageID newNode, True))))))))"

definition collapseRoot :: "PageID \<Rightarrow> PageID tree_op" where
  "collapseRoot newRootID =
     bindT (tryT (getNode newRootID)) (\<lambda>r.
       case r of
         Some node \<Rightarrow>
           if nd_PageType node = PageTypeInternal \<and> length (nd_Keys node) = 0 \<and> length (nd_Children node) = 1
           then bindT (markOrphaned newRootID) (\<lambda>_. returnT (hd (nd_Children node)))
           else returnT newRootID
       | None \<Rightarrow> returnT newRootID)"

definition deleteNamedNoCommitLocked ::
  "(gval \<Rightarrow> string) \<Rightarrow> nat \<Rightarrow> string \<Rightarrow> bytes \<Rightarrow> 64 word \<Rightarrow> PageID tree_op"
where
  "deleteNamedNoCommitLocked fmt fuel indexName key generation t =
     (case map_of (bt_catalog t) indexName of
        None \<Rightarrow> (Ok 0, t)
      | Some rootEntry \<Rightarrow>
          bindT (deleteRecursive fmt fuel (RootPageID rootEntry) key generation) (\<lambda>(newRootID, found).
            if found then
              bindT (collapseRoot newRootID) (\<lambda>rootID.
                bindT (setRoot indexName rootID generation) (\<lambda>_. returnT rootID))
            else returnT newRootID) t)"

definition DeleteNamed ::
  "(gval \<Rightarrow> string) \<Rightarrow> map_order \<Rightarrow> nat \<Rightarrow> string \<Rightarrow> bytes \<Rightarrow> 64 word \<Rightarrow> PageID tree_op"
where
  "DeleteNamed fmt order fuel indexName key generation =
     committing order generation (deleteNamedNoCommitLocked fmt fuel indexName key generation)"

definition DeleteNamedNoCommit :: "(gval \<Rightarrow> string) \<Rightarrow> nat \<Rightarrow> string \<Rightarrow> bytes \<Rightarrow> 64 word \<Rightarrow> PageID tree_op" where
  "DeleteNamedNoCommit = deleteNamedNoCommitLocked"

section \<open>Range scans\<close>

fun descend :: "(gval \<Rightarrow> string) \<Rightarrow> nat \<Rightarrow> PageID \<Rightarrow> bytes \<Rightarrow> PageID tree_op" where
  "descend fmt 0 currentPageID start = liftT NoFuel"
| "descend fmt (Suc fuel) currentPageID start =
     bindT (getNode currentPageID) (\<lambda>node.
       if nd_PageType node = PageTypeLeaf then returnT currentPageID
       else bindT (liftT (childIndex fmt node start)) (\<lambda>(index, childID). descend fmt fuel childID start))"

text \<open>The visitor is a function of its own state that says whether to go on; the loop over the
  keys of a leaf returns the visitor's state and whether the scan goes on with the next
  leaf.\<close>

type_synonym 'v visitor = "bytes \<Rightarrow> RecordPointer \<Rightarrow> 'v \<Rightarrow> bool \<times> 'v"

fun visitKeys :: "(gval \<Rightarrow> string) \<Rightarrow> bytes \<Rightarrow> bytes \<Rightarrow> 'v visitor \<Rightarrow> bytes list \<Rightarrow> RecordPointer list \<Rightarrow> 'v \<Rightarrow> (bool \<times> 'v) res" where
  "visitKeys fmt start end' visit [] pointers v = Ok (True, v)"
| "visitKeys fmt start end' visit (key # keys) pointers v =
     bindR (if length start > 0 then mapR (\<lambda>c. c < 0) (compareByteKeys fmt key start) else Ok False) (\<lambda>below.
       if below then visitKeys fmt start end' visit keys (tl pointers) v
       else
         bindR (if length end' > 0 then mapR (\<lambda>c. c > 0) (compareByteKeys fmt key end') else Ok False) (\<lambda>above.
           if above then Ok (False, v)
           else
             bindR (index_at pointers 0) (\<lambda>pointer.
               case visit key pointer v of
                 (True, v') \<Rightarrow> visitKeys fmt start end' visit keys (tl pointers) v'
               | (False, v') \<Rightarrow> Ok (False, v'))))"

fun scanLeaves :: "(gval \<Rightarrow> string) \<Rightarrow> nat \<Rightarrow> PageID \<Rightarrow> bytes \<Rightarrow> bytes \<Rightarrow> 'v visitor \<Rightarrow> 'v \<Rightarrow> 'v tree_op" where
  "scanLeaves fmt 0 currentPageID start end' visit v = liftT NoFuel"
| "scanLeaves fmt (Suc fuel) currentPageID start end' visit v =
     (if currentPageID = 0 then returnT v
      else
        bindT (getNode currentPageID) (\<lambda>node.
          bindT (liftT (visitKeys fmt start end' visit (nd_Keys node) (nd_Pointers node) v)) (\<lambda>(goOn, v').
            if goOn then scanLeaves fmt fuel (nd_RightSibling node) start end' visit v' else returnT v')))"

definition RangeNamed ::
  "(gval \<Rightarrow> string) \<Rightarrow> nat \<Rightarrow> nat \<Rightarrow> string \<Rightarrow> bytes \<Rightarrow> bytes \<Rightarrow> 'v visitor \<Rightarrow> 'v \<Rightarrow> 'v tree_op"
where
  "RangeNamed fmt fuel leafFuel indexName start end' visit v t =
     (case map_of (bt_catalog t) indexName of
        None \<Rightarrow> (Ok v, t)
      | Some rootEntry \<Rightarrow>
          bindT (descend fmt fuel (RootPageID rootEntry) start) (\<lambda>leafID.
            scanLeaves fmt leafFuel leafID start end' visit v) t)"

section \<open>Named indexes\<close>

text \<open>\<^verbatim>\<open>NamedIndex\<close>: a tree and the name of one of its indexes; its methods call the tree's with
  that name. \<^verbatim>\<open>Close\<close> of a named index does nothing, the tree is closed by the database.\<close>

definition NamedIndex_Find :: "(gval \<Rightarrow> string) \<Rightarrow> nat \<Rightarrow> string \<Rightarrow> bytes \<Rightarrow> RecordPointer option tree_op" where
  "NamedIndex_Find fmt fuel indexName key = FindNamed fmt fuel indexName key"

definition NamedIndex_InsertNoCommit ::
  "(gval \<Rightarrow> string) \<Rightarrow> nat \<Rightarrow> string \<Rightarrow> bytes \<Rightarrow> RecordPointer \<Rightarrow> 64 word \<Rightarrow> PageID tree_op"
where
  "NamedIndex_InsertNoCommit fmt fuel indexName key pointer generation =
     InsertNamedNoCommit fmt fuel indexName key pointer generation"

definition NamedIndex_DeleteNoCommit ::
  "(gval \<Rightarrow> string) \<Rightarrow> nat \<Rightarrow> string \<Rightarrow> bytes \<Rightarrow> 64 word \<Rightarrow> PageID tree_op"
where
  "NamedIndex_DeleteNoCommit fmt fuel indexName key generation = DeleteNamedNoCommit fmt fuel indexName key generation"

definition NamedIndex_Close :: "unit tree_op" where
  "NamedIndex_Close = returnT ()"

definition NamedIndex_Commit :: "map_order \<Rightarrow> 64 word \<Rightarrow> unit tree_op" where
  "NamedIndex_Commit order generation = writeNewStateLocked order generation"

definition DiskBPlusTree_Sync :: "error option \<Rightarrow> unit tree_op" where
  "DiskBPlusTree_Sync outcome t =
     ((case bt_file t of NilFile \<Rightarrow> Err OsErrInvalid | ClosedFile \<Rightarrow> Err (OsError ''file already closed'')
       | OpenFile \<Rightarrow> (case outcome of Some e \<Rightarrow> Err e | None \<Rightarrow> Ok ())), t)"

definition DiskBPlusTree_Close :: "error option \<Rightarrow> unit tree_op" where
  "DiskBPlusTree_Close outcome t =
     ((case bt_file t of NilFile \<Rightarrow> Err OsErrInvalid | ClosedFile \<Rightarrow> Err (OsError ''file already closed'')
       | OpenFile \<Rightarrow> (case outcome of Some e \<Rightarrow> Err e | None \<Rightarrow> Ok ())),
      if bt_file t = OpenFile then t\<lparr>bt_file := ClosedFile\<rparr> else t)"

end
