(* ===== verification/PageLaws.thy ===== *)
theory PageLaws
  imports Page
begin

text \<open>
  The laws of the page layer: checksums, pages read back as written without touching other
  pages, and the round trips of the superblock, the catalog and the nodes.
\<close>

section \<open>Checksums and headers\<close>

lemma sub_append_left: "off + n \<le> length xs \<Longrightarrow> sub (xs @ ys) off n = sub xs off n"
  by (simp add: sub_def)

lemma sub_append_right: "length xs \<le> off \<Longrightarrow> sub (xs @ ys) off n = sub ys (off - length xs) n"
  by (simp add: sub_def)

lemma length_headerBytes [simp]: "length (headerBytes h) = 48"
  by (simp add: headerBytes_def)

lemma length_emptyPage [simp]: "length emptyPage = 16384"
  by (simp add: emptyPage_def IndexPageSize_def)

lemma readHeader_headerBytes: "readHeader (headerBytes h @ rest) = h"
  by (simp add: readHeader_def headerBytes_def sub_def nth_append)

lemma length_updateChecksum [simp]: "42 \<le> length page \<Longrightarrow> length (updateChecksum page) = length page"
  by (simp add: updateChecksum_def Let_def)

lemma sub_updateChecksum:
  "42 \<le> length page \<Longrightarrow> off + n \<le> length page \<Longrightarrow> off + n \<le> 38 \<or> 42 \<le> off \<Longrightarrow>
   sub (updateChecksum page) off n = sub page off n"
  by (simp add: updateChecksum_def Let_def sub_splice_other)

lemma nth_updateChecksum:
  "42 \<le> length page \<Longrightarrow> i < length page \<Longrightarrow> i < 38 \<or> 42 \<le> i \<Longrightarrow> updateChecksum page ! i = page ! i"
  by (auto simp: updateChecksum_def Let_def nth_splice)

lemma validateChecksum_updateChecksum: "42 \<le> length page \<Longrightarrow> validateChecksum (updateChecksum page) = Ok ()"
  by (simp add: validateChecksum_def updateChecksum_def Let_def sub_splice_same splice_splice_same)

lemma readHeader_updateChecksum:
  assumes "48 \<le> length page"
  shows "\<exists>c. readHeader (updateChecksum page) = (readHeader page)\<lparr>ph_Checksum := c\<rparr>"
  using assms
  by (intro exI [of _ "Uint32 (sub (updateChecksum page) 38 4)"])
     (simp add: readHeader_def sub_updateChecksum nth_updateChecksum)

section \<open>Pages of the index file\<close>

text \<open>The pages whose byte offset fits a signed 64-bit integer.\<close>

definition addressable :: "PageID \<Rightarrow> bool" where
  "addressable pageID = (unat pageID < 2 ^ 49)"

lemma pageOffset_addressable: "addressable pageID \<Longrightarrow> pageOffset pageID = int (unat pageID * 16384)"
proof -
  assume a: "addressable pageID"
  have "pageID * of_nat IndexPageSize = (of_nat (unat pageID * 16384) :: 64 word)"
    by (simp add: IndexPageSize_def)
  moreover have "unat pageID * 16384 < 2 ^ 63" using a by (simp add: addressable_def)
  then have "int (unat pageID * 16384) < 2 ^ 63" by (metis of_nat_less_iff of_nat_numeral of_nat_power)
  then have "sint (0 + of_nat (unat pageID * 16384) :: 64 word) = sint (0 :: 64 word) + int (unat pageID * 16384)"
    by (intro sint64_add_nat) (simp_all del: of_nat_unat)
  ultimately show ?thesis unfolding pageOffset_def by (simp only: add_0_left signed_0)
qed

lemma readAt_writeAt_other:
  assumes "off + length bs \<le> o2 \<or> o2 + n \<le> off" "o2 + n \<le> length f"
  shows "readAt (writeAt f off bs) o2 n = readAt f o2 n"
proof -
  let ?g = "f @ replicate (off - length f) 0"
  have l: "length (writeAt f off bs) \<ge> o2 + n" using assms(2) by (simp add: writeAt_def)
  have "sub (writeAt f off bs) o2 n = sub f o2 n"
  proof (rule nth_equalityI)
    fix i assume "i < length (sub (writeAt f off bs) o2 n)"
    then have i: "i < n" by (simp add: sub_def)
    then show "sub (writeAt f off bs) o2 n ! i = sub f o2 n ! i"
      using assms l by (auto simp: nth_sub writeAt_def nth_append min_def)
  qed (use l assms(2) in \<open>simp add: sub_def\<close>)
  then show ?thesis using l assms(2) by (simp add: readAt_def)
qed

lemma readAt_writeAt_self: "n = length bs \<Longrightarrow> readAt (writeAt f off bs) off n = Ok bs"
  by (auto simp: readAt_def writeAt_def sub_def min_def)

lemma length_writeAt_ge: "length f \<le> length (writeAt f off bs)" "off + length bs \<le> length (writeAt f off bs)"
  by (simp_all add: writeAt_def)

lemma writePage_WOk:
  assumes "addressable pageID" "length page = IndexPageSize"
  shows "writePage OpenFile disk pageID page WOk =
    (Ok (), writeAt disk (unat pageID * 16384) (updateChecksum page))"
proof -
  have len: "length (updateChecksum page) = 16384" using assms(2) by (simp add: IndexPageSize_def)
  then have "updateChecksum page \<noteq> []" by force
  then show ?thesis
    using assms len by (simp add: writePage_def file_WriteAt_def pageOffset_addressable nat_mult_distrib IndexPageSize_def)
qed

lemma readPage_writePage:
  assumes "addressable pageID" "length page = IndexPageSize"
  shows "readPage OpenFile (snd (writePage OpenFile disk pageID page WOk)) pageID = Ok (updateChecksum page)"
  using assms validateChecksum_updateChecksum [of page]
  by (simp add: writePage_WOk readPage_def file_ReadAt_def pageOffset_addressable nat_mult_distrib
      IndexPageSize_def readAt_writeAt_self)

lemma readPage_Ok_length:
  assumes "addressable q" "readPage OpenFile disk q = Ok pg"
  shows "unat q * 16384 + 16384 \<le> length disk" "length pg = IndexPageSize"
proof -
  show "unat q * 16384 + 16384 \<le> length disk"
    using assms by (auto simp: readPage_def file_ReadAt_def pageOffset_addressable readAt_def IndexPageSize_def
        nat_mult_distrib split: res.splits if_splits)
  then show "length pg = IndexPageSize"
    using assms by (auto simp: readPage_def file_ReadAt_def pageOffset_addressable readAt_def IndexPageSize_def
        nat_mult_distrib sub_def split: res.splits if_splits)
qed

lemma readPage_writePage_other:
  assumes "addressable pageID" "addressable q" "q \<noteq> pageID" "length page = IndexPageSize"
    and "readPage OpenFile disk q = Ok pg"
  shows "readPage OpenFile (snd (writePage OpenFile disk pageID page WOk)) q = Ok pg"
proof -
  have "unat q \<noteq> unat pageID" using assms(3) by (simp add: word_unat_eq_iff)
  then have d: "unat pageID * 16384 + 16384 \<le> unat q * 16384 \<or> unat q * 16384 + 16384 \<le> unat pageID * 16384"
    by linarith
  have "readAt (writeAt disk (unat pageID * 16384) (updateChecksum page)) (unat q * 16384) 16384
      = readAt disk (unat q * 16384) 16384"
    using d readPage_Ok_length [OF assms(2,5)] assms(4) by (intro readAt_writeAt_other) (simp_all add: IndexPageSize_def)
  then show ?thesis
    using assms by (simp add: writePage_WOk readPage_def file_ReadAt_def pageOffset_addressable nat_mult_distrib
        IndexPageSize_def)
qed

section \<open>The superblock\<close>

lemma superblock_roundtrip_lemma:
  assumes "sb_Magic sb = SuperblockMagic"
  shows "\<exists>c. deserializeSuperblock (updateChecksum (serializeSuperblock sb)) = Ok (sb\<lparr>sb_Checksum := c\<rparr>)"
proof -
  let ?b = "PutUint32 (sb_Magic sb) @ PutUint16 (sb_Version sb) @ PutUint32 (sb_PageSize sb)
    @ PutUint64 (sb_Generation sb) @ PutUint64 (CatalogRootPageID sb) @ PutUint64 (NextPageID sb)"
  have p: "serializeSuperblock sb = ?b @ drop 34 emptyPage"
    by (simp add: serializeSuperblock_def splice_def)
  have len: "length (serializeSuperblock sb) = 16384" by (simp add: p)
  have "sub (serializeSuperblock sb) 0 4 = PutUint32 (sb_Magic sb)"
    "sub (serializeSuperblock sb) 4 2 = PutUint16 (sb_Version sb)"
    "sub (serializeSuperblock sb) 6 4 = PutUint32 (sb_PageSize sb)"
    "sub (serializeSuperblock sb) 10 8 = PutUint64 (sb_Generation sb)"
    "sub (serializeSuperblock sb) 18 8 = PutUint64 (CatalogRootPageID sb)"
    "sub (serializeSuperblock sb) 26 8 = PutUint64 (NextPageID sb)"
    by (simp_all add: p sub_def)
  then show ?thesis
    using assms len
    by (intro exI [of _ "Uint32 (sub (updateChecksum (serializeSuperblock sb)) 38 4)"])
       (simp add: deserializeSuperblock_def IndexPageSize_def Let_def sub_updateChecksum)
qed


section \<open>The catalog\<close>

text \<open>A page that is filled from the front: what was written, and zeros.\<close>

definition pad :: "bytes \<Rightarrow> bytes" where
  "pad P = P @ replicate (16384 - length P) 0"

lemma length_pad [simp]: "length P \<le> 16384 \<Longrightarrow> length (pad P) = 16384"
  by (simp add: pad_def)

lemma splice_pad: "length P + length bs \<le> 16384 \<Longrightarrow> splice (pad P) (length P) bs = pad (P @ bs)"
  by (simp add: pad_def splice_def)

lemma emptyPage_pad: "emptyPage = pad []"
  by (simp add: emptyPage_def pad_def IndexPageSize_def)

lemma writeHeader_emptyPage: "writeHeader emptyPage h = pad (headerBytes h)"
  using splice_pad [of "[]" "headerBytes h"] by (simp add: writeHeader_def emptyPage_pad)

lemma updateChecksum_append:
  assumes "length X = 48"
  shows "\<exists>X'. length X' = 48 \<and> updateChecksum (X @ R) = X' @ R"
proof (intro exI conjI)
  show "length (take 48 (updateChecksum (X @ R))) = 48" using assms by simp
  have "drop 48 (updateChecksum (X @ R)) = R"
    using assms by (simp add: updateChecksum_def Let_def splice_def)
  then show "updateChecksum (X @ R) = take 48 (updateChecksum (X @ R)) @ R"
    by (metis append_take_drop_id)
qed

lemma length_rootBytes [simp]: "length (rootBytes root) = 20 + length (ir_Name root)"
  by (simp add: rootBytes_def)

lemma foldR_writeRoot:
  assumes "length P + length (concat (map rootBytes roots)) \<le> 16380"
  shows "foldR writeRoot (pad P, length P) roots =
    Ok (pad (P @ concat (map rootBytes roots)), length (P @ concat (map rootBytes roots)))"
  using assms
proof (induction roots arbitrary: P)
  case (Cons root roots)
  have "writeRoot (pad P, length P) root = Ok (pad (P @ rootBytes root), length (P @ rootBytes root))"
    using Cons.prems by (simp add: writeRoot_def IndexPageSize_def Let_def splice_pad)
  then show ?case using Cons.IH [of "P @ rootBytes root"] Cons.prems by simp
qed simp

lemma readRoots_step:
  assumes "length (ir_Name root) < 65536"
  shows "readRoots (A @ rootBytes root @ Z) (length A) (Suc n) =
    bindR (readRoots (A @ rootBytes root @ Z) (length (A @ rootBytes root)) n) (\<lambda>(roots, off). Ok (root # roots, off))"
proof -
  have l: "unat (of_nat (length (ir_Name root)) :: 16 word) = length (ir_Name root)"
    using assms by (simp add: unat_of_nat)
  then show ?thesis
    by (cases root)
       (simp add: getU16_def getU64_def rootBytes_def slice_def index_at_def sub_def nth_append Let_def ac_simps)
qed

lemma readRoots_rootBytes:
  assumes "list_all (\<lambda>root. length (ir_Name root) < 65536) roots"
  shows "readRoots (A @ concat (map rootBytes roots) @ Z) (length A) (length roots) =
    Ok (roots, length (A @ concat (map rootBytes roots)))"
  using assms
proof (induction roots arbitrary: A)
  case (Cons root roots)
  have "readRoots ((A @ rootBytes root) @ concat (map rootBytes roots) @ Z) (length (A @ rootBytes root)) (length roots) =
    Ok (roots, length ((A @ rootBytes root) @ concat (map rootBytes roots)))"
    using Cons.prems by (intro Cons.IH) simp
  then show ?case
    using readRoots_step [of root A "concat (map rootBytes roots) @ Z" "length roots"] Cons.prems by simp
qed simp

lemma readFree_ids:
  "readFree (A @ concat (map PutUint64 ids) @ Z) (length A) (length ids) = Ok ids"
proof (induction ids arbitrary: A)
  case (Cons i ids)
  then show ?case using Cons.IH [of "A @ PutUint64 i"] by (simp add: getU64_def slice_def sub_def)
qed simp

definition keptFree :: "IndexRoot list \<Rightarrow> PageID list \<Rightarrow> PageID list" where
  "keptFree roots freeList = take ((16328 - length (concat (map rootBytes roots))) div 8) freeList"

definition catalogFits :: "IndexRoot list \<Rightarrow> bool" where
  "catalogFits roots = (48 + length (concat (map rootBytes roots)) \<le> 16376)"

lemma length_concat_Put64 [simp]: "length (concat (map PutUint64 ids)) = 8 * length ids"
  by (induction ids) simp_all

lemma serializeCatalog_Ok:
  assumes "catalogFits roots"
  shows "serializeCatalog roots freeList pageID generation =
    Ok (updateChecksum (pad (headerBytes (catalogHeader roots pageID generation) @ concat (map rootBytes roots)
      @ PutUint32 (of_nat (length (keptFree roots freeList))) @ concat (map PutUint64 (keptFree roots freeList)))))"
proof -
  let ?h = "headerBytes (catalogHeader roots pageID generation)"
  let ?P = "?h @ concat (map rootBytes roots)"
  let ?k = "keptFree roots freeList"
  have len: "length ?P \<le> 16376" using assms by (simp add: catalogFits_def)
  have f: "foldR writeRoot (writeHeader emptyPage (catalogHeader roots pageID generation), 48) roots = Ok (pad ?P, length ?P)"
    using foldR_writeRoot [of ?h roots] len by (simp add: writeHeader_emptyPage)
  have k: "(if (IndexPageSize - 4 - length ?P - 4) div 8 < length freeList
       then take ((IndexPageSize - 4 - length ?P - 4) div 8) freeList else freeList) = ?k"
    by (simp add: IndexPageSize_def keptFree_def)
  have kl: "8 * length ?k \<le> 16376 - length ?P"
  proof -
    have "length ?k \<le> (16376 - length ?P) div 8" by (simp add: keptFree_def)
    then show ?thesis by linarith
  qed
  have s1: "splice (pad ?P) (length ?P) (PutUint32 (of_nat (length ?k))) = pad (?P @ PutUint32 (of_nat (length ?k)))"
    using len by (intro splice_pad) simp
  have s2: "splice (pad (?P @ PutUint32 (of_nat (length ?k)))) (length ?P + 4) (concat (map PutUint64 ?k))
      = pad ((?P @ PutUint32 (of_nat (length ?k))) @ concat (map PutUint64 ?k))"
    using splice_pad [of "?P @ PutUint32 (of_nat (length ?k))" "concat (map PutUint64 ?k)"] kl len by simp
  show ?thesis
    unfolding serializeCatalog_def f bindR.simps prod.case Let_def k s1 s2 by simp
qed

lemma rootNames_short:
  assumes "catalogFits roots"
  shows "list_all (\<lambda>root. length (ir_Name root) < 65536) roots" "length roots < 65536"
proof -
  have "length (rootBytes r) \<le> length (concat (map rootBytes roots))" if "r \<in> set roots" for r
    using that by (induction roots) auto
  then have "length (ir_Name r) < 65536" if "r \<in> set roots" for r
    using assms that by (fastforce simp: catalogFits_def)
  then show "list_all (\<lambda>root. length (ir_Name root) < 65536) roots" by (simp add: list_all_iff)
  have "length roots \<le> length (concat (map rootBytes roots))" by (induction roots) auto
  then show "length roots < 65536" using assms by (simp add: catalogFits_def)
qed

lemma catalog_roundtrip_lemma:
  assumes "catalogFits roots"
  shows "\<exists>page. serializeCatalog roots freeList pageID generation = Ok page \<and> length page = IndexPageSize \<and>
     deserializeCatalog page = Ok (roots, keptFree roots freeList)"
proof -
  let ?h = "headerBytes (catalogHeader roots pageID generation)"
  let ?C = "concat (map rootBytes roots)"
  let ?k = "keptFree roots freeList"
  let ?B = "?C @ PutUint32 (of_nat (length ?k)) @ concat (map PutUint64 ?k)"
  let ?z = "replicate (16384 - length (?h @ ?B)) 0"
  let ?page = "updateChecksum (pad (?h @ ?B))"
  have kl: "8 * length ?k \<le> 16328 - length ?C"
  proof -
    have "length ?k \<le> (16328 - length ?C) div 8" by (simp add: keptFree_def)
    then show ?thesis by linarith
  qed
  have len: "48 + length ?C + 4 + 8 * length ?k \<le> 16380" using kl assms by (simp add: catalogFits_def)
  obtain X where X: "length X = 48" "?page = X @ ?B @ ?z"
    using updateChecksum_append [of ?h "?B @ ?z"] by (auto simp: pad_def)
  have lp: "length ?page = 16384" using len by simp
  have v: "validateChecksum ?page = Ok ()" using len by (intro validateChecksum_updateChecksum) simp
  obtain c where "readHeader ?page = (readHeader (pad (?h @ ?B)))\<lparr>ph_Checksum := c\<rparr>"
    using readHeader_updateChecksum [of "pad (?h @ ?B)"] len by auto
  then have hd: "readHeader ?page = (catalogHeader roots pageID generation)\<lparr>ph_Checksum := c\<rparr>"
    by (simp add: pad_def readHeader_headerBytes)
  have m: "ph_Magic (readHeader ?page) = CatalogMagic" "ph_CellCount (readHeader ?page) = of_nat (length roots)"
    unfolding hd by (simp_all add: catalogHeader_def)
  have roots: "readRoots ?page 48 (length roots) = Ok (roots, 48 + length ?C)"
    using readRoots_rootBytes [OF rootNames_short(1) [OF assms], of X] X by simp
  have cnt: "getU32 ?page (48 + length ?C) = Ok (of_nat (length ?k))"
    unfolding X(2) using X(1) by (simp add: getU32_def slice_def sub_def)
  have free: "readFree ?page (52 + length ?C) (length ?k) = Ok ?k"
    unfolding X(2) using readFree_ids [of "X @ ?C @ PutUint32 (of_nat (length ?k))" ?k ?z] X(1) by simp
  have u: "unat (of_nat (length roots) :: 16 word) = length roots" "unat (of_nat (length ?k) :: 32 word) = length ?k"
    using rootNames_short(2) [OF assms] len by (simp_all add: unat_of_nat)
  have "deserializeCatalog ?page = Ok (roots, ?k)"
    using len by (simp add: deserializeCatalog_def v m u roots cnt free IndexPageSize_def Let_def)
  then show ?thesis using serializeCatalog_Ok [OF assms] lp by (simp add: IndexPageSize_def)
qed


section \<open>Nodes\<close>

text \<open>The cells of a node, and the nodes a page can hold.\<close>

definition cells :: "BPlusNode \<Rightarrow> bytes list" where
  "cells node = (if nd_PageType node = PageTypeLeaf then map2 leafCell (nd_Keys node) (nd_Pointers node)
     else map2 internalCell (nd_Keys node) (nd_Children node))"

definition nodeShape :: "BPlusNode \<Rightarrow> bool" where
  "nodeShape node =
     ((nd_PageType node = PageTypeLeaf \<and> length (nd_Pointers node) = length (nd_Keys node) \<and> nd_Children node = [])
      \<or> (nd_PageType node = PageTypeInternal \<and> length (nd_Children node) = Suc (length (nd_Keys node)) \<and> nd_Pointers node = []))"

definition nodeSize :: "BPlusNode \<Rightarrow> nat" where
  "nodeSize node = 48 + 2 * length (nd_Keys node) + length (concat (cells node))"

lemma length_cells: "nodeShape node \<Longrightarrow> length (cells node) = length (nd_Keys node)"
  by (auto simp: nodeShape_def cells_def PageTypeLeaf_def PageTypeInternal_def)

lemma cellData_cells: "nodeShape node \<Longrightarrow> i < length (nd_Keys node) \<Longrightarrow> cellData node i = Ok (cells node ! i)"
  by (auto simp: nodeShape_def cells_def cellData_def PageTypeLeaf_def PageTypeInternal_def)

fun cellOffsets :: "nat \<Rightarrow> bytes list \<Rightarrow> nat list" where
  "cellOffsets fe [] = []"
| "cellOffsets fe (c # cs) = (fe - length c) # cellOffsets (fe - length c) cs"

lemma length_cellOffsets [simp]: "length (cellOffsets fe cs) = length cs"
  by (induction cs arbitrary: fe) simp_all

lemma word16_less: "a < 65536 \<Longrightarrow> b < 65536 \<Longrightarrow> (of_nat a :: 16 word) < of_nat b \<longleftrightarrow> a < b"
  by (simp add: word_less_nat_alt unat_of_nat)

lemma writeCells_Ok:
  assumes "list_all2 (\<lambda>i c. cellData node i = Ok c) idx cs" "s + length (concat cs) \<le> fe" "fe \<le> 16384"
    and "length Q = 16384 - fe"
  shows "writeCells node (of_nat s) idx (replicate fe 0 @ Q) (of_nat fe) =
    Ok (replicate (fe - length (concat cs)) 0 @ concat (rev cs) @ Q, of_nat (fe - length (concat cs)),
        map of_nat (cellOffsets fe cs))"
  using assms
proof (induction idx cs arbitrary: fe Q rule: list_all2_induct)
  case (Cons i idx c cs)
  let ?fe = "fe - length c"
  have le: "length c \<le> fe" "s \<le> fe" using Cons.prems by auto
  have diff: "of_nat fe - of_nat s = (of_nat (fe - s) :: 16 word)" "of_nat fe - of_nat (length c) = (of_nat ?fe :: 16 word)"
    using le by simp_all
  have nl: "\<not> (of_nat (fe - s) :: 16 word) < of_nat (length c)"
    using Cons.prems by (subst word16_less) auto
  have u: "unat (of_nat ?fe :: 16 word) = ?fe" using Cons.prems by (intro unat_of_nat16) simp
  have cp: "copyInto (replicate fe 0 @ Q) ?fe c = Ok (replicate ?fe 0 @ c @ Q)"
    using le Cons.prems by (simp add: copyInto_def splice_def)
  have "writeCells node (of_nat s) idx (replicate ?fe 0 @ c @ Q) (of_nat ?fe) =
    Ok (replicate (?fe - length (concat cs)) 0 @ concat (rev cs) @ c @ Q, of_nat (?fe - length (concat cs)),
        map of_nat (cellOffsets ?fe cs))"
    using Cons.prems by (intro Cons.IH) auto
  then show ?case
    using Cons.hyps(1) nl cp u by (simp add: diff Let_def del: of_nat_diff)
qed simp

lemma writeCells_overflow:
  assumes "list_all2 (\<lambda>i c. cellData node i = Ok c) idx cs" "s \<le> fe" "fe < s + length (concat cs)" "fe \<le> 16384"
    and "length Q = 16384 - fe" "list_all (\<lambda>c. length c < 65536) cs"
  shows "writeCells node (of_nat s) idx (replicate fe 0 @ Q) (of_nat fe) = Err PageOverflow"
  using assms
proof (induction idx cs arbitrary: fe Q rule: list_all2_induct)
  case (Cons i idx c cs)
  let ?fe = "fe - length c"
  have diff: "of_nat fe - of_nat s = (of_nat (fe - s) :: 16 word)" using Cons.prems by simp
  have cmp: "(of_nat (fe - s) :: 16 word) < of_nat (length c) \<longleftrightarrow> fe - s < length c"
    using Cons.prems by (intro word16_less) auto
  show ?case
  proof (cases "fe - s < length c")
    case True
    then show ?thesis using Cons.hyps(1) cmp by (simp add: diff del: of_nat_diff)
  next
    case False
    have d2: "of_nat fe - of_nat (length c) = (of_nat ?fe :: 16 word)" using False Cons.prems by simp
    have u: "unat (of_nat ?fe :: 16 word) = ?fe" using Cons.prems by (intro unat_of_nat16) simp
    have cp: "copyInto (replicate fe 0 @ Q) ?fe c = Ok (replicate ?fe 0 @ c @ Q)"
      using False Cons.prems by (simp add: copyInto_def splice_def)
    have "writeCells node (of_nat s) idx (replicate ?fe 0 @ c @ Q) (of_nat ?fe) = Err PageOverflow"
      using False Cons.prems by (intro Cons.IH) auto
    then show ?thesis using False Cons.hyps(1) cmp cp u by (simp add: diff d2 Let_def del: of_nat_diff)
  qed
qed simp

lemma writeOffsets_Ok:
  assumes "length P = 48 + 2 * i" "2 * length offs \<le> m" "length (P @ replicate m 0 @ R) = 16384"
  shows "writeOffsets (P @ replicate m 0 @ R) i offs =
    Ok (P @ concat (map PutUint16 offs) @ replicate (m - 2 * length offs) 0 @ R)"
  using assms
proof (induction offs arbitrary: P i m)
  case (Cons w offs)
  have a: "(48 + 2 * of_nat i :: 16 word) = of_nat (48 + 2 * i)" by simp
  have b: "(48 + 2 * of_nat i + 2 :: 16 word) = of_nat (50 + 2 * i)" by simp
  have u: "unat (48 + 2 * of_nat i :: 16 word) = 48 + 2 * i"
    unfolding a using Cons.prems by (intro unat_of_nat16) simp
  have u2: "unat (48 + 2 * of_nat i + 2 :: 16 word) = 50 + 2 * i"
    unfolding b using Cons.prems by (intro unat_of_nat16) simp
  have sp: "splice (P @ replicate m 0 @ R) (48 + 2 * i) (PutUint16 w) = (P @ PutUint16 w) @ replicate (m - 2) 0 @ R"
    using Cons.prems by (simp add: splice_def)
  have "writeOffsets ((P @ PutUint16 w) @ replicate (m - 2) 0 @ R) (Suc i) offs =
    Ok ((P @ PutUint16 w) @ concat (map PutUint16 offs) @ replicate (m - 2 - 2 * length offs) 0 @ R)"
    using Cons.prems by (intro Cons.IH) auto
  then show ?case using Cons.prems by (simp only: writeOffsets.simps Let_def u u2 sp) (simp add: slice_def)
qed simp


lemma mapM_Ok: "list_all2 (\<lambda>x y. f x = Ok y) xs ys \<Longrightarrow> mapM f xs = Ok ys"
  by (induction xs ys rule: list_all2_induct) simp_all

lemma sliceW_Ok:
  "a \<le> b \<Longrightarrow> b \<le> length page \<Longrightarrow> length page = 16384 \<Longrightarrow>
   sliceW page (of_nat a) (of_nat b) = Ok (sub page a (b - a))"
  by (simp add: sliceW_def unat_of_nat16)

lemma cellOffsets_sub:
  assumes "length A + length (concat (rev cs)) = fe"
  shows "list_all2 (\<lambda>off c. sub (A @ concat (rev cs) @ Q) off (length c) = c \<and> off + length c \<le> fe) (cellOffsets fe cs) cs"
  using assms
proof (induction cs arbitrary: fe Q)
  case (Cons c cs)
  let ?fe = "fe - length c"
  have fe: "length A + length (concat (rev cs)) = ?fe" "length c \<le> fe" using Cons.prems by auto
  have "list_all2 (\<lambda>off d. sub (A @ concat (rev cs) @ c @ Q) off (length d) = d \<and> off + length d \<le> fe) (cellOffsets ?fe cs) cs"
    using Cons.IH [OF fe(1), of "c @ Q"] by (rule list_all2_mono) auto
  moreover have "sub (A @ concat (rev cs) @ c @ Q) ?fe (length c) = c"
    using fe(1) by (simp add: sub_def flip: fe(1))
  ultimately show ?case using fe(2) by simp
qed simp

lemma readLeafCell_Ok:
  assumes "length page = 16384" "sub page off (length (leafCell key ptr)) = leafCell key ptr"
    and "off + length (leafCell key ptr) \<le> 16384"
  shows "readLeafCell page (of_nat off) = Ok (key, ptr)"
proof -
  let ?n = "length key"
  have len: "length (leafCell key ptr) = ?n + 14" by (simp add: leafCell_def)
  have part: "sub page (off + i) m = sub (leafCell key ptr) i m" if "i + m \<le> ?n + 14" for i m
    using sub_sub [of i m "?n + 14" off page] assms that by (simp add: len)
  have w: "(of_nat off + 2 :: 16 word) = of_nat (off + 2)"
    "(of_nat (off + 2) + of_nat ?n :: 16 word) = of_nat (off + 2 + ?n)"
    "(of_nat (off + 2 + ?n) + 8 :: 16 word) = of_nat (off + 2 + ?n + 8)"
    "(of_nat (off + 2 + ?n) + 12 :: 16 word) = of_nat (off + 2 + ?n + 12)" by simp_all
  have s1: "sliceW page (of_nat off) (of_nat (off + 2)) = Ok (PutUint16 (of_nat ?n))"
    using part [of 0 2] assms by (subst sliceW_Ok) (simp_all add: len leafCell_def sub_def)
  have s2: "sliceW page (of_nat (off + 2)) (of_nat (off + 2 + ?n)) = Ok key"
    using part [of 2 ?n] assms by (subst sliceW_Ok) (simp_all add: len leafCell_def sub_def)
  have s3: "sliceW page (of_nat (off + 2 + ?n)) (of_nat (off + 2 + ?n + 8)) = Ok (PutUint64 (Offset ptr))"
    using part [of "2 + ?n" 8] assms by (subst sliceW_Ok) (simp_all add: len leafCell_def sub_def ac_simps)
  have s4: "sliceW page (of_nat (off + 2 + ?n + 8)) (of_nat (off + 2 + ?n + 12)) = Ok (PutUint32 (Size ptr))"
    using part [of "2 + ?n + 8" 4] assms by (subst sliceW_Ok) (simp_all add: len leafCell_def sub_def ac_simps)
  show ?thesis
    unfolding readLeafCell_def w(1) s1 mapR_simps bindR.simps Uint16_PutUint16 w(2) s2 w(3,4) s3 s4
    by simp
qed

lemma readInternalCell_Ok:
  assumes "length page = 16384" "sub page off (length (internalCell key child)) = internalCell key child"
    and "off + length (internalCell key child) \<le> 16384"
  shows "readInternalCell page (of_nat off) = Ok (key, child)"
proof -
  let ?n = "length key"
  have len: "length (internalCell key child) = ?n + 10" by (simp add: internalCell_def)
  have part: "sub page (off + i) m = sub (internalCell key child) i m" if "i + m \<le> ?n + 10" for i m
    using sub_sub [of i m "?n + 10" off page] assms that by (simp add: len)
  have w: "(of_nat off + 8 :: 16 word) = of_nat (off + 8)" "(of_nat off + 10 :: 16 word) = of_nat (off + 10)"
    "(of_nat (off + 10) + of_nat ?n :: 16 word) = of_nat (off + 10 + ?n)" by simp_all
  have s1: "sliceW page (of_nat off) (of_nat (off + 8)) = Ok (PutUint64 child)"
    using part [of 0 8] assms by (subst sliceW_Ok) (simp_all add: len internalCell_def sub_def)
  have s2: "sliceW page (of_nat (off + 8)) (of_nat (off + 10)) = Ok (PutUint16 (of_nat ?n))"
    using part [of 8 2] assms by (subst sliceW_Ok) (simp_all add: len internalCell_def sub_def)
  have s3: "sliceW page (of_nat (off + 10)) (of_nat (off + 10 + ?n)) = Ok key"
    using part [of 10 ?n] assms by (subst sliceW_Ok) (simp_all add: len internalCell_def sub_def)
  show ?thesis
    unfolding readInternalCell_def w(1,2) s1 s2 mapR_simps bindR.simps Uint16_PutUint16 w(3) s3 by simp
qed


text \<open>The page of a node that fits: header, directory, free space, cells from the last to the
  first.\<close>

definition nodePage :: "BPlusNode \<Rightarrow> bytes" where
  "nodePage node =
     (let n = length (nd_Keys node); total = length (concat (cells node)) in
      headerBytes (nodeHeader node (of_nat (48 + 2 * n)) (of_nat (16384 - total)))
      @ concat (map PutUint16 (map of_nat (cellOffsets 16384 (cells node))))
      @ replicate (16384 - nodeSize node) 0 @ concat (rev (cells node)))"

lemma concat_PutUint16 [simp]: "length (concat (map PutUint16 ws)) = 2 * length ws"
  by (induction ws) simp_all

lemma length_concat_rev [simp]: "length (concat (rev xs)) = length (concat xs)"
  by (induction xs) simp_all

lemma length_nodePage:
  "nodeShape node \<Longrightarrow> nodeSize node \<le> 16384 \<Longrightarrow> length (nodePage node) = 16384"
  by (simp add: nodePage_def Let_def length_cells nodeSize_def del: map_map)

lemma cellData_all: "nodeShape node \<Longrightarrow>
  list_all2 (\<lambda>i c. cellData node i = Ok c) [0..<length (nd_Keys node)] (cells node)"
  by (simp add: list_all2_conv_all_nth length_cells cellData_cells)

lemma Serialize_Ok:
  assumes "nodeShape node" "nodeSize node \<le> 16384"
  shows "Serialize node = Ok (updateChecksum (nodePage node))"
proof -
  let ?n = "length (nd_Keys node)" and ?cs = "cells node"
  let ?t = "length (concat ?cs)"
  let ?offs = "map of_nat (cellOffsets 16384 ?cs) :: 16 word list"
  let ?h = "nodeHeader node (of_nat (48 + 2 * ?n)) (of_nat (16384 - ?t))"
  have sz: "48 + 2 * ?n + ?t \<le> 16384" using assms(2) by (simp add: nodeSize_def)
  have start: "(48 + 2 * of_nat ?n :: 16 word) = of_nat (48 + 2 * ?n)" by simp
  have cells: "writeCells node (of_nat (48 + 2 * ?n)) [0..<?n] emptyPage (of_nat IndexPageSize) =
      Ok (replicate (16384 - ?t) 0 @ concat (rev ?cs), of_nat (16384 - ?t), ?offs)"
    using writeCells_Ok [OF cellData_all [OF assms(1)], of "48 + 2 * ?n" 16384 "[]"] sz
    unfolding emptyPage_def IndexPageSize_def by simp
  have hd: "writeHeader (replicate (16384 - ?t) 0 @ concat (rev ?cs)) ?h
      = headerBytes ?h @ replicate (16384 - ?t - 48) 0 @ concat (rev ?cs)"
    using sz by (simp add: writeHeader_def splice_def)
  have offs: "writeOffsets (headerBytes ?h @ replicate (16384 - ?t - 48) 0 @ concat (rev ?cs)) 0 ?offs =
      Ok (headerBytes ?h @ concat (map PutUint16 ?offs) @ replicate (16384 - ?t - 48 - 2 * ?n) 0 @ concat (rev ?cs))"
    using writeOffsets_Ok [of "headerBytes ?h" 0 ?offs "16384 - ?t - 48" "concat (rev ?cs)"] sz assms(1)
    by (simp add: length_cells)
  have gap: "16384 - ?t - 48 - 2 * ?n = 16384 - nodeSize node" by (simp add: nodeSize_def)
  show ?thesis
    unfolding Serialize_def Let_def start cells bindR.simps prod.case hd offs nodePage_def gap ..
qed

lemma Serialize_overflow:
  assumes "nodeShape node" "16384 < nodeSize node" "48 + 2 * length (nd_Keys node) \<le> 16384"
    and "list_all (\<lambda>k. length k < 65520) (nd_Keys node)"
  shows "Serialize node = Err PageOverflow"
proof -
  let ?n = "length (nd_Keys node)"
  have start: "(48 + 2 * of_nat ?n :: 16 word) = of_nat (48 + 2 * ?n)" by simp
  have "list_all (\<lambda>c. length c < 65536) (cells node)"
    using assms(4) by (auto simp: cells_def list_all_iff leafCell_def internalCell_def dest!: set_zip_leftD)
  then have "writeCells node (of_nat (48 + 2 * ?n)) [0..<?n] emptyPage (of_nat IndexPageSize) = Err PageOverflow"
    using writeCells_overflow [OF cellData_all [OF assms(1)], of "48 + 2 * ?n" 16384 "[]"] assms(2,3)
    unfolding emptyPage_def IndexPageSize_def by (simp add: nodeSize_def)
  then show ?thesis unfolding Serialize_def Let_def start by simp
qed

lemma readOffset_Ok:
  assumes "length X = 48" "page = X @ concat (map PutUint16 ws) @ R" "length page = 16384" "i < length ws"
  shows "readOffset page i = Ok (ws ! i)"
proof -
  have w: "(48 + 2 * of_nat i :: 16 word) = of_nat (48 + 2 * i)" "(of_nat (48 + 2 * i) + 2 :: 16 word) = of_nat (50 + 2 * i)"
    by simp_all
  have d: "take 2 (drop (2 * i) (concat (map PutUint16 ws) @ R)) = PutUint16 (ws ! i)" if "i < length ws" for i ws
    using that
  proof (induction ws arbitrary: i)
    case (Cons w ws)
    then show ?case by (cases i) simp_all
  qed simp
  have "sliceW page (of_nat (48 + 2 * i)) (of_nat (50 + 2 * i)) = Ok (sub page (48 + 2 * i) (50 + 2 * i - (48 + 2 * i)))"
    using assms by (intro sliceW_Ok) simp_all
  also have "sub page (48 + 2 * i) (50 + 2 * i - (48 + 2 * i)) = PutUint16 (ws ! i)"
    using d [OF assms(4)] assms(1,2) by (simp add: sub_def)
  finally show ?thesis unfolding readOffset_def Let_def w by simp
qed

text \<open>Reading a page that holds the cells of a node.\<close>

lemma read_cells:
  assumes "length page = 16384" "nodeShape node"
    and "list_all2 (\<lambda>off c. sub page off (length c) = c \<and> off + length c \<le> 16384) offs (cells node)"
  shows "nd_PageType node = PageTypeLeaf \<Longrightarrow>
      mapM (readLeafCell page) (map of_nat offs) = Ok (zip (nd_Keys node) (nd_Pointers node))"
    and "nd_PageType node = PageTypeInternal \<Longrightarrow>
      mapM (readInternalCell page) (map of_nat offs) = Ok (zip (nd_Keys node) (butlast (nd_Children node)))"
proof -
  have len: "length offs = length (nd_Keys node)"
    using assms(2,3) length_cells list_all2_lengthD by fastforce
  have at: "sub page (offs ! i) (length (cells node ! i)) = cells node ! i \<and> offs ! i + length (cells node ! i) \<le> 16384"
    if "i < length (nd_Keys node)" for i
    using assms(3) that len by (auto simp: list_all2_conv_all_nth)
  show "mapM (readLeafCell page) (map of_nat offs) = Ok (zip (nd_Keys node) (nd_Pointers node))"
    if leaf: "nd_PageType node = PageTypeLeaf"
  proof (rule mapM_Ok, rule list_all2_all_nthI)
    have p: "length (nd_Pointers node) = length (nd_Keys node)"
      using assms(2) leaf by (auto simp: nodeShape_def PageTypeLeaf_def PageTypeInternal_def)
    then show "length (map of_nat offs) = length (zip (nd_Keys node) (nd_Pointers node))" using len by simp
    fix i assume "i < length (map of_nat offs :: 16 word list)"
    then show "readLeafCell page (map of_nat offs ! i) = Ok (zip (nd_Keys node) (nd_Pointers node) ! i)"
      using at [of i] len p leaf assms(1)
      by (simp add: cells_def) (rule readLeafCell_Ok, simp_all)
  qed
  show "mapM (readInternalCell page) (map of_nat offs) = Ok (zip (nd_Keys node) (butlast (nd_Children node)))"
    if int: "nd_PageType node = PageTypeInternal"
  proof (rule mapM_Ok, rule list_all2_all_nthI)
    have p: "length (nd_Children node) = Suc (length (nd_Keys node))"
      using assms(2) int by (auto simp: nodeShape_def PageTypeLeaf_def PageTypeInternal_def)
    then show "length (map of_nat offs) = length (zip (nd_Keys node) (butlast (nd_Children node)))" using len by simp
    fix i assume "i < length (map of_nat offs :: 16 word list)"
    then show "readInternalCell page (map of_nat offs ! i) = Ok (zip (nd_Keys node) (butlast (nd_Children node)) ! i)"
      using at [of i] len p int assms(1)
      by (simp add: cells_def PageTypeLeaf_def PageTypeInternal_def nth_butlast) (rule readInternalCell_Ok, simp_all)
  qed
qed


text \<open>What comes back from the disk: an internal node keeps its last child in the header's sibling
  field, so that field is its last child.\<close>

definition diskNode :: "BPlusNode \<Rightarrow> BPlusNode" where
  "diskNode node = (if nd_PageType node = PageTypeInternal then node\<lparr>nd_RightSibling := last (nd_Children node)\<rparr> else node)"

lemma node_roundtrip_lemma:
  assumes shape: "nodeShape node" and size: "nodeSize node \<le> 16384"
  shows "DeserializeNode (updateChecksum (nodePage node)) = Ok (diskNode node)"
proof -
  let ?n = "length (nd_Keys node)" and ?cs = "cells node"
  let ?t = "length (concat ?cs)"
  let ?nats = "cellOffsets 16384 ?cs"
  let ?offs = "map of_nat ?nats :: 16 word list"
  let ?h = "nodeHeader node (of_nat (48 + 2 * ?n)) (of_nat (16384 - ?t))"
  let ?R = "replicate (16384 - nodeSize node) 0 @ concat (rev ?cs)"
  let ?page = "updateChecksum (nodePage node)"
  have np: "nodePage node = headerBytes ?h @ concat (map PutUint16 ?offs) @ ?R" by (simp add: nodePage_def Let_def)
  have lp: "length (nodePage node) = 16384" using length_nodePage [OF shape size] .
  then have lpage: "length ?page = 16384" by simp
  obtain X where X: "length X = 48" "?page = X @ concat (map PutUint16 ?offs) @ ?R"
    using updateChecksum_append [of "headerBytes ?h" "concat (map PutUint16 ?offs) @ ?R"] np by auto
  have v: "validateChecksum ?page = Ok ()" using lp by (intro validateChecksum_updateChecksum) simp
  obtain c where "readHeader ?page = (readHeader (nodePage node))\<lparr>ph_Checksum := c\<rparr>"
    using readHeader_updateChecksum [of "nodePage node"] lp by auto
  then have hd: "readHeader ?page = ?h\<lparr>ph_Checksum := c\<rparr>" by (simp add: np readHeader_headerBytes)
  have n: "?n < 65536" using size by (simp add: nodeSize_def)
  have h: "ph_Magic (readHeader ?page) = NodeMagic" "unat (ph_CellCount (readHeader ?page)) = ?n"
    "ph_PageType (readHeader ?page) = nd_PageType node" "ph_PageID (readHeader ?page) = nd_PageID node"
    "ph_Generation (readHeader ?page) = nd_Generation node"
    "ph_RightSibling (readHeader ?page) = (if nd_PageType node = PageTypeInternal \<and> nd_Children node \<noteq> []
       then last (nd_Children node) else nd_RightSibling node)"
    unfolding hd using unat_of_nat16 [OF n] by (simp_all add: nodeHeader_def)
  have offs: "mapM (readOffset ?page) [0..<?n] = Ok ?offs"
    using readOffset_Ok [OF X(1,2) lpage] length_cells [OF shape]
    by (intro mapM_Ok list_all2_all_nthI) simp_all
  have "length (X @ concat (map PutUint16 ?offs) @ replicate (16384 - nodeSize node) 0) + length (concat (rev ?cs)) = 16384"
    using lpage X(2) by simp
  note at = cellOffsets_sub [OF this, of "[]"]
  have cells: "list_all2 (\<lambda>off c. sub ?page off (length c) = c \<and> off + length c \<le> 16384) ?nats ?cs"
    using at X(2) by simp
  consider (leaf) "nd_PageType node = PageTypeLeaf" "length (nd_Pointers node) = ?n" "nd_Children node = []"
    | (int) "nd_PageType node = PageTypeInternal" "length (nd_Children node) = Suc ?n" "nd_Pointers node = []"
    using shape by (auto simp: nodeShape_def)
  then show ?thesis
  proof cases
    case leaf
    then have ne: "nd_PageType node \<noteq> PageTypeInternal" by (simp add: PageTypeLeaf_def PageTypeInternal_def)
    show ?thesis
      using read_cells(1) [OF lpage shape cells leaf(1)] leaf ne
      by (simp add: DeserializeNode_def v h offs diskNode_def Let_def)
  next
    case int
    then have ne: "nd_PageType node \<noteq> PageTypeLeaf" "nd_Children node \<noteq> []"
      by (auto simp: PageTypeLeaf_def PageTypeInternal_def)
    show ?thesis
      using read_cells(2) [OF lpage shape cells int(1)] int ne append_butlast_last_id [OF ne(2)]
      by (simp add: DeserializeNode_def v h offs diskNode_def Let_def)
  qed
qed

section \<open>Properties of the pages\<close>

definition exampleLeaf :: BPlusNode where
  "exampleLeaf = \<lparr>nd_PageID = 7, nd_PageType = PageTypeLeaf, nd_Generation = 3,
     nd_Keys = [[4, 0, 0, 0, 1], [4, 0, 0, 0, 2]],
     nd_Pointers = [\<lparr>Offset = 0, Size = 10\<rparr>, \<lparr>Offset = 10, Size = 20\<rparr>], nd_Children = [], nd_RightSibling = 0\<rparr>"

text \<open>C21: a node whose cells fit a page is serialized to a page of 16 KiB with a valid checksum, and
  reading that page gives the node back.\<close>

theorem node_roundtrip:
  assumes "nodeShape node" "nodeSize node \<le> 16384"
  shows "\<exists>page. Serialize node = Ok page \<and> length page = IndexPageSize \<and> validateChecksum page = Ok () \<and>
     DeserializeNode page = Ok (diskNode node)"
  using Serialize_Ok [OF assms] length_nodePage [OF assms] node_roundtrip_lemma [OF assms]
    validateChecksum_updateChecksum [of "nodePage node"]
  by (simp add: IndexPageSize_def)

theorem node_roundtrip_witness:
  "\<exists>page. Serialize exampleLeaf = Ok page \<and> DeserializeNode page = Ok exampleLeaf"
proof -
  have "nodeShape exampleLeaf" "nodeSize exampleLeaf \<le> 16384" "diskNode exampleLeaf = exampleLeaf"
    by (simp_all add: nodeShape_def nodeSize_def cells_def leafCell_def exampleLeaf_def diskNode_def
        PageTypeLeaf_def PageTypeInternal_def)
  then show ?thesis using node_roundtrip [of exampleLeaf] by auto
qed

text \<open>A node that does not fit is refused with the overflow error, not truncated, as long as
  every key is shorter than 65520 bytes (beyond that the 16-bit cell length wraps).\<close>

theorem node_overflow_refused:
  assumes "nodeShape node" "16384 < nodeSize node" "48 + 2 * length (nd_Keys node) \<le> 16384"
    and "list_all (\<lambda>k. length k < 65520) (nd_Keys node)"
  shows "Serialize node = Err PageOverflow"
  using Serialize_overflow [OF assms] .

theorem node_overflow_refused_witness:
  "Serialize (exampleLeaf\<lparr>nd_Keys := [replicate 10000 1, replicate 10000 2]\<rparr>) = Err PageOverflow"
  by (rule node_overflow_refused)
     (simp_all add: nodeShape_def nodeSize_def cells_def leafCell_def exampleLeaf_def PageTypeLeaf_def PageTypeInternal_def)

text \<open>Writing a page makes it readable with a valid checksum and leaves every other page of the
  file as it was.\<close>

theorem page_write_isolated:
  assumes "addressable pageID" "length page = IndexPageSize"
  shows "readPage OpenFile (snd (writePage OpenFile disk pageID page WOk)) pageID = Ok (updateChecksum page) \<and>
    (\<forall>q pg. addressable q \<and> q \<noteq> pageID \<and> readPage OpenFile disk q = Ok pg \<longrightarrow>
       readPage OpenFile (snd (writePage OpenFile disk pageID page WOk)) q = Ok pg)"
  using readPage_writePage [OF assms] readPage_writePage_other [OF assms(1)] assms(2) by blast

theorem page_write_isolated_witness:
  "readPage OpenFile (snd (writePage OpenFile [] 5 emptyPage WOk)) 5 = Ok (updateChecksum emptyPage)"
  using page_write_isolated [of 5 emptyPage "[]"] by (simp add: addressable_def IndexPageSize_def)

text \<open>The superblock is read back as it was written, up to the checksum that writing it fills
  in.\<close>

theorem superblock_roundtrip:
  assumes "sb_Magic sb = SuperblockMagic"
  shows "\<exists>c. deserializeSuperblock (updateChecksum (serializeSuperblock sb)) = Ok (sb\<lparr>sb_Checksum := c\<rparr>)"
  using superblock_roundtrip_lemma [OF assms] .

theorem superblock_roundtrip_witness:
  "\<exists>c. deserializeSuperblock (updateChecksum (serializeSuperblock
       \<lparr>sb_Magic = SuperblockMagic, sb_Version = 1, sb_PageSize = 16384, sb_Generation = 4, CatalogRootPageID = 2,
        NextPageID = 9, sb_Checksum = 0\<rparr>))
     = Ok \<lparr>sb_Magic = SuperblockMagic, sb_Version = 1, sb_PageSize = 16384, sb_Generation = 4, CatalogRootPageID = 2,
        NextPageID = 9, sb_Checksum = c\<rparr>"
  using superblock_roundtrip [of "\<lparr>sb_Magic = SuperblockMagic, sb_Version = 1, sb_PageSize = 16384, sb_Generation = 4,
    CatalogRootPageID = 2, NextPageID = 9, sb_Checksum = 0\<rparr>"] by simp

text \<open>A catalog whose index roots fit the page is read back with every root and with the free
  pages that found room behind them.\<close>

theorem catalog_roundtrip:
  assumes "catalogFits roots"
  shows "\<exists>page. serializeCatalog roots freeList pageID generation = Ok page \<and> length page = IndexPageSize \<and>
     deserializeCatalog page = Ok (roots, keptFree roots freeList)"
  using catalog_roundtrip_lemma [OF assms] .

theorem catalog_roundtrip_witness:
  "\<exists>page. serializeCatalog [\<lparr>ir_Name = ''primary'', RootPageID = 3, ir_Generation = 2, ir_Unique = True, ir_Ordered = True\<rparr>]
       [5, 6] 4 2 = Ok page \<and>
     deserializeCatalog page =
       Ok ([\<lparr>ir_Name = ''primary'', RootPageID = 3, ir_Generation = 2, ir_Unique = True, ir_Ordered = True\<rparr>], [5, 6])"
proof -
  let ?r = "[\<lparr>ir_Name = ''primary'', RootPageID = 3, ir_Generation = 2, ir_Unique = True, ir_Ordered = True\<rparr>]"
  have "catalogFits ?r" "keptFree ?r [5, 6] = [5, 6]" by (simp_all add: catalogFits_def keptFree_def)
  then show ?thesis using catalog_roundtrip [of ?r "[5, 6]" 4 2] by auto
qed

end
