(* ===== verification/TreeState.thy ===== *)
theory TreeState
  imports BPlusTree PageLaws
begin

text \<open>
  What the primitive operations of the disk B+ tree do to the state: the view \<open>peek\<close> of the
  nodes (the cache over the file), the pages that may still be handed out, and the invariant
  \<open>stateOk\<close> that ties cache, dirty pages, free pages and file together. The relation \<open>effect\<close>
  bounds what an operation may have changed; it composes, so that the laws of the tree
  operations are proved from the laws of the primitives.
\<close>

section \<open>Running operations\<close>

lemma returnT_run [simp]: "returnT x t = (Ok x, t)"
  by (simp add: returnT_def)

lemma liftT_run [simp]: "liftT r t = (r, t)"
  by (simp add: liftT_def)

lemma modifyT_run [simp]: "modifyT f t = (Ok (), f t)"
  by (simp add: modifyT_def)

lemma bindT_Ok [simp]: "m t = (Ok x, t') \<Longrightarrow> bindT m f t = f x t'"
  by (simp add: bindT_def)

lemma bindT_Err [simp]: "m t = (Err e, t') \<Longrightarrow> bindT m f t = (Err e, t')"
  by (simp add: bindT_def)

lemma bindT_Panic [simp]: "m t = (Panic p, t') \<Longrightarrow> bindT m f t = (Panic p, t')"
  by (simp add: bindT_def)

lemma setAt_Ok [simp]: "i < length xs \<Longrightarrow> setAt i x xs = Ok (xs[i := x])"
  by (simp add: setAt_def)

lemma insertAt_Ok [simp]: "i \<le> length xs \<Longrightarrow> insertAt i x xs = Ok (take i xs @ x # drop i xs)"
  by (simp add: insertAt_def)

lemma removeAt_Ok [simp]: "i < length xs \<Longrightarrow> removeAt i xs = Ok (take i xs @ drop (Suc i) xs)"
  by (simp add: removeAt_def)

section \<open>The view of the nodes\<close>

definition onDisk :: "DiskBPlusTree \<Rightarrow> PageID \<Rightarrow> BPlusNode option" where
  "onDisk t p = (case bindR (readPage (bt_file t) (bt_disk t) p) DeserializeNode of Ok n \<Rightarrow> Some n | _ \<Rightarrow> None)"

definition peek :: "DiskBPlusTree \<Rightarrow> PageID \<Rightarrow> BPlusNode option" where
  "peek t p = (case nodeCache t p of Some n \<Rightarrow> Some n | None \<Rightarrow> onDisk t p)"

lemma onDisk_cong: "bt_file t' = bt_file t \<Longrightarrow> bt_disk t' = bt_disk t \<Longrightarrow> onDisk t' = onDisk t"
  by (rule ext) (simp add: onDisk_def)

lemma onDisk_Some: "onDisk t p = Some n \<longleftrightarrow> bindR (readPage (bt_file t) (bt_disk t) p) DeserializeNode = Ok n"
  by (simp add: onDisk_def split: res.splits)

section \<open>Pages that may be handed out\<close>

definition avail :: "DiskBPlusTree \<Rightarrow> PageID set" where
  "avail t = set (freeList t) \<union> {p. nextPageID t \<le> p}"

definition reserved :: "DiskBPlusTree \<Rightarrow> PageID set" where
  "reserved t = avail t \<union> set (orphanedList t)"

definition stateOk :: "DiskBPlusTree \<Rightarrow> bool" where
  "stateOk t = (distinct (freeList t @ orphanedList t)
     \<and> (\<forall>p \<in> set (freeList t @ orphanedList t). 3 \<le> p \<and> p < nextPageID t)
     \<and> 3 \<le> nextPageID t)"

text \<open>A cached node is dirty, or it is the node on the file up to the right sibling of an inner node, which
  is not stored.\<close>

definition clean :: "DiskBPlusTree \<Rightarrow> PageID \<Rightarrow> bool" where
  "clean t p = (p \<in> set (dirtyNodes t) \<or> (\<forall>n. nodeCache t p = Some n \<longrightarrow> map_option diskNode (onDisk t p) = Some (diskNode n)))"

lemma clean_dirty: "p \<in> set (dirtyNodes t) \<Longrightarrow> clean t p"
  by (simp add: clean_def)

lemma avail_ge_3: "stateOk t \<Longrightarrow> p \<in> avail t \<Longrightarrow> 3 \<le> p"
  by (auto simp: stateOk_def avail_def)

lemma reserved_ge_3: "stateOk t \<Longrightarrow> p \<in> reserved t \<Longrightarrow> 3 \<le> p"
  by (auto simp: stateOk_def avail_def reserved_def)

text \<open>\<open>effect S n t t'\<close>: only nodes on the pages \<open>S\<close> and on newly handed out pages may have changed, at
  most \<open>n\<close> pages were taken from the end of the file, and only pages of \<open>S\<close> became orphans.\<close>

definition effect :: "PageID set \<Rightarrow> nat \<Rightarrow> DiskBPlusTree \<Rightarrow> DiskBPlusTree \<Rightarrow> bool" where
  "effect S n t t' = (stateOk t' \<and> avail t' \<subseteq> avail t
     \<and> (\<forall>p. p \<notin> S \<union> (avail t - avail t') \<longrightarrow> peek t' p = peek t p)
     \<and> set (dirtyNodes t) \<subseteq> set (dirtyNodes t') \<and> (\<forall>p. clean t p \<longrightarrow> clean t' p)
     \<and> set (orphanedList t) \<subseteq> set (orphanedList t')
     \<and> set (orphanedList t') \<subseteq> set (orphanedList t) \<union> S
     \<and> unat (nextPageID t') \<le> unat (nextPageID t) + n \<and> nextPageID t \<le> nextPageID t'
     \<and> bt_catalog t' = bt_catalog t \<and> catalogRoot t' = catalogRoot t \<and> bt_generation t' = bt_generation t
     \<and> bt_file t' = bt_file t \<and> bt_disk t' = bt_disk t \<and> bt_io t' = bt_io t)"

lemma effect_refl: "stateOk t \<Longrightarrow> effect S n t t"
  by (simp add: effect_def)

lemma effect_trans:
  assumes a: "effect S n t t'" and b: "effect S' m t' t''"
  shows "effect (S \<union> S') (n + m) t t''"
proof -
  have av: "avail t'' \<subseteq> avail t'" "avail t' \<subseteq> avail t" using a b by (auto simp: effect_def)
  have "peek t'' p = peek t p" if p: "p \<notin> (S \<union> S') \<union> (avail t - avail t'')" for p
  proof -
    have "peek t'' p = peek t' p" using b p av by (auto simp: effect_def)
    also have "\<dots> = peek t p" using a p av by (auto simp: effect_def)
    finally show ?thesis .
  qed
  then show ?thesis using a b av unfolding effect_def by auto
qed

lemma effect_mono: "effect S n t t' \<Longrightarrow> S \<subseteq> S' \<Longrightarrow> n \<le> m \<Longrightarrow> effect S' m t t'"
  by (auto simp: effect_def)

text \<open>An operation may also touch pages that were free before: they count as newly handed out
  only when they are in use after.\<close>

lemma effect_trans':
  assumes a: "effect S n t t'" and b: "effect S' m t' t''" and S': "S' \<subseteq> S \<union> (avail t - avail t')"
    and o: "set (orphanedList t'') \<inter> S' \<subseteq> set (orphanedList t') \<union> S"
  shows "effect S (n + m) t t''"
proof -
  have av: "avail t'' \<subseteq> avail t'" "avail t' \<subseteq> avail t" using a b by (auto simp: effect_def)
  have "peek t'' p = peek t p" if p: "p \<notin> S \<union> (avail t - avail t'')" for p
  proof -
    have "peek t'' p = peek t' p" using b p av S' by (auto simp: effect_def)
    also have "\<dots> = peek t p" using a p av by (auto simp: effect_def)
    finally show ?thesis .
  qed
  moreover have "set (orphanedList t'') \<subseteq> set (orphanedList t) \<union> S"
  proof -
    have "set (orphanedList t'') \<subseteq> set (orphanedList t') \<union> S'" "set (orphanedList t') \<subseteq> set (orphanedList t) \<union> S"
      using a b by (auto simp: effect_def)
    then show ?thesis using o by blast
  qed
  ultimately show ?thesis using a b av unfolding effect_def by auto
qed

lemma effect_reserved: "effect S n t t' \<Longrightarrow> reserved t' \<subseteq> reserved t \<union> S"
  by (auto simp: effect_def reserved_def)

text \<open>\<open>touched t t' P\<close>: only the nodes on the pages \<open>P\<close> changed or became dirty.\<close>

definition touched :: "DiskBPlusTree \<Rightarrow> DiskBPlusTree \<Rightarrow> PageID set \<Rightarrow> bool" where
  "touched t t' P = ((\<forall>p. p \<notin> P \<longrightarrow> peek t' p = peek t p) \<and> set (dirtyNodes t') \<subseteq> set (dirtyNodes t) \<union> P)"

lemma touched_refl: "touched t t P"
  by (simp add: touched_def)

lemma touched_mono: "touched t t' P \<Longrightarrow> P \<subseteq> Q \<Longrightarrow> touched t t' Q"
  unfolding touched_def by blast

lemma touched_trans: "touched t t' P \<Longrightarrow> touched t' t'' Q \<Longrightarrow> P \<subseteq> R \<Longrightarrow> Q \<subseteq> R \<Longrightarrow> touched t t'' R"
  unfolding touched_def by (auto 0 4)

text \<open>\<open>sameView t t'\<close>: at most the cache was filled.\<close>

definition sameView :: "DiskBPlusTree \<Rightarrow> DiskBPlusTree \<Rightarrow> bool" where
  "sameView t t' = (effect {} 0 t t' \<and> clean t' = clean t \<and> peek t' = peek t \<and> avail t' = avail t \<and> reserved t' = reserved t
     \<and> orphanedList t' = orphanedList t \<and> dirtyNodes t' = dirtyNodes t \<and> freeList t' = freeList t
     \<and> nextPageID t' = nextPageID t)"

lemma sameView_refl: "stateOk t \<Longrightarrow> sameView t t"
  by (simp add: sameView_def effect_refl)

lemma sameView_trans: "sameView t t' \<Longrightarrow> sameView t' t'' \<Longrightarrow> sameView t t''"
  using effect_trans [of "{}" 0 t t' "{}" 0 t''] by (simp add: sameView_def)

lemma sameView_stateOk: "sameView t t' \<Longrightarrow> stateOk t'"
  by (simp add: sameView_def effect_def)

lemma sameView_touched: "sameView t t' \<Longrightarrow> touched t t' {}"
  by (simp add: sameView_def touched_def)

lemma effect_stateOk: "effect S n t t' \<Longrightarrow> stateOk t'"
  by (simp add: effect_def)

section \<open>The primitives\<close>

lemma getNode_run:
  assumes "stateOk t" "peek t p = Some n"
  shows "\<exists>t'. getNode p t = (Ok n, t') \<and> sameView t t'"
proof (cases "nodeCache t p")
  case None
  then have d: "onDisk t p = Some n" using assms(2) by (simp add: peek_def)
  let ?t = "t\<lparr>nodeCache := (nodeCache t)(p \<mapsto> n)\<rparr>"
  have od: "onDisk ?t = onDisk t" by (rule onDisk_cong) simp_all
  have "getNode p t = (Ok n, ?t)" using None d by (simp add: getNode_def onDisk_Some)
  moreover have pk: "peek ?t = peek t" using None d by (intro ext) (auto simp: peek_def od split: option.split)
  moreover have "avail ?t = avail t" "reserved ?t = reserved t" by (simp_all add: avail_def reserved_def)
  moreover have "stateOk ?t" using assms(1) by (simp add: stateOk_def)
  moreover have "clean ?t = clean t" using None d by (intro ext) (auto simp: clean_def od)
  ultimately show ?thesis by (auto simp: effect_def sameView_def)
next
  case (Some m)
  then have "getNode p t = (Ok n, t)" using assms(2) by (simp add: getNode_def peek_def)
  then show ?thesis using assms(1) by (auto intro: sameView_refl)
qed

lemma markDirty_run:
  assumes "stateOk t"
  shows "\<exists>t'. markDirty p t = (Ok (), t') \<and> effect {} 0 t t' \<and> peek t' = peek t \<and> avail t' = avail t
     \<and> orphanedList t' = orphanedList t \<and> p \<in> set (dirtyNodes t') \<and> reserved t' = reserved t \<and> touched t t' {p}"
proof -
  let ?t = "t\<lparr>dirtyNodes := List.insert p (dirtyNodes t)\<rparr>"
  have od: "onDisk ?t = onDisk t" by (rule onDisk_cong) simp_all
  have "peek ?t = peek t" by (rule ext) (simp add: peek_def od split: option.split)
  moreover have "avail ?t = avail t" "reserved ?t = reserved t" by (simp_all add: avail_def reserved_def)
  moreover have "stateOk ?t" using assms by (simp add: stateOk_def)
  moreover have "clean t p \<Longrightarrow> clean ?t p" for p using assms by (auto simp: clean_def od)
  ultimately show ?thesis by (auto simp: effect_def touched_def markDirty_def)
qed

lemma putNode_run:
  assumes "stateOk t" "at \<in> set (dirtyNodes t)"
  shows "\<exists>t'. putNode at n t = (Ok (), t') \<and> effect {at} 0 t t' \<and> peek t' = (peek t)(at \<mapsto> n) \<and> avail t' = avail t
     \<and> orphanedList t' = orphanedList t \<and> dirtyNodes t' = dirtyNodes t \<and> reserved t' = reserved t \<and> touched t t' {at}"
proof -
  let ?t = "t\<lparr>nodeCache := (nodeCache t)(at \<mapsto> n)\<rparr>"
  have od: "onDisk ?t = onDisk t" by (rule onDisk_cong) simp_all
  have "peek ?t = (peek t)(at \<mapsto> n)" by (rule ext) (simp add: peek_def od split: option.split)
  moreover have "avail ?t = avail t" "reserved ?t = reserved t" by (simp_all add: avail_def reserved_def)
  moreover have "stateOk ?t" using assms by (simp add: stateOk_def)
  moreover have "clean t p \<Longrightarrow> clean ?t p" for p using assms by (auto simp: clean_def od)
  ultimately show ?thesis by (auto simp: effect_def touched_def putNode_def)
qed

lemma registerNewNode_run:
  assumes "stateOk t"
  shows "\<exists>t'. registerNewNode n t = (Ok (), t') \<and> effect {nd_PageID n} 0 t t' \<and> peek t' = (peek t)(nd_PageID n \<mapsto> n)
     \<and> avail t' = avail t \<and> orphanedList t' = orphanedList t \<and> nd_PageID n \<in> set (dirtyNodes t') \<and> reserved t' = reserved t
     \<and> touched t t' {nd_PageID n}"
proof -
  let ?t = "t\<lparr>nodeCache := (nodeCache t)(nd_PageID n \<mapsto> n), dirtyNodes := List.insert (nd_PageID n) (dirtyNodes t)\<rparr>"
  have od: "onDisk ?t = onDisk t" by (rule onDisk_cong) simp_all
  have "peek ?t = (peek t)(nd_PageID n \<mapsto> n)" by (rule ext) (simp add: peek_def od split: option.split)
  moreover have "avail ?t = avail t" "reserved ?t = reserved t" by (simp_all add: avail_def reserved_def)
  moreover have "stateOk ?t" using assms by (simp add: stateOk_def)
  moreover have "clean t p \<Longrightarrow> clean ?t p" for p using assms by (auto simp: clean_def od)
  ultimately show ?thesis by (auto simp: effect_def touched_def registerNewNode_def)
qed

lemma markOrphaned_run:
  assumes "stateOk t" "p \<notin> reserved t" "3 \<le> p"
  shows "\<exists>t'. markOrphaned p t = (Ok (), t') \<and> effect {p} 0 t t' \<and> peek t' = peek t \<and> avail t' = avail t
     \<and> reserved t' = insert p (reserved t) \<and> dirtyNodes t' = dirtyNodes t"
proof -
  let ?t = "t\<lparr>orphanedList := orphanedList t @ [p]\<rparr>"
  have od: "onDisk ?t = onDisk t" by (rule onDisk_cong) simp_all
  have "peek ?t = peek t" by (rule ext) (simp add: peek_def od split: option.split)
  moreover have "avail ?t = avail t" "reserved ?t = insert p (reserved t)" by (auto simp: avail_def reserved_def)
  moreover have "p < nextPageID t" using assms(2) by (auto simp: reserved_def avail_def)
  then have "stateOk ?t" using assms by (auto simp: stateOk_def reserved_def avail_def)
  moreover have "clean ?t = clean t" by (intro ext) (simp add: clean_def od)
  moreover have "markOrphaned p t = (Ok (), ?t)" using assms(3) by (simp add: markOrphaned_def)
  ultimately show ?thesis by (auto simp: effect_def)
qed

lemma allocatePageID_run:
  assumes ok: "stateOk t" and room: "unat (nextPageID t) + 1 < 2 ^ 64"
  shows "\<exists>p t'. allocatePageID t = (Ok p, t') \<and> effect {} 1 t t' \<and> peek t' = peek t \<and> p \<in> avail t
     \<and> avail t' = avail t - {p} \<and> orphanedList t' = orphanedList t \<and> dirtyNodes t' = dirtyNodes t
     \<and> reserved t' = reserved t - {p}"
proof (cases "freeList t = []")
  case False
  let ?p = "last (freeList t)" and ?t = "t\<lparr>freeList := butlast (freeList t)\<rparr>"
  have f: "freeList t = butlast (freeList t) @ [?p]" using False by simp
  have od: "onDisk ?t = onDisk t" by (rule onDisk_cong) simp_all
  have pk: "peek ?t = peek t" by (rule ext) (simp add: peek_def od split: option.split)
  have "distinct (butlast (freeList t) @ [?p] @ orphanedList t)"
    using ok f unfolding stateOk_def by (metis append_assoc)
  moreover have "?p < nextPageID t" using ok False by (simp add: stateOk_def)
  ultimately have lt: "?p < nextPageID t" "?p \<notin> set (orphanedList t)" "?p \<notin> set (butlast (freeList t))"
    by simp_all
  have set: "set (freeList t) = insert ?p (set (butlast (freeList t)))" by (subst f) simp
  have av: "avail ?t = avail t - {?p}" using lt set by (auto simp: avail_def)
  have "stateOk ?t" using ok in_set_butlastD [of _ "freeList t"] by (auto simp: stateOk_def distinct_butlast)
  moreover have "clean ?t = clean t" by (intro ext) (simp add: clean_def od)
  ultimately have "effect {} 1 t ?t" using av pk by (auto simp: effect_def)
  moreover have "reserved ?t = reserved t - {?p}" using lt av by (auto simp: reserved_def)
  moreover have "?p \<in> avail t" using False by (simp add: avail_def)
  ultimately show ?thesis using False av pk by (auto simp: allocatePageID_def)
next
  case True
  let ?p = "nextPageID t" and ?t = "t\<lparr>nextPageID := nextPageID t + 1\<rparr>"
  have od: "onDisk ?t = onDisk t" by (rule onDisk_cong) simp_all
  have pk: "peek ?t = peek t" by (rule ext) (simp add: peek_def od split: option.split)
  have u: "unat (?p + 1) = unat ?p + 1" using room by (simp add: unat_word_ariths)
  have le: "?p + 1 \<le> q \<longleftrightarrow> ?p < q" for q
    unfolding word_le_nat_alt word_less_nat_alt u by auto
  have lt1: "?p < ?p + 1" by (simp add: word_less_nat_alt u)
  have "avail ?t = {q. ?p < q}" using True by (simp add: avail_def le)
  moreover have "avail t = {q. ?p \<le> q}" using True by (simp add: avail_def)
  ultimately have av: "avail ?t = avail t - {?p}" by (simp add: set_eq_iff order.strict_iff_order) blast
  have "\<forall>p \<in> set (orphanedList t). p < ?p + 1"
    using ok order.strict_trans [OF _ lt1] unfolding stateOk_def by simp
  moreover have "3 \<le> ?p" using ok by (simp add: stateOk_def)
  then have "3 \<le> ?p + 1" using lt1 by (rule order.trans [OF _ less_imp_le])
  ultimately have "stateOk ?t" using ok True unfolding stateOk_def by simp
  moreover have "clean ?t = clean t" by (intro ext) (simp add: clean_def od)
  ultimately have "effect {} 1 t ?t" using av pk u less_imp_le [OF lt1] unfolding effect_def by simp
  moreover have "?p \<notin> set (orphanedList t)" using ok by (auto simp: stateOk_def)
  moreover have "?p \<in> avail t" by (simp add: avail_def)
  ultimately show ?thesis using True av pk by (auto simp: allocatePageID_def reserved_def)
qed

lemma shadowNode_run:
  assumes ok: "stateOk t" and n: "peek t (nd_PageID n) = Some n" and live: "nd_PageID n \<notin> reserved t" "3 \<le> nd_PageID n"
    and room: "unat (nextPageID t) + 1 < 2 ^ 64"
  shows "\<exists>at m t'. shadowNode (nd_PageID n) n g t = (Ok (at, m), t') \<and> effect {nd_PageID n} 1 t t'
     \<and> nd_PageID m = at \<and> nd_PageType m = nd_PageType n \<and> nd_RightSibling m = nd_RightSibling n \<and> nd_Generation m = g
     \<and> (m = n \<or> m = newNodeLike n at g)
     \<and> at \<in> set (dirtyNodes t') \<and> at \<in> insert (nd_PageID n) (avail t - avail t') \<and> at \<notin> reserved t'
     \<and> touched t t' {at}"
proof (cases "nd_Generation n = g")
  case True
  obtain t1 where t1: "markDirty (nd_PageID n) t = (Ok (), t1)" "effect {} 0 t t1" "peek t1 = peek t"
    "reserved t1 = reserved t" "nd_PageID n \<in> set (dirtyNodes t1)" "touched t t1 {nd_PageID n}"
    using markDirty_run [OF ok] by blast
  have "shadowNode (nd_PageID n) n g t = (Ok (nd_PageID n, n), t1)" using True t1(1) by (simp add: shadowNode_def)
  moreover have "effect {nd_PageID n} 1 t t1" using t1(2) by (rule effect_mono) simp_all
  ultimately show ?thesis using True t1 live by auto
next
  case False
  obtain at t1 where t1: "allocatePageID t = (Ok at, t1)" "effect {} 1 t t1" "peek t1 = peek t" "at \<in> avail t"
    "avail t1 = avail t - {at}" "reserved t1 = reserved t - {at}" "dirtyNodes t1 = dirtyNodes t"
    using allocatePageID_run [OF ok room] by blast
  have ok1: "stateOk t1" using t1(2) by (rule effect_stateOk)
  let ?m = "newNodeLike n at g"
  have m: "nd_PageID ?m = at" "nd_PageType ?m = nd_PageType n" "nd_RightSibling ?m = nd_RightSibling n" "nd_Generation ?m = g"
    by (simp_all add: newNodeLike_def)
  obtain t2 where t2: "registerNewNode ?m t1 = (Ok (), t2)" "effect {at} 0 t1 t2" "peek t2 = (peek t1)(at \<mapsto> ?m)"
    "avail t2 = avail t1" "reserved t2 = reserved t1" "at \<in> set (dirtyNodes t2)" "orphanedList t2 = orphanedList t1" "touched t1 t2 {at}"
    using registerNewNode_run [OF ok1, of ?m] m(1) by auto
  have ok2: "stateOk t2" using t2(2) by (rule effect_stateOk)
  obtain t3 where t3: "markOrphaned (nd_PageID n) t2 = (Ok (), t3)" "effect {nd_PageID n} 0 t2 t3" "peek t3 = peek t2"
    "avail t3 = avail t2" "reserved t3 = insert (nd_PageID n) (reserved t2)" "dirtyNodes t3 = dirtyNodes t2"
    using markOrphaned_run [OF ok2, of "nd_PageID n"] live t1(6) t2(5) by auto
  have "shadowNode (nd_PageID n) n g t = (Ok (at, ?m), t3)"
    using False t1(1) t2(1) t3(1) by (simp add: shadowNode_def)
  moreover have "effect {} 1 t t2"
    using effect_trans' [OF t1(2) t2(2)] t1(4,5) t2(7) by auto
  from effect_trans [OF this t3(2)] have "effect {nd_PageID n} 1 t t3" by simp
  moreover have "touched t t3 {at}" using t2(8) t1(3,7) t3(3,6) by (simp add: touched_def)
  moreover have "at \<noteq> nd_PageID n" using t1(4) live by (auto simp: reserved_def)
  ultimately show ?thesis using m t1 t2 t3 by auto
qed

text \<open>The page operations of a split: a new page for the right half, the left half in place.\<close>

lemma split_pages_run:
  assumes ok: "stateOk t" and room: "unat (nextPageID t) + 1 < 2 ^ 64"
    and at: "at \<in> set (dirtyNodes t)" "at \<notin> reserved t" and R: "\<And>q. nd_PageID (R q) = q"
  shows "\<exists>q t1 t2 t3 t4. allocatePageID t = (Ok q, t1) \<and> registerNewNode (R q) t1 = (Ok (), t2)
     \<and> putNode at (M q) t2 = (Ok (), t3) \<and> markDirty at t3 = (Ok (), t4) \<and> effect {at} 1 t t4
     \<and> peek t4 = (peek t)(q \<mapsto> R q, at \<mapsto> M q) \<and> q \<in> avail t \<and> avail t4 = avail t - {q}
     \<and> reserved t4 = reserved t - {q} \<and> q \<noteq> at \<and> 3 \<le> q \<and> touched t t4 {q, at} \<and> {q, at} \<subseteq> set (dirtyNodes t4)"
proof -
  obtain q t1 where t1: "allocatePageID t = (Ok q, t1)" "effect {} 1 t t1" "peek t1 = peek t" "q \<in> avail t"
    "avail t1 = avail t - {q}" "dirtyNodes t1 = dirtyNodes t" "reserved t1 = reserved t - {q}"
    using allocatePageID_run [OF ok room] by blast
  obtain t2 where t2: "registerNewNode (R q) t1 = (Ok (), t2)" "effect {q} 0 t1 t2" "peek t2 = (peek t1)(q \<mapsto> R q)"
    "avail t2 = avail t1" "reserved t2 = reserved t1" "set (dirtyNodes t1) \<subseteq> set (dirtyNodes t2)"
    "orphanedList t2 = orphanedList t1" "touched t1 t2 {q}" "q \<in> set (dirtyNodes t2)"
    using registerNewNode_run [OF effect_stateOk [OF t1(2)], of "R q"] R by (auto simp: effect_def)
  have at2: "at \<in> set (dirtyNodes t2)" using at(1) t1(6) t2(6) by auto
  obtain t3 where t3: "putNode at (M q) t2 = (Ok (), t3)" "effect {at} 0 t2 t3" "peek t3 = (peek t2)(at \<mapsto> M q)"
    "avail t3 = avail t2" "reserved t3 = reserved t2" "touched t2 t3 {at}"
    using putNode_run [OF effect_stateOk [OF t2(2)] at2, of "M q"] by blast
  obtain t4 where t4: "markDirty at t3 = (Ok (), t4)" "effect {} 0 t3 t4" "peek t4 = peek t3" "avail t4 = avail t3"
    "reserved t4 = reserved t3" "touched t3 t4 {at}"
    using markDirty_run [OF effect_stateOk [OF t3(2)]] by blast
  have "effect {} 1 t t2" using effect_trans' [OF t1(2) t2(2)] t1(4,5) t2(7) by auto
  from effect_trans [OF effect_trans [OF this t3(2)] t4(2)] have "effect {at} 1 t t4" by simp
  moreover have "touched t t1 {}" using t1(3,6) by (simp add: touched_def)
  note touched_trans [OF touched_trans [OF touched_trans [OF this t2(8)] t3(6)] t4(6), of "{q, at}"]
  then have "touched t t4 {q, at}" by blast
  moreover have "{q, at} \<subseteq> set (dirtyNodes t4)" using at2 t2(9) t3(2) t4(2) by (auto simp: effect_def)
  moreover have "q \<noteq> at" using t1(4) at(2) by (auto simp: reserved_def)
  ultimately show ?thesis using t1 t2 t3 t4 avail_ge_3 [OF ok t1(4)] by auto
qed

section \<open>When a node can be serialized\<close>

text \<open>The bounds under which the machine arithmetic of \<^verbatim>\<open>Serialize\<close> does not wrap. With keys of at
  most \<open>fitLimit\<close> bytes every node of a tree also fits a page.\<close>

definition fitLimit :: nat where
  "fitLimit = 256"

definition nodeBounds :: "nat \<Rightarrow> BPlusNode \<Rightarrow> bool" where
  "nodeBounds L n = (nodeShape n \<and> length (nd_Keys n) \<le> 1361 \<and> (\<forall>k \<in> set (nd_Keys n). length k \<le> L)
     \<and> (L \<le> fitLimit \<longrightarrow> nodeSize n \<le> 16384))"

definition keyCost :: "BPlusNode \<Rightarrow> bytes \<Rightarrow> nat" where
  "keyCost n k = length k + (if nd_PageType n = PageTypeLeaf then 16 else 12)"

lemma cells_cost:
  "length ys \<ge> length ks \<Longrightarrow> length (concat (map2 leafCell ks ys)) = sum_list (map (\<lambda>k. length k + 14) ks)"
  "length zs \<ge> length ks \<Longrightarrow> length (concat (map2 internalCell ks zs)) = sum_list (map (\<lambda>k. length k + 10) ks)"
proof -
  show "length ys \<ge> length ks \<Longrightarrow> length (concat (map2 leafCell ks ys)) = sum_list (map (\<lambda>k. length k + 14) ks)"
  proof (induction ks arbitrary: ys)
    case (Cons k ks)
    then show ?case by (cases ys) (simp_all add: leafCell_def)
  qed simp
  show "length zs \<ge> length ks \<Longrightarrow> length (concat (map2 internalCell ks zs)) = sum_list (map (\<lambda>k. length k + 10) ks)"
  proof (induction ks arbitrary: zs)
    case (Cons k ks)
    then show ?case by (cases zs) (simp_all add: internalCell_def)
  qed simp
qed

lemma sum_list_add_const: "sum_list (map (\<lambda>k. f k + c) ks) + d * length ks = sum_list (map (\<lambda>k. f k + (c + d)) ks)"
  for f :: "'a \<Rightarrow> nat"
  by (induction ks) simp_all

lemma nodeSize_cost: "nodeShape n \<Longrightarrow> nodeSize n = 48 + sum_list (map (keyCost n) (nd_Keys n))"
  using sum_list_add_const [of length 14 "nd_Keys n" 2] sum_list_add_const [of length 10 "nd_Keys n" 2]
  by (auto simp: nodeSize_def nodeShape_def cells_def keyCost_def [abs_def] cells_cost PageTypeLeaf_def PageTypeInternal_def)

lemma sum_list_bounds:
  fixes f :: "'a \<Rightarrow> nat"
  assumes "\<forall>k \<in> set ks. a \<le> f k \<and> f k \<le> b"
  shows "a * length ks \<le> sum_list (map f ks)" "sum_list (map f ks) \<le> b * length ks"
  using assms by (induction ks) auto

lemma keyCost_bounds: "length k \<le> L \<Longrightarrow> 12 \<le> keyCost n k \<and> keyCost n k \<le> L + 16"
  by (simp add: keyCost_def)

lemma nodeSize_bounds:
  assumes "nodeShape n" "\<forall>k \<in> set (nd_Keys n). length k \<le> L"
  shows "48 + 12 * length (nd_Keys n) \<le> nodeSize n" "nodeSize n \<le> 48 + (L + 16) * length (nd_Keys n)"
proof -
  have "\<forall>k \<in> set (nd_Keys n). 12 \<le> keyCost n k \<and> keyCost n k \<le> L + 16" using keyCost_bounds assms(2) by blast
  note sum_list_bounds [OF this]
  then show "48 + 12 * length (nd_Keys n) \<le> nodeSize n" "nodeSize n \<le> 48 + (L + 16) * length (nd_Keys n)"
    using assms(1) by (simp_all add: nodeSize_cost)
qed

lemma Serialize_cases:
  assumes "nodeShape n" "length (nd_Keys n) \<le> 1362" "\<forall>k \<in> set (nd_Keys n). length k \<le> L" "L \<le> 8000"
  shows "(\<exists>b. Serialize n = Ok b) \<and> nodeSize n \<le> 16384 \<and> length (nd_Keys n) \<le> 1361 \<or>
    Serialize n = Err PageOverflow \<and> 16384 < nodeSize n \<and> 3 \<le> length (nd_Keys n)"
proof (cases "nodeSize n \<le> 16384")
  case True
  then show ?thesis using Serialize_Ok [OF assms(1)] nodeSize_bounds(1) [OF assms(1,3)] by simp
next
  case False
  have "Serialize n = Err PageOverflow"
    using False assms by (intro Serialize_overflow) (auto simp: list_all_iff)
  moreover have "(L + 16) * length (nd_Keys n) \<le> 8016 * length (nd_Keys n)" using assms(4) by simp
  then have "nodeSize n \<le> 48 + 8016 * length (nd_Keys n)" using nodeSize_bounds(2) [OF assms(1,3)] by linarith
  then have "3 \<le> length (nd_Keys n)" using False by linarith
  ultimately show ?thesis using False by simp
qed

text \<open>The part of an overfull node that stays after a split fits a page again, when the keys are short
  and the node was not overfull by more than one entry.\<close>

lemma overfull_keys:
  assumes "nodeShape n" "\<forall>k \<in> set (nd_Keys n). length k \<le> fitLimit" "16384 < nodeSize n"
  shows "61 \<le> length (nd_Keys n)"
  using nodeSize_bounds(2) [OF assms(1,2)] assms(3) by (simp add: fitLimit_def)

lemma part_fits:
  assumes "nodeShape n" "nodeShape m" "nd_PageType m = nd_PageType n" "nd_Keys n = A @ nd_Keys m @ B"
    and "30 \<le> length A + length B" "nodeSize n \<le> 16384 + 272"
  shows "nodeSize m \<le> 16384"
proof -
  have kc: "keyCost m = keyCost n" using assms(3) by (simp add: keyCost_def fun_eq_iff)
  have "12 * length C \<le> sum_list (map (keyCost n) C)" for C by (induction C) (auto simp: keyCost_def)
  then have "12 * (length A + length B) \<le> sum_list (map (keyCost n) A) + sum_list (map (keyCost n) B)"
    by (simp add: add_mono distrib_left)
  then show ?thesis using assms kc by (simp add: nodeSize_cost)
qed

lemma nodeBounds_fits: "nodeBounds L n \<Longrightarrow> L \<le> fitLimit \<Longrightarrow> nodeSize n \<le> 16384"
  by (simp add: nodeBounds_def)

lemma nodeBounds_whole:
  "nodeShape n \<Longrightarrow> length (nd_Keys n) \<le> 1361 \<Longrightarrow> \<forall>k \<in> set (nd_Keys n). length k \<le> L \<Longrightarrow> nodeSize n \<le> 16384
   \<Longrightarrow> nodeBounds L n"
  by (simp add: nodeBounds_def)

lemma nodeBounds_part:
  assumes n: "nodeShape n" "\<forall>k \<in> set (nd_Keys n). length k \<le> L" "16384 < nodeSize n" "length (nd_Keys n) \<le> 1362"
    and size: "L \<le> fitLimit \<longrightarrow> nodeSize n \<le> 16384 + 272"
    and m: "nodeShape m" "nd_PageType m = nd_PageType n" "nd_Keys n = A @ nd_Keys m @ B"
    and half: "length (nd_Keys m) \<le> Suc (length (nd_Keys n)) div 2" "3 \<le> length (nd_Keys n)"
  shows "nodeBounds L m"
proof -
  have "nodeSize m \<le> 16384" if L: "L \<le> fitLimit"
  proof (rule part_fits [OF n(1) m])
    have "61 \<le> length (nd_Keys n)" using overfull_keys [OF n(1) _ n(3)] n(2) L by fastforce
    then show "30 \<le> length A + length B" using half m(3) by simp
  qed (use size L in simp)
  then show ?thesis using assms by (auto simp: nodeBounds_def)
qed

end
