(* ===== verification/TreeOrder.thy ===== *)
theory TreeOrder
  imports KeyLaws TreeState
begin

text \<open>
  The abstract B+ trees that the pages of an index represent, and their order: every key of a
  subtree lies between the separators around it, and the separators of a node increase. The
  laws for splitting and joining the children of a node at a separator are proved once, for
  every key order (locale \<open>key_order\<close>).
\<close>

section \<open>Trees of nodes\<close>

datatype btree = Lf BPlusNode | Nd BPlusNode "btree list"

primrec top :: "btree \<Rightarrow> BPlusNode" where
  "top (Lf n) = n"
| "top (Nd n ts) = n"

definition root :: "btree \<Rightarrow> PageID" where
  "root T = nd_PageID (top T)"

fun nodes :: "btree \<Rightarrow> BPlusNode list" where
  "nodes (Lf n) = [n]"
| "nodes (Nd n ts) = n # concat (map nodes ts)"

fun contents :: "btree \<Rightarrow> (bytes \<times> RecordPointer) list" where
  "contents (Lf n) = zip (nd_Keys n) (nd_Pointers n)"
| "contents (Nd n ts) = concat (map contents ts)"

definition pages :: "btree \<Rightarrow> PageID list" where
  "pages T = map nd_PageID (nodes T)"

text \<open>The trees of a list of children, taken together.\<close>

definition forestPages :: "btree list \<Rightarrow> PageID list" where
  "forestPages ts = concat (map pages ts)"

definition flat :: "btree list \<Rightarrow> (bytes \<times> RecordPointer) list" where
  "flat ts = concat (map contents ts)"

fun shaped :: "nat \<Rightarrow> btree \<Rightarrow> bool" where
  "shaped L (Lf n) = (nodeBounds L n \<and> nd_PageType n = PageTypeLeaf)"
| "shaped L (Nd n ts) = (nodeBounds L n \<and> nd_PageType n = PageTypeInternal \<and> nd_Children n = map root ts
     \<and> (\<forall>t \<in> set ts. shaped L t))"

text \<open>Height at most \<open>h\<close>.\<close>

fun within :: "nat \<Rightarrow> btree \<Rightarrow> bool" where
  "within h (Lf n) = True"
| "within 0 (Nd n ts) = False"
| "within (Suc h) (Nd n ts) = (\<forall>t \<in> set ts. within h t)"

text \<open>The nodes of the tree are what is found on its pages.\<close>

definition represents :: "(PageID \<Rightarrow> BPlusNode option) \<Rightarrow> btree \<Rightarrow> bool" where
  "represents P T = (\<forall>n \<in> set (nodes T). P (nd_PageID n) = Some n)"

lemma pages_simps [simp]:
  "pages (Lf n) = [nd_PageID n]" "pages (Nd n ts) = nd_PageID n # forestPages ts"
  by (simp_all add: pages_def [abs_def] forestPages_def map_concat comp_def)

lemma forestPages_simps [simp]:
  "forestPages [] = []" "forestPages (t # ts) = pages t @ forestPages ts"
  "forestPages (ts @ us) = forestPages ts @ forestPages us"
  by (simp_all add: forestPages_def)

lemma flat_simps [simp]:
  "flat [] = []" "flat (t # ts) = contents t @ flat ts" "flat (ts @ us) = flat ts @ flat us"
  by (simp_all add: flat_def)

lemma contents_Nd [simp]: "contents (Nd n ts) = flat ts"
  by (simp add: flat_def)

declare contents.simps(2) [simp del]

lemma set_forestPages: "set (forestPages ts) = (\<Union>t \<in> set ts. set (pages t))"
  by (simp add: forestPages_def)

lemma represents_simps [simp]:
  "represents P (Lf n) \<longleftrightarrow> P (nd_PageID n) = Some n"
  "represents P (Nd n ts) \<longleftrightarrow> P (nd_PageID n) = Some n \<and> (\<forall>t \<in> set ts. represents P t)"
  by (auto simp: represents_def)

lemma represents_cong: "represents P T \<Longrightarrow> (\<And>p. p \<in> set (pages T) \<Longrightarrow> P' p = P p) \<Longrightarrow> represents P' T"
  by (simp add: represents_def pages_def)

lemma root_in_pages [simp]: "root T \<in> set (pages T)"
  by (cases T) (simp_all add: root_def)

lemma root_top: "represents P T \<Longrightarrow> P (root T) = Some (top T)"
  by (cases T) (simp_all add: root_def)

lemma within_mono: "within h T \<Longrightarrow> h \<le> h' \<Longrightarrow> within h' T"
proof (induction h arbitrary: h' T)
  case 0
  then show ?case by (cases T) simp_all
next
  case (Suc h)
  then obtain g where g: "h' = Suc g" "h \<le> g" by (cases h') auto
  then show ?case using Suc.prems(1) by (cases T) (auto intro: Suc.IH)
qed

section \<open>Order\<close>

context key_order begin

definition inside :: "bytes option \<Rightarrow> bytes option \<Rightarrow> bytes \<Rightarrow> bool" where
  "inside lo hi k = (k \<in> K \<and> (\<forall>a. lo = Some a \<longrightarrow> \<not> lt k a) \<and> (\<forall>b. hi = Some b \<longrightarrow> lt k b))"

definition bounds :: "bytes option \<Rightarrow> bytes option \<Rightarrow> bool" where
  "bounds lo hi = ((\<forall>a. lo = Some a \<longrightarrow> a \<in> K) \<and> (\<forall>b. hi = Some b \<longrightarrow> b \<in> K)
     \<and> (\<forall>a b. lo = Some a \<longrightarrow> hi = Some b \<longrightarrow> lt a b))"

fun ordered :: "bytes option \<Rightarrow> bytes option \<Rightarrow> btree \<Rightarrow> bool"
  and chain :: "bytes option \<Rightarrow> bytes list \<Rightarrow> bytes option \<Rightarrow> btree list \<Rightarrow> bool"
where
  "ordered lo hi (Lf n) = (sorted_keys (nd_Keys n) \<and> (\<forall>k \<in> set (nd_Keys n). inside lo hi k))"
| "ordered lo hi (Nd n ts) = chain lo (nd_Keys n) hi ts"
| "chain lo [] hi [t] = ordered lo hi t"
| "chain lo (s # ss) hi (t # ts) =
     (bounds lo (Some s) \<and> bounds (Some s) hi \<and> ordered lo (Some s) t \<and> chain (Some s) ss hi ts)"
| "chain lo [] hi [] = False"
| "chain lo [] hi (t # u # ts) = False"
| "chain lo (s # ss) hi [] = False"

lemma bounds_trans: "bounds lo (Some s) \<Longrightarrow> bounds (Some s) hi \<Longrightarrow> bounds lo hi"
  by (cases lo; cases hi) (auto simp: bounds_def intro: lt_trans [where b = s])

lemma inside_mono:
  assumes "inside lo' hi' k" "lo' = lo \<or> (\<exists>s. lo' = Some s \<and> bounds lo lo')"
    "hi' = hi \<or> (\<exists>s. hi' = Some s \<and> bounds hi' hi)"
  shows "inside lo hi k"
proof -
  have k: "k \<in> K" using assms(1) by (simp add: inside_def)
  have "\<not> lt k a" if "lo = Some a" for a
    using assms(1,2) that k unfolding inside_def bounds_def by (metis lt_trans)
  moreover have "lt k b" if "hi = Some b" for b
    using assms(1,3) that k unfolding inside_def bounds_def by (metis lt_trans)
  ultimately show ?thesis using k by (simp add: inside_def)
qed

lemma inside_lower: "inside (Some s) hi k \<Longrightarrow> bounds lo (Some s) \<Longrightarrow> inside lo hi k"
  by (rule inside_mono) auto

lemma inside_upper: "inside lo (Some s) k \<Longrightarrow> bounds (Some s) hi \<Longrightarrow> inside lo hi k"
  by (rule inside_mono) auto

lemma chain_Nil [simp]: "chain lo [] hi ts \<longleftrightarrow> (\<exists>t. ts = [t] \<and> ordered lo hi t)"
  by (cases ts rule: remdups_adj.cases) auto

lemma chain_Cons: "chain lo (s # ss) hi ts \<longleftrightarrow> (\<exists>t us. ts = t # us \<and> bounds lo (Some s) \<and> bounds (Some s) hi
    \<and> ordered lo (Some s) t \<and> chain (Some s) ss hi us)"
  by (cases ts) auto

lemma chain_length: "chain lo ss hi ts \<Longrightarrow> length ts = Suc (length ss)"
proof (induction ss arbitrary: lo ts)
  case (Cons s ss)
  then show ?case by (fastforce simp: chain_Cons)
qed auto

text \<open>All keys of a tree are between its bounds, and the whole contents are sorted.\<close>

lemma ordered_inside:
  "ordered lo hi T \<Longrightarrow> bounds lo hi \<Longrightarrow> \<forall>k \<in> fst ` set (contents T). inside lo hi k"
  and chain_inside: "chain lo ss hi ts \<Longrightarrow> bounds lo hi \<Longrightarrow> \<forall>k \<in> fst ` set (flat ts). inside lo hi k"
proof (induction lo hi T and lo ss hi ts rule: ordered_chain.induct)
  case (1 lo hi n)
  then show ?case by (auto dest: set_zip_leftD)
next
  case (4 lo s ss hi t ts)
  then have "\<forall>k \<in> fst ` set (contents t). inside lo hi k" "\<forall>k \<in> fst ` set (flat ts). inside lo hi k"
    using inside_upper [of lo s _ hi] inside_lower [of s hi _ lo] by simp_all
  then show ?case by (simp add: image_Un ball_Un)
qed (auto simp: contents_Nd)

lemma chain_separators: "chain lo ss hi ts \<Longrightarrow> s \<in> set ss \<Longrightarrow> bounds lo (Some s) \<and> bounds (Some s) hi"
proof (induction ss arbitrary: lo ts)
  case (Cons a ss)
  then show ?case by (auto simp: chain_Cons intro: bounds_trans)
qed simp

lemma chain_sorted: "chain lo ss hi ts \<Longrightarrow> sorted_keys ss"
proof (induction ss arbitrary: lo ts)
  case Nil
  then show ?case by (simp add: sorted_keys_def)
next
  case (Cons a ss)
  then obtain t us where c: "ts = t # us" "bounds lo (Some a)" "chain (Some a) ss hi us" by (auto simp: chain_Cons)
  have "\<forall>b \<in> set ss. lt a b" using chain_separators [OF c(3)] by (auto simp: bounds_def)
  then show ?case using Cons.IH [OF c(3)] c(2) by (auto simp: sorted_keys_Cons bounds_def)
qed

text \<open>Splitting and joining at a separator.\<close>

lemma chain_join:
  "chain lo ss1 (Some s) ts1 \<Longrightarrow> chain (Some s) ss2 hi ts2 \<Longrightarrow> bounds lo (Some s) \<Longrightarrow> bounds (Some s) hi
   \<Longrightarrow> chain lo (ss1 @ s # ss2) hi (ts1 @ ts2)"
proof (induction ss1 arbitrary: lo ts1)
  case (Cons a ss1)
  then show ?case by (auto simp: chain_Cons intro: bounds_trans)
qed (auto simp: chain_Cons)

lemma chain_split:
  assumes "chain lo (ss1 @ s # ss2) hi ts"
  shows "chain lo ss1 (Some s) (take (Suc (length ss1)) ts)" "chain (Some s) ss2 hi (drop (Suc (length ss1)) ts)"
    "bounds lo (Some s)" "bounds (Some s) hi"
proof -
  show b: "bounds lo (Some s)" "bounds (Some s) hi" using chain_separators [OF assms] by simp_all
  show "chain lo ss1 (Some s) (take (Suc (length ss1)) ts)"
    using assms
  proof (induction ss1 arbitrary: lo ts)
    case (Cons a ss1)
    then obtain t us where c: "ts = t # us" "bounds lo (Some a)" "ordered lo (Some a) t"
      "chain (Some a) (ss1 @ s # ss2) hi us" by (auto simp: chain_Cons)
    then show ?case using Cons.IH [OF c(4)] chain_separators [OF c(4), of s] by (auto simp: chain_Cons)
  qed (auto simp: chain_Cons)
  show "chain (Some s) ss2 hi (drop (Suc (length ss1)) ts)"
    using assms
  proof (induction ss1 arbitrary: lo ts)
    case (Cons a ss1)
    then show ?case by (auto simp: chain_Cons)
  qed (auto simp: chain_Cons)
qed

text \<open>The bounds of one child, and replacing it.\<close>

definition lower :: "bytes option \<Rightarrow> bytes list \<Rightarrow> bytes option" where
  "lower lo ss = (if ss = [] then lo else Some (last ss))"

definition upper :: "bytes list \<Rightarrow> bytes option \<Rightarrow> bytes option" where
  "upper ss hi = (case ss of [] \<Rightarrow> hi | s # _ \<Rightarrow> Some s)"

lemma chain_focus:
  assumes "chain lo (ss1 @ ss2) hi (ts1 @ t # ts2)" "length ss1 = length ts1" "bounds lo hi"
  shows "ordered (lower lo ss1) (upper ss2 hi) t" "bounds (lower lo ss1) (upper ss2 hi)"
    and "chain (lower lo ss1) ss (upper ss2 hi) us \<Longrightarrow> chain lo (ss1 @ ss @ ss2) hi (ts1 @ us @ ts2)"
proof -
  have "ordered (lower lo ss1) (upper ss2 hi) t \<and> bounds (lower lo ss1) (upper ss2 hi) \<and>
    (chain (lower lo ss1) ss (upper ss2 hi) us \<longrightarrow> chain lo (ss1 @ ss @ ss2) hi (ts1 @ us @ ts2))"
    using assms
  proof (induction ss1 arbitrary: lo ts1)
    case Nil
    then show ?case
      by (cases ss2) (auto simp: lower_def upper_def chain_Cons intro: chain_join)
  next
    case (Cons a ss1)
    then obtain u ts1' where "ts1 = u # ts1'" by (cases ts1) auto
    then show ?case using Cons.IH [of "Some a" ts1'] Cons.prems
      by (auto simp: lower_def split: if_splits)
  qed
  then show "ordered (lower lo ss1) (upper ss2 hi) t" "bounds (lower lo ss1) (upper ss2 hi)"
    "chain (lower lo ss1) ss (upper ss2 hi) us \<Longrightarrow> chain lo (ss1 @ ss @ ss2) hi (ts1 @ us @ ts2)" by auto
qed

lemma chain_outside:
  assumes "chain lo (ss1 @ ss2) hi (ts1 @ t # ts2)" "length ss1 = length ts1"
    "inside (lower lo ss1) (upper ss2 hi) k"
  shows "k \<notin> fst ` set (flat ts1)" "k \<notin> fst ` set (flat ts2)"
proof -
  have k: "k \<in> K" using assms(3) by (simp add: inside_def)
  show "k \<notin> fst ` set (flat ts1)"
  proof (cases ss1 rule: rev_cases)
    case (snoc ss a)
    then have "take (Suc (length ss)) (ts1 @ t # ts2) = ts1" using assms(2) by simp
    then have "chain lo ss (Some a) ts1" "bounds lo (Some a)"
      using chain_split [of lo ss a ss2 hi "ts1 @ t # ts2"] assms(1) snoc by simp_all
    moreover have "\<not> lt k a" using assms(3) snoc by (simp add: inside_def lower_def)
    ultimately show ?thesis using chain_inside by (fastforce simp: inside_def)
  qed (use assms(2) in simp)
  show "k \<notin> fst ` set (flat ts2)"
  proof (cases ss2)
    case Nil
    then show ?thesis using chain_length [OF assms(1)] assms(2) by simp
  next
    case (Cons b ss)
    then have "drop (Suc (length ss1)) (ts1 @ t # ts2) = ts2" using assms(2) by simp
    then have "chain (Some b) ss hi ts2" "bounds (Some b) hi"
      using chain_split [of lo ss1 b ss hi "ts1 @ t # ts2"] assms(1) Cons by simp_all
    moreover have "lt k b" using assms(3) Cons by (simp add: inside_def upper_def)
    ultimately show ?thesis using chain_inside by (fastforce simp: inside_def)
  qed
qed

section \<open>The searches inside a node\<close>

text \<open>The number of separators not above a key: the child to go to.\<close>

definition slot :: "bytes list \<Rightarrow> bytes \<Rightarrow> nat" where
  "slot ks k = length (filter (\<lambda>a. \<not> lt k a) ks)"

lemma slot_le: "slot ks k \<le> length ks"
  by (simp add: slot_def)

lemma slot_iff: "sorted_keys ks \<Longrightarrow> k \<in> K \<Longrightarrow> i < length ks \<Longrightarrow> i < slot ks k \<longleftrightarrow> \<not> lt k (ks ! i)"
proof (induction ks arbitrary: i)
  case (Cons a ks)
  show ?case
  proof (cases "lt k a")
    case False
    then have "slot (a # ks) k = Suc (slot ks k)" by (simp add: slot_def)
    then show ?thesis using Cons False by (cases i) (auto simp: sorted_keys_Cons)
  next
    case True
    have all: "lt k b" if "b \<in> set (a # ks)" for b
      using Cons.prems(1,2) True that by (auto simp: sorted_keys_def intro: lt_trans [where b = a])
    then have "slot (a # ks) k = 0" by (simp add: slot_def)
    moreover have "lt k ((a # ks) ! i)" using all Cons.prems(3) nth_mem by blast
    ultimately show ?thesis by simp
  qed
qed simp

lemma search_slot:
  assumes "sorted_keys ks" "k \<in> K"
  shows "sort_Search (length ks) (\<lambda>i. bindR (index_at ks i) (\<lambda>a. mapR (\<lambda>c. c > 0) (cmp a k))) = Ok (slot ks k)"
proof (rule sort_Search_correct [OF _ slot_le])
  fix i assume i: "i < length ks"
  then have "ks ! i \<in> K" using assms(1) by (auto simp: sorted_keys_def)
  then obtain c where c: "cmp (ks ! i) k = Ok c" "c > 0 \<longleftrightarrow> lt k (ks ! i)"
    using cmp_sign assms(2) by blast
  then show "bindR (index_at ks i) (\<lambda>a. mapR (\<lambda>c. c > 0) (cmp a k)) = Ok (slot ks k \<le> i)"
    using slot_iff [OF assms i] i by (auto simp: not_less)
qed

lemma slot_inside:
  assumes "sorted_keys ks" "inside lo hi k"
  shows "inside (lower lo (take (slot ks k) ks)) (upper (drop (slot ks k) ks) hi) k"
proof -
  let ?i = "slot ks k"
  have k: "k \<in> K" using assms(2) by (simp add: inside_def)
  have "\<not> lt k (last (take ?i ks))" if "take ?i ks \<noteq> []"
  proof -
    have i: "?i - 1 < ?i" "?i \<le> length ks" using that slot_le by (auto simp: neq_Nil_conv)
    then have "last (take ?i ks) = ks ! (?i - 1)" using that by (simp add: last_conv_nth)
    then show ?thesis using slot_iff [OF assms(1) k, of "?i - 1"] i by simp
  qed
  moreover have "lt k (ks ! ?i)" if "?i < length ks" using slot_iff [OF assms(1) k that] by simp
  ultimately show ?thesis
    using assms(2) by (cases "?i < length ks")
      (auto simp: inside_def lower_def upper_def Cons_nth_drop_Suc [symmetric])
qed

section \<open>Entries of a leaf\<close>

lemma map_of_take_drop:
  assumes "sorted_keys ks" "k \<in> K" "length ps = length ks"
  shows "map_of (zip ks ps) k = (if rank ks k < length ks \<and> ks ! rank ks k = k then Some (ps ! rank ks k) else None)"
proof (cases "k \<in> set ks")
  case True
  then have r: "rank ks k < length ks" "ks ! rank ks k = k" using rank_found [OF assms(1,2)] by auto
  have "distinct ks" using assms(1) by (rule sorted_keys_distinct)
  then have "map_of (zip ks ps) (ks ! rank ks k) = Some (ps ! rank ks k)"
    using r assms(3) by (intro map_of_zip_nth) auto
  then show ?thesis using r by simp
next
  case False
  then have "map_of (zip ks ps) k = None" using assms(3) by (simp add: map_of_zip_is_None)
  then show ?thesis using False rank_found [OF assms(1,2)] by auto
qed

lemma insert_sorted_keys:
  assumes "sorted_keys ks" "k \<in> K" "k \<notin> set ks"
  shows "sorted_keys (take (rank ks k) ks @ k # drop (rank ks k) ks)"
proof -
  have "lt k a" if "a \<in> set (drop (rank ks k) ks)" for a
    using rank_split(2) [OF assms(1,2)] that lt_linear [of a k] assms
    by (auto simp: sorted_keys_def dest: in_set_dropD)
  then show ?thesis
    using assms rank_split(1) [OF assms(1,2)] sorted_keys_append [of "take (rank ks k) ks" "drop (rank ks k) ks"]
    by (auto simp: sorted_keys_append sorted_keys_Cons)
qed

lemma insert_entry:
  assumes "length ps = length ks" "i \<le> length ks" "k \<notin> set ks"
  shows "map_of (zip (take i ks @ k # drop i ks) (take i ps @ p # drop i ps)) = (map_of (zip ks ps))(k \<mapsto> p)"
proof -
  have z: "zip (take i ks @ k # drop i ks) (take i ps @ p # drop i ps)
      = zip (take i ks) (take i ps) @ (k, p) # zip (drop i ks) (drop i ps)" using assms(1) by simp
  have "zip ks ps = zip (take i ks) (take i ps) @ zip (drop i ks) (drop i ps)"
    using assms(1) zip_append [of "take i ks" "take i ps" "drop i ks" "drop i ps"] by simp
  then have m: "map_of (zip ks ps) = map_of (zip (drop i ks) (drop i ps)) ++ map_of (zip (take i ks) (take i ps))"
    by simp
  have "map_of (zip (take i ks) (take i ps)) k = None"
    using assms by (auto simp: map_of_eq_None_iff dest: in_set_takeD [of k] dest!: set_zip_leftD)
  then show ?thesis unfolding z m by (auto simp: fun_eq_iff map_add_def split: option.split)
qed

lemma update_entry:
  "distinct ks \<Longrightarrow> length ps = length ks \<Longrightarrow> i < length ks \<Longrightarrow> map_of (zip ks (ps[i := p])) = (map_of (zip ks ps))(ks ! i \<mapsto> p)"
proof (induction ks arbitrary: ps i)
  case (Cons k ks)
  then obtain q qs where "ps = q # qs" by (cases ps) auto
  then show ?case using Cons by (cases i) (auto simp: fun_eq_iff)
qed simp

end

end
