(* ===== verification/TreeLaws.thy ===== *)
theory TreeLaws
  imports TreeOrder
begin

text \<open>
  Search and insertion in one index: the operations on the pages of a well-formed tree find and
  update the map from keys to record pointers that the tree stands for. Insertion copies the
  nodes of older generations, splits overfull nodes, keeps the tree ordered and touches no page
  outside the tree except newly handed out ones.
\<close>

section \<open>Live trees\<close>

definition live :: "DiskBPlusTree \<Rightarrow> btree \<Rightarrow> bool" where
  "live t T = (represents (peek t) T \<and> distinct (pages T) \<and> set (pages T) \<inter> reserved t = {}
     \<and> (\<forall>p \<in> set (pages T). 3 \<le> p \<and> clean t p))"

lemma live_top: "live t T \<Longrightarrow> peek t (root T) = Some (top T)"
  by (simp add: live_def root_top)

lemma live_child: "live t (Nd n ts) \<Longrightarrow> u \<in> set ts \<Longrightarrow> live t u"
  by (auto simp: live_def forestPages_def distinct_concat_iff)

lemma live_sameView: "sameView t t' \<Longrightarrow> live t' T = live t T"
  by (simp add: live_def sameView_def)

lemma live_effect:
  assumes "live t T" "effect S n t t'" "set (pages T) \<inter> S = {}"
  shows "live t' T"
proof -
  have "peek t' p = peek t p" if "p \<in> set (pages T)" for p
    using assms that by (auto simp: effect_def live_def reserved_def)
  then have "represents (peek t') T" using assms(1) by (auto simp: live_def intro: represents_cong)
  moreover have "\<forall>p \<in> set (pages T). clean t' p" using assms(1,2) by (simp add: live_def effect_def)
  ultimately show ?thesis using assms effect_reserved [OF assms(2)] by (auto simp: live_def)
qed

text \<open>The trees an insertion results in: one, or two around a separator.\<close>

fun yields :: "insert_result \<Rightarrow> bytes list \<Rightarrow> btree list \<Rightarrow> bool" where
  "yields (p, None) ss us = (ss = [] \<and> (\<exists>T. us = [T] \<and> root T = p))"
| "yields (p, Some (s, q)) ss us = (ss = [s] \<and> (\<exists>T U. us = [T, U] \<and> root T = p \<and> root U = q))"

section \<open>Search\<close>

locale tree_keys = key_order "compareByteKeys fmt" K for fmt K +
  fixes L :: nat
  assumes limit: "L \<le> 8000"
begin

lemma searchGE_run: "sorted_keys ks \<Longrightarrow> k \<in> K \<Longrightarrow> searchGE fmt ks k = Ok (rank ks k)"
  using search_rank by (simp add: searchGE_def)

lemma childIndex_run:
  assumes "sorted_keys (nd_Keys n)" "k \<in> K" "length (nd_Children n) = Suc (length (nd_Keys n))"
  shows "childIndex fmt n k = Ok (slot (nd_Keys n) k, nd_Children n ! slot (nd_Keys n) k)"
  using search_slot [OF assms(1,2)] slot_le [of "nd_Keys n" k] assms(3) by (simp add: childIndex_def searchGT_def)

lemma shaped_Lf: "shaped L (Lf n) \<Longrightarrow> length (nd_Pointers n) = length (nd_Keys n)"
  by (auto simp: nodeBounds_def nodeShape_def PageTypeLeaf_def PageTypeInternal_def)

text \<open>The child a key belongs to.\<close>

lemma child_of_key:
  assumes "ordered lo hi (Nd n ts)" "shaped L (Nd n ts)" "inside lo hi k" "bounds lo hi"
  obtains i where "i = slot (nd_Keys n) k" "i < length ts" "childIndex fmt n k = Ok (i, root (ts ! i))"
    "inside (lower lo (take i (nd_Keys n))) (upper (drop i (nd_Keys n)) hi) k"
    "ts = take i ts @ ts ! i # drop (Suc i) ts" "length (take i (nd_Keys n)) = length (take i ts)"
    "chain lo (take i (nd_Keys n) @ drop i (nd_Keys n)) hi (take i ts @ ts ! i # drop (Suc i) ts)"
    "i \<le> length (nd_Keys n)"
proof -
  let ?i = "slot (nd_Keys n) k"
  have c: "chain lo (nd_Keys n) hi ts" using assms(1) by simp
  have k: "k \<in> K" using assms(3) by (simp add: inside_def)
  have len: "length ts = Suc (length (nd_Keys n))" using c by (rule chain_length)
  have i: "?i < length ts" "?i \<le> length (nd_Keys n)" using slot_le [of "nd_Keys n" k] len by simp_all
  have ts: "ts = take ?i ts @ ts ! ?i # drop (Suc ?i) ts" using i(1) by (rule id_take_nth_drop)
  have "childIndex fmt n k = Ok (?i, root (ts ! ?i))"
    using childIndex_run [OF chain_sorted [OF c] k] assms(2) len i by simp
  moreover have "length (take ?i (nd_Keys n)) = length (take ?i ts)" using i by simp
  moreover have "chain lo (take ?i (nd_Keys n) @ drop ?i (nd_Keys n)) hi (take ?i ts @ ts ! ?i # drop (Suc ?i) ts)"
    using c ts by simp
  ultimately show ?thesis using that [OF refl i(1)] slot_inside [OF chain_sorted [OF c] assms(3)] ts i by blast
qed

lemma findInLeaf_run:
  assumes "ordered lo hi (Lf n)" "shaped L (Lf n)" "k \<in> K"
  shows "findInLeaf fmt n k = Ok (map_of (contents (Lf n)) k)"
  using assms shaped_Lf [OF assms(2)] by (simp add: findInLeaf_def searchGE_run map_of_take_drop)

lemma findLoop_run:
  assumes "stateOk t" "live t T" "shaped L T" "ordered lo hi T" "bounds lo hi" "inside lo hi k"
    "within h T" "h < fuel"
  shows "\<exists>t'. findLoop fmt fuel (root T) k t = (Ok (map_of (contents T) k), t') \<and> sameView t t'"
  using assms
proof (induction T arbitrary: lo hi t h fuel)
  case (Lf n)
  obtain t1 where t1: "getNode (root (Lf n)) t = (Ok n, t1)" "sameView t t1"
    using getNode_run [OF Lf(1)] live_top [OF Lf(2)] by auto
  obtain f where f: "fuel = Suc f" using Lf(8) by (cases fuel) auto
  have "k \<in> K" using Lf(6) by (simp add: inside_def)
  then show ?case using t1 findInLeaf_run [OF Lf(4,3)] Lf(3) unfolding f by simp
next
  case (Nd n ts)
  obtain t1 where t1: "getNode (root (Nd n ts)) t = (Ok n, t1)" "sameView t t1"
    using getNode_run [OF Nd(2)] live_top [OF Nd(3)] by auto
  obtain g f where f: "fuel = Suc f" "h = Suc g" "g < f" using Nd(8,9) by (cases fuel; cases h) auto
  obtain i where i: "i = slot (nd_Keys n) k" "i < length ts" "childIndex fmt n k = Ok (i, root (ts ! i))"
    "inside (lower lo (take i (nd_Keys n))) (upper (drop i (nd_Keys n)) hi) k"
    "ts = take i ts @ ts ! i # drop (Suc i) ts" "length (take i (nd_Keys n)) = length (take i ts)"
    "chain lo (take i (nd_Keys n) @ drop i (nd_Keys n)) hi (take i ts @ ts ! i # drop (Suc i) ts)"
    using child_of_key [OF Nd(5,4,7,6)] by blast
  note focus = chain_focus(1,2) [OF i(7,6) Nd(6)]
  have c: "ts ! i \<in> set ts" using i(2) by simp
  obtain t2 where t2: "findLoop fmt f (root (ts ! i)) k t1 = (Ok (map_of (contents (ts ! i)) k), t2)" "sameView t1 t2"
    using Nd(1) [OF c sameView_stateOk [OF t1(2)] _ _ focus i(4) _ f(3)] live_child [OF Nd(3) c]
      live_sameView [OF t1(2)] Nd(4,8) f(2) c by auto
  have "map_of (flat ts) k = map_of (contents (ts ! i)) k"
  proof -
    have "map_of (flat (take i ts)) k = None" "map_of (flat (drop (Suc i) ts)) k = None"
      using chain_outside [OF i(7,6,4)] by (simp_all add: map_of_eq_None_iff)
    then show ?thesis by (subst i(5)) (simp add: map_add_def split: option.split)
  qed
  then show ?case
    using t1 t2 i(3) Nd(4) sameView_trans [OF t1(2) t2(2)] unfolding f
    by (simp add: PageTypeLeaf_def PageTypeInternal_def)
qed

section \<open>Insertion\<close>

definition grown ::
  "DiskBPlusTree \<Rightarrow> DiskBPlusTree \<Rightarrow> PageID set \<Rightarrow> bytes option \<Rightarrow> bytes option \<Rightarrow> nat \<Rightarrow> insert_result \<Rightarrow>
   (bytes \<Rightarrow> RecordPointer option) \<Rightarrow> bytes list \<Rightarrow> btree list \<Rightarrow> bool"
where
  "grown t t' S lo hi h r m ss us =
     (yields r ss us \<and> chain lo ss hi us \<and> (\<forall>s \<in> set ss. length s \<le> L)
      \<and> (\<forall>u \<in> set us. shaped L u \<and> within h u \<and> live t' u)
      \<and> distinct (forestPages us) \<and> set (forestPages us) \<subseteq> S \<union> (avail t - avail t')
      \<and> touched t t' (set (forestPages us)) \<and> map_of (flat us) = m)"

text \<open>The entries of a leaf after an insertion.\<close>

lemma insertIntoLeaf_run:
  assumes n: "nodeShape n" "nd_PageType n = PageTypeLeaf" "sorted_keys (nd_Keys n)" and k: "k \<in> K"
  shows "\<exists>n'. insertIntoLeaf fmt n k p = Ok n' \<and> nodeShape n' \<and> nd_PageType n' = PageTypeLeaf
     \<and> nd_PageID n' = nd_PageID n \<and> sorted_keys (nd_Keys n')
     \<and> set (nd_Keys n') = insert k (set (nd_Keys n)) \<and> length (nd_Keys n') \<le> Suc (length (nd_Keys n))
     \<and> nodeSize n' \<le> nodeSize n + keyCost n k
     \<and> map_of (zip (nd_Keys n') (nd_Pointers n')) = (map_of (zip (nd_Keys n) (nd_Pointers n)))(k \<mapsto> p)"
proof -
  let ?ks = "nd_Keys n" and ?ps = "nd_Pointers n" and ?i = "rank (nd_Keys n) k"
  have len: "length ?ps = length ?ks" using n by (auto simp: nodeShape_def PageTypeLeaf_def PageTypeInternal_def)
  note s = searchGE_run [OF n(3) k]
  note split = append_take_drop_id [of ?i ?ks]
  show ?thesis
  proof (cases "k \<in> set ?ks")
    case True
    then have r: "?i < length ?ks" "?ks ! ?i = k" using rank_found [OF n(3) k] by auto
    let ?n = "n\<lparr>nd_Pointers := ?ps[?i := p]\<rparr>"
    have sh: "nodeShape ?n" using n(1,2) by (auto simp: nodeShape_def PageTypeLeaf_def PageTypeInternal_def)
    moreover have "nodeSize ?n = nodeSize n" using n(1) sh by (simp add: nodeSize_cost keyCost_def [abs_def])
    moreover have "map_of (zip ?ks (?ps[?i := p])) = (map_of (zip ?ks ?ps))(k \<mapsto> p)"
      using update_entry [OF sorted_keys_distinct [OF n(3)] len r(1)] r(2) by simp
    ultimately show ?thesis using r n(2,3) s len True by (auto simp: insertIntoLeaf_def)
  next
    case False
    then have r: "\<not> (?i < length ?ks \<and> ?ks ! ?i = k)" using rank_found [OF n(3) k] by auto
    have i: "?i \<le> length ?ks" by (rule rank_le)
    let ?n = "n\<lparr>nd_Keys := take ?i ?ks @ k # drop ?i ?ks, nd_Pointers := take ?i ?ps @ p # drop ?i ?ps\<rparr>"
    have sh: "nodeShape ?n"
      using n(1,2) len i by (auto simp: nodeShape_def PageTypeLeaf_def PageTypeInternal_def)
    have "sum_list (map (keyCost n) ?ks) = sum_list (map (keyCost n) (take ?i ?ks)) + sum_list (map (keyCost n) (drop ?i ?ks))"
      by (subst (1) split [symmetric]) (simp only: map_append sum_list_append)
    then have "nodeSize ?n = nodeSize n + keyCost n k"
      using n(1) sh by (simp add: nodeSize_cost keyCost_def [abs_def] del: append_take_drop_id)
    moreover have "set (take ?i ?ks @ k # drop ?i ?ks) = insert k (set ?ks)"
      by (subst (3) split [symmetric]) (simp only: set_append list.set, blast)
    moreover have "insertIntoLeaf fmt n k p = Ok ?n" using r i len s by (auto simp: insertIntoLeaf_def)
    ultimately show ?thesis
      using sh n(2) insert_sorted_keys [OF n(3) k False] insert_entry [OF len i False] by simp
  qed
qed

lemma sorted_parts: "sorted_keys ks \<Longrightarrow> sorted_keys (take i ks) \<and> sorted_keys (drop i ks)"
  using sorted_keys_append [of "take i ks" "drop i ks"] by simp

text \<open>The keys of a leaf, cut in two, are in order around the first key of the right half.\<close>

lemma leaf_halves:
  assumes ord: "ordered lo hi (Lf n)" "bounds lo hi" and mid: "0 < mid" "mid < length (nd_Keys n)"
    and M: "nd_Keys M = take mid (nd_Keys n)" and R: "nd_Keys R = drop mid (nd_Keys n)"
  shows "chain lo [nd_Keys n ! mid] hi [Lf M, Lf R]"
proof -
  let ?ks = "nd_Keys n" and ?s = "nd_Keys n ! mid"
  have sorted: "sorted_keys ?ks" and ins: "\<forall>k \<in> set ?ks. inside lo hi k" using ord(1) by auto
  note st = sorted_parts [OF sorted, of mid]
  have parts: "\<forall>a \<in> set (take mid ?ks). \<forall>b \<in> set (drop mid ?ks). lt a b"
    using sorted sorted_keys_append [of "take mid ?ks" "drop mid ?ks"] by simp
  have d: "drop mid ?ks = ?s # drop (Suc mid) ?ks" using mid(2) by (simp add: Cons_nth_drop_Suc)
  then have s: "?s \<in> set (drop mid ?ks)" by simp
  have sK: "?s \<in> K" "?s \<in> set ?ks" using mid(2) sorted by (auto simp: sorted_keys_def)
  have ge: "\<not> lt b ?s" if "b \<in> set (drop mid ?ks)" for b
    using that st lt_irrefl lt_asym unfolding d by (auto simp: sorted_keys_Cons sorted_keys_def)
  obtain a where a: "a \<in> set (take mid ?ks)" using mid by (cases ?ks; cases mid) auto
  have aK: "a \<in> K" "inside lo hi a" "lt a ?s"
    using a s parts ins sorted by (auto simp: sorted_keys_def dest: in_set_takeD)
  have "bounds lo (Some ?s)"
    using ord(2) aK sK(1) lt_trans [OF _ aK(1) sK(1)] lt_linear [of a] unfolding bounds_def inside_def by blast
  moreover have "bounds (Some ?s) hi" using ord(2) ins sK unfolding bounds_def inside_def by blast
  moreover have "ordered lo (Some ?s) (Lf M)" using st parts s ins by (auto simp: M inside_def dest: in_set_takeD)
  moreover have "ordered (Some ?s) hi (Lf R)" using st ge ins by (auto simp: R inside_def dest: in_set_dropD)
  ultimately show ?thesis by simp
qed

text \<open>An overfull leaf is split: the upper half moves to a new page.\<close>

lemma splitLeaf_run:
  assumes ok: "stateOk t" and room: "unat (nextPageID t) + 1 < 2 ^ 64"
    and at: "at \<in> set (dirtyNodes t)" "nd_PageID n = at" "at \<notin> reserved t" "3 \<le> at"
    and n: "nodeShape n" "nd_PageType n = PageTypeLeaf" "length (nd_Keys n) \<le> 1362" "\<forall>k \<in> set (nd_Keys n). length k \<le> L"
      "L \<le> fitLimit \<longrightarrow> nodeSize n \<le> 16384 + 272"
    and big: "16384 < nodeSize n" "3 \<le> length (nd_Keys n)"
    and ord: "ordered lo hi (Lf n)" "bounds lo hi"
  shows "\<exists>r t' ss us. splitLeaf at n g t = (Ok r, t') \<and> effect {at} 1 t t' \<and> at \<notin> reserved t' \<and> {at} \<subseteq> set (forestPages us)
     \<and> grown t t' {at} lo hi h r (map_of (contents (Lf n))) ss us"
proof -
  let ?ks = "nd_Keys n" and ?ps = "nd_Pointers n"
  let ?mid = "length ?ks div 2"
  let ?s = "?ks ! ?mid"
  have len: "length ?ps = length ?ks" using n by (auto simp: nodeShape_def PageTypeLeaf_def PageTypeInternal_def)
  have mid: "0 < ?mid" "?mid < length ?ks" using big by auto
  define R where "R q = \<lparr>nd_PageID = q, nd_PageType = PageTypeLeaf, nd_Generation = g,
      nd_Keys = drop ?mid ?ks, nd_Pointers = drop ?mid ?ps, nd_Children = [], nd_RightSibling = nd_RightSibling n\<rparr>" for q
  define M where "M q = n\<lparr>nd_Keys := take ?mid ?ks, nd_Pointers := take ?mid ?ps, nd_RightSibling := q\<rparr>" for q
  have R: "nd_PageID (R q) = q" "nd_Keys (R q) = drop ?mid ?ks" "nd_Pointers (R q) = drop ?mid ?ps" "nd_PageType (R q) = PageTypeLeaf"
    and M: "nd_PageID (M q) = at" "nd_Keys (M q) = take ?mid ?ks" "nd_Pointers (M q) = take ?mid ?ps" "nd_PageType (M q) = PageTypeLeaf"
    for q using at(2) n(2) by (simp_all add: R_def M_def)
  obtain q t1 t2 t3 t4 where
    run: "allocatePageID t = (Ok q, t1)" "registerNewNode (R q) t1 = (Ok (), t2)" "putNode at (M q) t2 = (Ok (), t3)"
      "markDirty at t3 = (Ok (), t4)" and eff: "effect {at} 1 t t4"
    and pk: "peek t4 = (peek t)(q \<mapsto> R q, at \<mapsto> M q)" "q \<in> avail t" "avail t4 = avail t - {q}" "reserved t4 = reserved t - {q}"
      "q \<noteq> at" "3 \<le> q" "touched t t4 {q, at}" "{q, at} \<subseteq> set (dirtyNodes t4)"
    using split_pages_run [OF ok room at(1,3) R(1), of M] by (elim exE conjE) (rule that)
  have sp: "splitLeaf at n g t = (Ok (at, Some (?s, q)), t4)"
    using run mid len at(2)
    by (simp add: splitLeaf_def Let_def R_def [symmetric] M_def [symmetric] sub_def R(2))
  have lv: "live t4 (Lf (M q))" "live t4 (Lf (R q))" using pk at M R by (auto simp: live_def intro: clean_dirty)
  have shp: "nodeShape (M q)" "nodeShape (R q)"
    using n(1,2) len by (auto simp: nodeShape_def M_def R_def PageTypeLeaf_def PageTypeInternal_def)
  have sh: "shaped L (Lf (M q))" "shaped L (Lf (R q))"
    using nodeBounds_part [OF n(1,4) big(1) n(3,5) shp(1), of "[]" "drop ?mid ?ks"]
      nodeBounds_part [OF n(1,4) big(1) n(3,5) shp(2), of "take ?mid ?ks" "[]"] M R n(2) big(2) mid by auto
  have "zip ?ks ?ps = zip (take ?mid ?ks) (take ?mid ?ps) @ zip (drop ?mid ?ks) (drop ?mid ?ps)"
    using len zip_append [of "take ?mid ?ks" "take ?mid ?ps" "drop ?mid ?ks" "drop ?mid ?ps"] by simp
  then have "flat [Lf (M q), Lf (R q)] = contents (Lf n)" by (simp add: M R)
  moreover have "touched t t4 (set (forestPages [Lf (M q), Lf (R q)]))" using pk(7) M R by (simp add: insert_commute)
  ultimately have "grown t t4 {at} lo hi h (at, Some (?s, q)) (map_of (contents (Lf n))) [?s] [Lf (M q), Lf (R q)]"
    using leaf_halves [OF ord mid M(2) R(2)] sh lv M(1) R(1) mid(2) n(4) pk by (auto simp: grown_def root_def)
  moreover have "at \<notin> reserved t4" "{at} \<subseteq> set (forestPages [Lf (M q), Lf (R q)])" using at(3) pk(4) M(1) by simp_all
  ultimately show ?thesis using eff sp by blast
qed

text \<open>An overfull inner node is split around its middle key, which moves up.\<close>

lemma splitInternal_run:
  assumes ok: "stateOk t" and room: "unat (nextPageID t) + 1 < 2 ^ 64"
    and at: "at \<in> set (dirtyNodes t)" "nd_PageID n = at" "at \<notin> reserved t" "3 \<le> at"
    and n: "nodeShape n" "nd_PageType n = PageTypeInternal" "length (nd_Keys n) \<le> 1362" "\<forall>k \<in> set (nd_Keys n). length k \<le> L"
      "L \<le> fitLimit \<longrightarrow> nodeSize n \<le> 16384 + 272"
    and big: "16384 < nodeSize n" "3 \<le> length (nd_Keys n)"
    and ts: "nd_Children n = map root ts" "\<forall>u \<in> set ts. shaped L u \<and> within h u \<and> live t u"
      "distinct (at # forestPages ts)"
    and ord: "ordered lo hi (Nd n ts)" "bounds lo hi"
  shows "\<exists>r t' ss us. splitInternal at n g t = (Ok r, t') \<and> effect {at} 1 t t' \<and> at \<notin> reserved t' \<and> insert at (set (forestPages ts)) \<subseteq> set (forestPages us)
     \<and> grown t t' (insert at (set (forestPages ts))) lo hi (Suc h) r (map_of (flat ts)) ss us"
proof -
  let ?ks = "nd_Keys n" and ?cs = "nd_Children n"
  let ?mid = "length ?ks div 2"
  let ?s = "?ks ! ?mid" and ?ts1 = "take (Suc (length ?ks div 2)) ts" and ?ts2 = "drop (Suc (length ?ks div 2)) ts"
  have len: "length ?cs = Suc (length ?ks)" using n by (auto simp: nodeShape_def PageTypeLeaf_def PageTypeInternal_def)
  have mid: "0 < ?mid" "?mid < length ?ks" using big by auto
  have ks: "?ks = take ?mid ?ks @ ?s # drop (Suc ?mid) ?ks" using mid(2) by (rule id_take_nth_drop)
  define R where "R q = \<lparr>nd_PageID = q, nd_PageType = PageTypeInternal, nd_Generation = g,
      nd_Keys = drop (Suc ?mid) ?ks, nd_Pointers = [], nd_Children = drop (Suc ?mid) ?cs, nd_RightSibling = 0\<rparr>" for q
  define M where "M = n\<lparr>nd_Keys := take ?mid ?ks, nd_Children := take (Suc ?mid) ?cs\<rparr>"
  have R: "nd_PageID (R q) = q" "nd_Keys (R q) = drop (Suc ?mid) ?ks" "nd_Children (R q) = map root ?ts2" "nd_PageType (R q) = PageTypeInternal"
    and M: "nd_PageID M = at" "nd_Keys M = take ?mid ?ks" "nd_Children M = map root ?ts1" "nd_PageType M = PageTypeInternal"
    for q using at(2) n(2) by (simp_all add: R_def M_def ts(1) take_map drop_map)
  obtain q t1 t2 t3 t4 where
    run: "allocatePageID t = (Ok q, t1)" "registerNewNode (R q) t1 = (Ok (), t2)" "putNode at M t2 = (Ok (), t3)"
      "markDirty at t3 = (Ok (), t4)" and eff: "effect {at} 1 t t4"
    and pk: "peek t4 = (peek t)(q \<mapsto> R q, at \<mapsto> M)" "q \<in> avail t" "avail t4 = avail t - {q}" "reserved t4 = reserved t - {q}"
      "q \<noteq> at" "3 \<le> q" "touched t t4 {q, at}" "{q, at} \<subseteq> set (dirtyNodes t4)"
    using split_pages_run [OF ok room at(1,3) R(1), of "\<lambda>_. M"] by (elim exE conjE) (rule that)
  have sp: "splitInternal at n g t = (Ok (at, Some (?s, q)), t4)"
    using run mid len at(2)
    by (simp add: splitInternal_def Let_def R_def [symmetric] M_def [symmetric] sub_def)
  have shp: "nodeShape M" "nodeShape (R q)"
    using n(1,2) len mid by (auto simp: nodeShape_def M_def R_def PageTypeLeaf_def PageTypeInternal_def)
  have bd: "nodeBounds L M" "nodeBounds L (R q)"
    using nodeBounds_part [OF n(1,4) big(1) n(3,5) shp(1), of "[]" "?s # drop (Suc ?mid) ?ks"]
      nodeBounds_part [OF n(1,4) big(1) n(3,5) shp(2), of "take ?mid ?ks @ [?s]" "[]"] M R n(2) big(2) mid ks by auto
  have fp: "forestPages ts = forestPages ?ts1 @ forestPages ?ts2"
    using forestPages_simps(3) [of ?ts1 ?ts2] by simp
  have qts: "q \<notin> set (forestPages ts)" using ts(2) pk(2) by (auto simp: set_forestPages live_def reserved_def)
  have kids: "\<forall>u \<in> set ts. live t4 u"
    using live_effect [OF _ eff] ts(2,3) by (auto simp: set_forestPages)
  have lv: "live t4 (Nd M ?ts1)" "live t4 (Nd (R q) ?ts2)"
    using kids pk at M(1) R(1) ts(3) qts unfolding fp
    by (auto simp: live_def set_forestPages intro: clean_dirty dest: in_set_takeD in_set_dropD)
  have sh: "shaped L (Nd M ?ts1)" "shaped L (Nd (R q) ?ts2)"
    using bd M(3,4) R(3,4) ts(2) by (auto dest: in_set_takeD in_set_dropD)
  have wi: "within (Suc h) (Nd M ?ts1)" "within (Suc h) (Nd (R q) ?ts2)"
    using ts(2) by (auto dest: in_set_takeD in_set_dropD)
  have "chain lo (take ?mid ?ks @ ?s # drop (Suc ?mid) ?ks) hi ts" using ord(1) ks by simp
  note cut = chain_split [OF this]
  have "chain lo [?s] hi [Nd M ?ts1, Nd (R q) ?ts2]" using cut mid by (simp add: M R min_def)
  moreover have "flat [Nd M ?ts1, Nd (R q) ?ts2] = flat ts" using flat_simps(3) [of ?ts1 ?ts2] by simp
  moreover have "touched t t4 (set (forestPages [Nd M ?ts1, Nd (R q) ?ts2]))"
    by (rule touched_mono [OF pk(7)]) (simp add: M R)
  ultimately have "grown t t4 (insert at (set (forestPages ts))) lo hi (Suc h) (at, Some (?s, q)) (map_of (flat ts)) [?s]
      [Nd M ?ts1, Nd (R q) ?ts2]"
    using lv sh wi n(4) mid(2) M(1) R(1) ts(3) qts pk unfolding fp by (auto simp: grown_def root_def)
  moreover have "at \<notin> reserved t4" "insert at (set (forestPages ts)) \<subseteq> set (forestPages [Nd M ?ts1, Nd (R q) ?ts2])"
    using at(3) pk(4) M(1) unfolding fp by auto
  ultimately show ?thesis using eff sp by blast
qed

lemma grown_widen:
  assumes "grown t2 t3 S lo hi h r m ss us" "S \<subseteq> S' \<union> (avail t - avail t2)" "avail t2 \<subseteq> avail t" "avail t3 \<subseteq> avail t2"
    "touched t t2 P" "P \<subseteq> set (forestPages us)"
  shows "grown t t3 S' lo hi h r m ss us"
proof -
  have "touched t t3 (set (forestPages us))"
    using assms(1,6) touched_trans [OF assms(5)] unfolding grown_def by blast
  then show ?thesis using assms(1-4) unfolding grown_def by auto
qed

text \<open>Both splits happen only when the node does not fit a page.\<close>

lemma splitUnlessFits_run:
  assumes ok: "stateOk t" and at: "at \<in> set (dirtyNodes t)" "nd_PageID n = at" "at \<notin> reserved t"
    and room: "unat (nextPageID t) + 1 < 2 ^ 64"
    and n: "nodeShape n" "length (nd_Keys n) \<le> 1362" "\<forall>k \<in> set (nd_Keys n). length k \<le> L"
    and whole: "\<And>t1. peek t1 = (peek t)(at \<mapsto> n) \<Longrightarrow> reserved t1 = reserved t \<Longrightarrow> nodeBounds L n \<Longrightarrow>
        touched t t1 {at} \<Longrightarrow> at \<in> set (dirtyNodes t1) \<Longrightarrow> effect {at} 0 t t1 \<Longrightarrow> \<exists>us. S \<subseteq> set (forestPages us) \<and> grown t t1 S lo hi h (at, None) m [] us"
    and split: "\<And>t1. stateOk t1 \<Longrightarrow> effect {at} 0 t t1 \<Longrightarrow> peek t1 = (peek t)(at \<mapsto> n) \<Longrightarrow> reserved t1 = reserved t \<Longrightarrow>
        at \<in> set (dirtyNodes t1) \<Longrightarrow> unat (nextPageID t1) + 1 < 2 ^ 64 \<Longrightarrow> 16384 < nodeSize n \<Longrightarrow> 3 \<le> length (nd_Keys n) \<Longrightarrow>
        \<exists>r t' ss us. split at n g t1 = (Ok r, t') \<and> effect {at} 1 t1 t' \<and> at \<notin> reserved t' \<and> S \<subseteq> set (forestPages us)
          \<and> grown t1 t' S lo hi h r m ss us"
    and S: "at \<in> S"
  shows "\<exists>r t' ss us. splitUnlessFits split at n g t = (Ok r, t') \<and> effect {at} 1 t t'
     \<and> at \<notin> reserved t' \<and> S \<subseteq> set (forestPages us) \<and> grown t t' S lo hi h r m ss us"
proof -
  obtain t1 where t1: "putNode at n t = (Ok (), t1)" "effect {at} 0 t t1" "peek t1 = (peek t)(at \<mapsto> n)"
    "avail t1 = avail t" "dirtyNodes t1 = dirtyNodes t" "reserved t1 = reserved t" "touched t t1 {at}"
    using putNode_run [OF ok at(1), of n] by (elim exE conjE) (rule that)
  from Serialize_cases [OF n limit] show ?thesis
  proof (elim disjE conjE exE)
    fix b assume "Serialize n = Ok b" "nodeSize n \<le> 16384" "length (nd_Keys n) \<le> 1361"
    then have "nodeBounds L n" using n by (simp add: nodeBounds_def)
    then obtain us where "S \<subseteq> set (forestPages us)" "grown t t1 S lo hi h (at, None) m [] us" using whole [OF t1(3,6) _ t1(7) _ t1(2)] at(1) t1(5) by auto
    moreover have "splitUnlessFits split at n g t = (Ok (at, None), t1)"
      using t1(1) \<open>Serialize n = Ok b\<close> at(2) by (simp add: splitUnlessFits_def)
    ultimately show ?thesis using effect_mono [OF t1(2), of "{at}" 1] at(3) t1(6) by auto
  next
    assume big: "Serialize n = Err PageOverflow" "16384 < nodeSize n" "3 \<le> length (nd_Keys n)"
    have "unat (nextPageID t1) + 1 < 2 ^ 64" using room t1(2) by (simp add: effect_def)
    then obtain r t' ss us where r: "split at n g t1 = (Ok r, t')" "effect {at} 1 t1 t'" "at \<notin> reserved t'"
        "S \<subseteq> set (forestPages us)" "grown t1 t' S lo hi h r m ss us"
      using split [OF effect_stateOk [OF t1(2)] t1(2,3,6)] at(1) t1(5) big(2,3) by auto
    have "splitUnlessFits split at n g t = (Ok r, t')" using t1(1) big(1) r(1) by (simp add: splitUnlessFits_def)
    moreover have "grown t t' S lo hi h r m ss us"
      using grown_widen [OF r(5), of S t "{at}"] t1(4,7) r(2,4) S by (auto simp: effect_def)
    ultimately show ?thesis using effect_trans [OF t1(2) r(2)] r(3,4) by auto
  qed
qed

lemma live_Lf:
  "peek t1 = P(at \<mapsto> n) \<Longrightarrow> nd_PageID n = at \<Longrightarrow> at \<notin> reserved t1 \<Longrightarrow> 3 \<le> at \<Longrightarrow> at \<in> set (dirtyNodes t1) \<Longrightarrow> live t1 (Lf n)"
  by (simp add: live_def clean_dirty)

lemma growLeaf_run:
  assumes ok: "stateOk t" and room: "unat (nextPageID t) + 1 < 2 ^ 64"
    and at: "at \<in> set (dirtyNodes t)" "nd_PageID n = at" "at \<notin> reserved t" "3 \<le> at"
    and n: "nodeShape n" "nd_PageType n = PageTypeLeaf" "length (nd_Keys n) \<le> 1362" "\<forall>k \<in> set (nd_Keys n). length k \<le> L"
      "L \<le> fitLimit \<longrightarrow> nodeSize n \<le> 16384 + 272"
    and ord: "ordered lo hi (Lf n)" "bounds lo hi"
  shows "\<exists>r t' ss us. splitUnlessFits splitLeaf at n g t = (Ok r, t') \<and> effect {at} 1 t t' \<and> at \<notin> reserved t' \<and> {at} \<subseteq> set (forestPages us)
     \<and> grown t t' {at} lo hi h r (map_of (contents (Lf n))) ss us"
proof (rule splitUnlessFits_run [OF ok at(1-3) room n(1,3,4)])
  fix t1 assume "peek t1 = (peek t)(at \<mapsto> n)" "reserved t1 = reserved t" "nodeBounds L n" "touched t t1 {at}"
    "at \<in> set (dirtyNodes t1)" "effect {at} 0 t t1"
  then have "grown t t1 {at} lo hi h (at, None) (map_of (contents (Lf n))) [] [Lf n]"
    using live_Lf [of t1 "peek t" at n] at n(2) ord(1) by (simp add: grown_def root_def)
  then show "\<exists>us. {at} \<subseteq> set (forestPages us) \<and> grown t t1 {at} lo hi h (at, None) (map_of (contents (Lf n))) [] us"
    using at(2) by (intro exI [of _ "[Lf n]"]) simp
next
  fix t1 assume "stateOk t1" "reserved t1 = reserved t" "at \<in> set (dirtyNodes t1)" "unat (nextPageID t1) + 1 < 2 ^ 64"
    "16384 < nodeSize n" "3 \<le> length (nd_Keys n)"
  then show "\<exists>r t' ss us. splitLeaf at n g t1 = (Ok r, t') \<and> effect {at} 1 t1 t' \<and> at \<notin> reserved t'
      \<and> {at} \<subseteq> set (forestPages us) \<and> grown t1 t' {at} lo hi h r (map_of (contents (Lf n))) ss us"
    using at n ord by (intro splitLeaf_run) auto
qed simp

lemma growInternal_run:
  assumes ok: "stateOk t" and room: "unat (nextPageID t) + 1 < 2 ^ 64"
    and at: "at \<in> set (dirtyNodes t)" "nd_PageID n = at" "at \<notin> reserved t" "3 \<le> at"
    and n: "nodeShape n" "nd_PageType n = PageTypeInternal" "length (nd_Keys n) \<le> 1362" "\<forall>k \<in> set (nd_Keys n). length k \<le> L"
      "L \<le> fitLimit \<longrightarrow> nodeSize n \<le> 16384 + 272"
    and ts: "nd_Children n = map root ts" "\<forall>u \<in> set ts. shaped L u \<and> within h u \<and> live t u" "distinct (at # forestPages ts)"
    and ord: "ordered lo hi (Nd n ts)" "bounds lo hi"
  shows "\<exists>r t' ss us. splitUnlessFits splitInternal at n g t = (Ok r, t') \<and> effect {at} 1 t t' \<and> at \<notin> reserved t' \<and> insert at (set (forestPages ts)) \<subseteq> set (forestPages us)
     \<and> grown t t' (insert at (set (forestPages ts))) lo hi (Suc h) r (map_of (flat ts)) ss us"
proof (rule splitUnlessFits_run [OF ok at(1-3) room n(1,3,4)])
  fix t1 assume t1: "peek t1 = (peek t)(at \<mapsto> n)" "reserved t1 = reserved t" "nodeBounds L n" "touched t t1 {at}"
    "at \<in> set (dirtyNodes t1)" "effect {at} 0 t t1"
  have "live t1 u" if "u \<in> set ts" for u
    using live_effect [OF _ t1(6)] ts(2,3) that by (auto simp: set_forestPages)
  then have "live t1 (Nd n ts)" using t1 at ts(2,3) by (auto simp: live_def set_forestPages clean_dirty)
  then have "grown t t1 (insert at (set (forestPages ts))) lo hi (Suc h) (at, None) (map_of (flat ts)) [] [Nd n ts]"
    using at n(2) ord(1) ts t1(3) touched_mono [OF t1(4), of "set (forestPages [Nd n ts])"] by (auto simp: grown_def root_def)
  then show "\<exists>us. insert at (set (forestPages ts)) \<subseteq> set (forestPages us)
      \<and> grown t t1 (insert at (set (forestPages ts))) lo hi (Suc h) (at, None) (map_of (flat ts)) [] us"
    using at(2) by (intro exI [of _ "[Nd n ts]"]) simp
next
  fix t1 assume t1: "stateOk t1" "effect {at} 0 t t1" "reserved t1 = reserved t" "at \<in> set (dirtyNodes t1)"
    "unat (nextPageID t1) + 1 < 2 ^ 64" "16384 < nodeSize n" "3 \<le> length (nd_Keys n)"
  have "live t1 u" if "u \<in> set ts" for u
    using live_effect [OF _ t1(2)] ts(2,3) that by (auto simp: set_forestPages)
  then show "\<exists>r t' ss us. splitInternal at n g t1 = (Ok r, t') \<and> effect {at} 1 t1 t' \<and> at \<notin> reserved t'
      \<and> insert at (set (forestPages ts)) \<subseteq> set (forestPages us) \<and> grown t1 t' (insert at (set (forestPages ts))) lo hi (Suc h) r (map_of (flat ts)) ss us"
    using at n ts ord t1 by (intro splitInternal_run) auto
qed simp

text \<open>The parent of the subtree that was inserted into.\<close>

lemma replaceChild_run:
  assumes "yields r ss us" "nd_Children n = map root (ts1 @ u # ts2)" "length ts1 = i" "i \<le> length (nd_Keys n)"
  shows "replaceChild i r n = Ok (n\<lparr>nd_Keys := take i (nd_Keys n) @ ss @ drop i (nd_Keys n),
    nd_Children := map root (ts1 @ us @ ts2)\<rparr>)"
proof -
  obtain p sq where r: "r = (p, sq)" by fastforce
  have set: "setAt i p (nd_Children n) = Ok (map root ts1 @ p # map root ts2)" using assms(2,3) by (simp add: list_update_append)
  show ?thesis
  proof (cases sq)
    case None
    then show ?thesis using assms(1) set r by (auto simp: replaceChild_def)
  next
    case (Some a)
    then obtain s q where "sq = Some (s, q)" by (cases a) auto
    then show ?thesis using assms set r by (auto simp: replaceChild_def)
  qed
qed

lemma replace_size:
  assumes "nodeShape n" "nodeShape n'" "nd_PageType n' = nd_PageType n"
    "nd_Keys n' = take i (nd_Keys n) @ ss @ drop i (nd_Keys n)" "length ss \<le> 1" "\<forall>s \<in> set ss. length s \<le> fitLimit"
  shows "nodeSize n' \<le> nodeSize n + 272"
proof -
  have kc: "keyCost n' = keyCost n" using assms(3) by (simp add: keyCost_def fun_eq_iff)
  have "sum_list (map (keyCost n) (nd_Keys n))
      = sum_list (map (keyCost n) (take i (nd_Keys n))) + sum_list (map (keyCost n) (drop i (nd_Keys n)))"
    by (subst (1) append_take_drop_id [of i "nd_Keys n", symmetric]) (simp only: map_append sum_list_append)
  moreover have "sum_list (map (keyCost n) ss) \<le> 272"
    using assms(5,6) by (cases ss) (auto simp: keyCost_def fitLimit_def)
  ultimately show ?thesis using assms kc by (simp add: nodeSize_cost)
qed

lemma yields_length: "yields r ss us \<Longrightarrow> length ss \<le> 1"
  by (cases "(r, ss, us)" rule: yields.cases) auto

text \<open>Reading the top node of a tree and preparing its copy.\<close>

lemma enter_run:
  assumes ok: "stateOk t" and lv: "live t T" and n: "n = top T" and room: "unat (nextPageID t) + 1 < 2 ^ 64"
  shows "\<exists>t1 at m t2. getNode (nd_PageID n) t = (Ok n, t1) \<and> shadowNode (nd_PageID n) n g t1 = (Ok (at, m), t2)
     \<and> effect {nd_PageID n} 1 t t2 \<and> nd_PageID m = at \<and> nd_PageType m = nd_PageType n
     \<and> (m = n \<or> m = newNodeLike n at g) \<and> at \<in> set (dirtyNodes t2)
     \<and> at \<in> insert (nd_PageID n) (avail t - avail t2) \<and> at \<notin> reserved t2 \<and> 3 \<le> at \<and> touched t t2 {at}"
proof -
  have top: "peek t (nd_PageID n) = Some n" and n3: "3 \<le> nd_PageID n" and free: "nd_PageID n \<notin> reserved t"
    using lv live_top [OF lv] root_in_pages [of T] n by (auto simp: live_def root_def)
  obtain t1 where t1: "getNode (nd_PageID n) t = (Ok n, t1)" "sameView t t1" using getNode_run [OF ok top] by blast
  note v1 = t1(2) [unfolded sameView_def]
  obtain at m t2 where t2: "shadowNode (nd_PageID n) n g t1 = (Ok (at, m), t2)" "effect {nd_PageID n} 1 t1 t2"
    "nd_PageID m = at" "nd_PageType m = nd_PageType n" "m = n \<or> m = newNodeLike n at g"
    "at \<in> set (dirtyNodes t2)" "at \<in> insert (nd_PageID n) (avail t1 - avail t2)" "at \<notin> reserved t2" "touched t1 t2 {at}"
    using shadowNode_run [OF sameView_stateOk [OF t1(2)], of n g] top free n3 room v1 by auto
  have "effect {nd_PageID n} 1 t t2" using effect_trans [of "{}" 0 t t1 "{nd_PageID n}" 1 t2] t2(2) v1 by simp
  moreover have "3 \<le> at" using t2(7) n3 avail_ge_3 [OF sameView_stateOk [OF t1(2)]] by auto
  moreover have "touched t t2 {at}" using touched_trans [OF sameView_touched [OF t1(2)] t2(9), of "{at}"] by simp
  ultimately show ?thesis using t1(1) t2 v1 by auto
qed

lemma insertRecursive_Lf:
  assumes ok: "stateOk t" and lv: "live t (Lf n)" and sh: "shaped L (Lf n)" and ord: "ordered lo hi (Lf n)" "bounds lo hi"
    and k: "inside lo hi k" "length k \<le> L" and room: "unat (nextPageID t) + 2 < 2 ^ 64"
  shows "\<exists>r t' ss us. insertRecursive fmt (Suc fuel) (nd_PageID n) k p g t = (Ok r, t')
     \<and> effect {nd_PageID n} 2 t t' \<and> grown t t' {nd_PageID n} lo hi h r ((map_of (contents (Lf n)))(k \<mapsto> p)) ss us"
proof -
  obtain t1 at m t2 where t2: "getNode (nd_PageID n) t = (Ok n, t1)" "shadowNode (nd_PageID n) n g t1 = (Ok (at, m), t2)"
    "effect {nd_PageID n} 1 t t2" "nd_PageID m = at" "nd_PageType m = nd_PageType n" "m = n \<or> m = newNodeLike n at g"
    "at \<in> set (dirtyNodes t2)" "at \<in> insert (nd_PageID n) (avail t - avail t2)" "at \<notin> reserved t2" "3 \<le> at" "touched t t2 {at}"
    using enter_run [OF ok lv, of n g] room by auto
  let ?m = "m\<lparr>nd_Keys := nd_Keys n, nd_Pointers := nd_Pointers n\<rparr>"
  have shm: "nodeShape ?m" "nodeShape n" using sh t2(5,6)
    by (auto simp: nodeBounds_def nodeShape_def newNodeLike_def PageTypeLeaf_def PageTypeInternal_def)
  have K: "k \<in> K" using k(1) by (simp add: inside_def)
  obtain n' where n': "insertIntoLeaf fmt ?m k p = Ok n'" "nodeShape n'" "nd_PageType n' = PageTypeLeaf" "nd_PageID n' = at"
    "sorted_keys (nd_Keys n')" "set (nd_Keys n') = insert k (set (nd_Keys n))" "length (nd_Keys n') \<le> Suc (length (nd_Keys n))"
    "nodeSize n' \<le> nodeSize ?m + keyCost ?m k"
    "map_of (zip (nd_Keys n') (nd_Pointers n')) = (map_of (zip (nd_Keys n) (nd_Pointers n)))(k \<mapsto> p)"
    using insertIntoLeaf_run [OF shm(1) _ _ K, of p] t2(4,5) sh ord(1) by auto
  have size: "nodeSize ?m = nodeSize n" using shm t2(5) by (simp add: nodeSize_cost keyCost_def [abs_def])
  have fit: "L \<le> fitLimit \<longrightarrow> nodeSize n' \<le> 16384 + 272"
    using n'(8) size sh k(2) t2(5) by (auto simp: nodeBounds_def keyCost_def fitLimit_def)
  have room2: "unat (nextPageID t2) + 1 < 2 ^ 64" using t2(3) room by (simp add: effect_def)
  obtain r t3 ss us where t3: "splitUnlessFits splitLeaf at n' g t2 = (Ok r, t3)" "effect {at} 1 t2 t3" "at \<notin> reserved t3"
    "{at} \<subseteq> set (forestPages us)" "grown t2 t3 {at} lo hi h r (map_of (contents (Lf n'))) ss us"
    using growLeaf_run [OF effect_stateOk [OF t2(3)] room2 t2(7) n'(4) t2(9,10) n'(2,3) _ _ fit _ ord(2), of g h]
      n'(5-7) sh k ord(1) by (auto simp: nodeBounds_def)
  have av: "avail t2 \<subseteq> avail t" "avail t3 \<subseteq> avail t2" using t2(3) t3(2) by (auto simp: effect_def)
  have "effect {nd_PageID n} (1 + 1) t t3"
    using t2(8) t3(3) by (intro effect_trans' [OF t2(3) t3(2)]) (auto simp: reserved_def)
  then have "effect {nd_PageID n} 2 t t3" by (rule effect_mono) simp_all
  moreover have "grown t t3 {nd_PageID n} lo hi h r ((map_of (contents (Lf n)))(k \<mapsto> p)) ss us"
    using grown_widen [OF t3(5) _ av t2(11) t3(4), of "{nd_PageID n}"] t2(8) n'(9) by auto
  moreover have "insertRecursive fmt (Suc fuel) (nd_PageID n) k p g t = (Ok r, t3)"
    using t2(1,2) n'(1) t3(1) sh by simp
  ultimately show ?thesis by blast
qed

text \<open>Replacing one child by the trees of an insertion.\<close>

lemma replace_map:
  assumes "k \<notin> fst ` set (flat ts1)" "map_of (flat us) = (map_of (contents u))(k \<mapsto> p)"
  shows "map_of (flat (ts1 @ us @ ts2)) = (map_of (flat (ts1 @ u # ts2)))(k \<mapsto> p)"
proof -
  have "map_of (flat ts1) k = None" using assms(1) by (simp add: map_of_eq_None_iff)
  then show ?thesis using assms(2) by (auto simp: fun_eq_iff map_add_def split: option.split)
qed

lemma replace_pages:
  assumes live: "\<forall>w \<in> set (ts1 @ u # ts2). live t w" and d: "distinct (at # forestPages (ts1 @ u # ts2))"
    and at: "at \<notin> avail t" and e: "effect (set (pages u)) m t t'" and g: "grown t t' (set (pages u)) lo hi h r f ss us"
  shows "\<forall>w \<in> set (ts1 @ us @ ts2). live t' w" "distinct (at # forestPages (ts1 @ us @ ts2))"
proof -
  have av: "set (forestPages us) \<subseteq> set (pages u) \<union> avail t" "distinct (forestPages us)" "\<forall>w \<in> set us. live t' w"
    using g by (auto simp: grown_def)
  have "live t' w" if "w \<in> set ts1 \<union> set ts2" for w
    using that live d by (intro live_effect [OF _ e]) (auto simp: set_forestPages)
  then show "\<forall>w \<in> set (ts1 @ us @ ts2). live t' w" using av(3) by auto
  have "set (forestPages ts1 @ forestPages ts2) \<inter> avail t = {}"
    using live by (auto simp: live_def set_forestPages reserved_def)
  then show "distinct (at # forestPages (ts1 @ us @ ts2))" using av(1,2) d at by auto
qed

lemma replace_node:
  assumes sh: "shaped L (Nd n ts)" and m: "nd_PageType m = nd_PageType n" "m = n \<or> m = newNodeLike n at g"
    and y: "yields r ss us" "\<forall>s \<in> set ss. length s \<le> L" and i: "i \<le> length (nd_Keys n)"
    and ts: "length ts' = Suc (length (take i (nd_Keys n) @ ss @ drop i (nd_Keys n)))"
    and n': "n' = m\<lparr>nd_Keys := take i (nd_Keys n) @ ss @ drop i (nd_Keys n), nd_Children := map root ts'\<rparr>"
  shows "nodeShape n'" "nd_PageType n' = PageTypeInternal" "length (nd_Keys n') \<le> 1362" "\<forall>k \<in> set (nd_Keys n'). length k \<le> L"
    "L \<le> fitLimit \<longrightarrow> nodeSize n' \<le> 16384 + 272"
proof -
  have len: "length ss \<le> 1" using y(1) by (rule yields_length)
  show ty: "nd_PageType n' = PageTypeInternal" using sh m(1) n' by simp
  show shn: "nodeShape n'" using sh m ts
    by (auto simp: n' nodeBounds_def nodeShape_def newNodeLike_def PageTypeLeaf_def PageTypeInternal_def)
  show "length (nd_Keys n') \<le> 1362" "\<forall>k \<in> set (nd_Keys n'). length k \<le> L"
    using sh len i y(2) by (auto simp: n' nodeBounds_def dest: in_set_takeD in_set_dropD)
  have "nodeSize n' \<le> nodeSize n + 272" if "L \<le> fitLimit"
    using that replace_size [of n n' i ss] sh shn ty len y(2) by (fastforce simp: n' nodeBounds_def)
  then show "L \<le> fitLimit \<longrightarrow> nodeSize n' \<le> 16384 + 272" using sh by (auto simp: nodeBounds_def)
qed

lemma insertRecursive_Nd:
  assumes ok: "stateOk t" and lv: "live t (Nd n ts)" and sh: "shaped L (Nd n ts)" and ord: "ordered lo hi (Nd n ts)" "bounds lo hi"
    and k: "inside lo hi k" and wi: "\<forall>u \<in> set ts. within h u" and room: "unat (nextPageID t) + 2 * Suc (Suc h) < 2 ^ 64"
    and IH: "\<And>u lo hi t1. u \<in> set ts \<Longrightarrow> stateOk t1 \<Longrightarrow> live t1 u \<Longrightarrow> shaped L u \<Longrightarrow> ordered lo hi u \<Longrightarrow> bounds lo hi \<Longrightarrow>
        inside lo hi k \<Longrightarrow> unat (nextPageID t1) + 2 * Suc h < 2 ^ 64 \<Longrightarrow>
        \<exists>r t' ss us. insertRecursive fmt fuel (root u) k p g t1 = (Ok r, t') \<and> effect (set (pages u)) (2 * Suc h) t1 t'
          \<and> grown t1 t' (set (pages u)) lo hi h r ((map_of (contents u))(k \<mapsto> p)) ss us"
  shows "\<exists>r t' ss us. insertRecursive fmt (Suc fuel) (nd_PageID n) k p g t = (Ok r, t')
     \<and> effect (set (pages (Nd n ts))) (2 * Suc (Suc h)) t t'
     \<and> grown t t' (set (pages (Nd n ts))) lo hi (Suc h) r ((map_of (contents (Nd n ts)))(k \<mapsto> p)) ss us"
proof -
  let ?p = "nd_PageID n" and ?ks = "nd_Keys n"
  have dist: "distinct (?p # forestPages ts)" "set (forestPages ts) \<inter> avail t = {}"
    using lv by (auto simp: live_def reserved_def)
  obtain t1 at m t2 where t2: "getNode ?p t = (Ok n, t1)" "shadowNode ?p n g t1 = (Ok (at, m), t2)"
    "effect {?p} 1 t t2" "nd_PageID m = at" "nd_PageType m = nd_PageType n" "m = n \<or> m = newNodeLike n at g"
    "at \<in> set (dirtyNodes t2)" "at \<in> insert ?p (avail t - avail t2)" "at \<notin> reserved t2" "3 \<le> at" "touched t t2 {at}"
    using enter_run [OF ok lv, of n g] room by auto
  obtain i where i: "i < length ts" "childIndex fmt n k = Ok (i, root (ts ! i))"
    "inside (lower lo (take i ?ks)) (upper (drop i ?ks) hi) k"
    "ts = take i ts @ ts ! i # drop (Suc i) ts" "length (take i ?ks) = length (take i ts)"
    "chain lo (take i ?ks @ drop i ?ks) hi (take i ts @ ts ! i # drop (Suc i) ts)" "i \<le> length ?ks"
    using child_of_key [OF ord(1) sh k ord(2)] by metis
  note focus = chain_focus [OF i(6,5) ord(2)]
  let ?u = "ts ! i" and ?ts1 = "take i ts" and ?ts2 = "drop (Suc i) ts"
  have u: "?u \<in> set ts" using i(1) by simp
  have live2: "\<forall>w \<in> set ts. live t2 w"
    using dist(1) by (auto simp: set_forestPages intro!: live_effect [OF live_child [OF lv] t2(3)])
  have dist2: "distinct (at # forestPages ts)" using dist t2(8) by auto
  have room2: "unat (nextPageID t2) + 2 * Suc h < 2 ^ 64" using t2(3) room by (simp add: effect_def)
  obtain r t3 ss us where t3: "insertRecursive fmt fuel (root ?u) k p g t2 = (Ok r, t3)"
    "effect (set (pages ?u)) (2 * Suc h) t2 t3"
    "grown t2 t3 (set (pages ?u)) (lower lo (take i ?ks)) (upper (drop i ?ks) hi) h r ((map_of (contents ?u))(k \<mapsto> p)) ss us"
    using IH [OF u effect_stateOk [OF t2(3)] _ _ focus(1,2) i(3) room2] live2 u sh by auto
  have y: "yields r ss us" "\<forall>s \<in> set ss. length s \<le> L" "\<forall>w \<in> set us. shaped L w \<and> within h w"
    "chain (lower lo (take i ?ks)) ss (upper (drop i ?ks) hi) us"
    "map_of (flat us) = (map_of (contents ?u))(k \<mapsto> p)" using t3(3) by (auto simp: grown_def)
  let ?ts = "?ts1 @ us @ ?ts2"
  define n' where "n' = m\<lparr>nd_Keys := take i ?ks @ ss @ drop i ?ks, nd_Children := map root ?ts\<rparr>"
  have rc: "replaceChild i r (m\<lparr>nd_Keys := ?ks, nd_Children := nd_Children n\<rparr>) = Ok n'"
    using replaceChild_run [OF y(1), of "m\<lparr>nd_Keys := ?ks, nd_Children := nd_Children n\<rparr>" ?ts1 ?u ?ts2 i] sh i(1,4,7)
    by (simp add: n'_def)
  have fresh: "\<forall>w \<in> set ?ts. live t3 w" "distinct (at # forestPages ?ts)"
    using replace_pages [OF _ _ _ t3(2,3), of ?ts1 ?ts2 at] live2 dist2 t2(9) i(4) by (simp_all add: reserved_def)
  have kids: "\<forall>w \<in> set ?ts. shaped L w \<and> within h w \<and> live t3 w"
    using y(3) sh wi fresh(1) by (auto dest: in_set_takeD in_set_dropD)
  have ordn: "ordered lo hi (Nd n' ?ts)" using focus(3) [OF y(4)] by (simp add: n'_def)
  have n': "nodeShape n'" "nd_PageType n' = PageTypeInternal" "length (nd_Keys n') \<le> 1362" "\<forall>k \<in> set (nd_Keys n'). length k \<le> L"
    "L \<le> fitLimit \<longrightarrow> nodeSize n' \<le> 16384 + 272" "nd_Children n' = map root ?ts" "nd_PageID n' = at"
    using replace_node [OF sh t2(5,6) y(1,2) i(7) _ n'_def] chain_length [of lo _ hi ?ts] ordn t2(4) by (simp_all add: n'_def)
  have at3: "at \<in> set (dirtyNodes t3)" "at \<notin> reserved t3"
    using t2(7,9) t3(2) effect_reserved [OF t3(2)] dist2 u by (auto simp: effect_def set_forestPages)
  have room3: "unat (nextPageID t3) + 1 < 2 ^ 64" using t2(3) t3(2) room by (simp add: effect_def)
  obtain r' t4 ss' us' where t4: "splitUnlessFits splitInternal at n' g t3 = (Ok r', t4)" "effect {at} 1 t3 t4" "at \<notin> reserved t4"
    "insert at (set (forestPages ?ts)) \<subseteq> set (forestPages us')" "grown t3 t4 (insert at (set (forestPages ?ts))) lo hi (Suc h) r' (map_of (flat ?ts)) ss' us'"
    using growInternal_run [OF effect_stateOk [OF t3(2)] room3 at3(1) n'(7) at3(2) t2(10) n'(1-6) kids fresh(2) ordn ord(2), of g]
    by blast
  have av: "avail t2 \<subseteq> avail t" "avail t3 \<subseteq> avail t2" "avail t4 \<subseteq> avail t3" using t2(3) t3(2) t4(2) by (auto simp: effect_def)
  have us: "set (forestPages us) \<subseteq> set (pages ?u) \<union> (avail t2 - avail t3)" using t3(3) by (simp add: grown_def)
  have sub: "set (pages ?u) \<subseteq> set (forestPages ts)" "set (forestPages ?ts1) \<subseteq> set (forestPages ts)"
    "set (forestPages ?ts2) \<subseteq> set (forestPages ts)"
    using u by (auto simp: set_forestPages dest: in_set_takeD in_set_dropD)
  have "effect ({?p} \<union> set (pages ?u)) (1 + 2 * Suc h) t t3" using effect_trans [OF t2(3) t3(2)] .
  then have "effect (set (pages (Nd n ts))) (1 + 2 * Suc h) t t3" by (rule effect_mono) (use sub in auto)
  from effect_trans' [OF this t4(2)] have "effect (set (pages (Nd n ts))) (1 + 2 * Suc h + 1) t t4"
    using t2(8) t4(3) av by (auto simp: reserved_def)
  then have "effect (set (pages (Nd n ts))) (2 * Suc (Suc h)) t t4" by (rule effect_mono) simp_all
  moreover have "grown t t4 (set (pages (Nd n ts))) lo hi (Suc h) r' (map_of (flat ?ts)) ss' us'"
  proof (rule grown_widen [OF t4(5)])
    have "touched t2 t3 (set (forestPages us))" using t3(3) by (simp add: grown_def)
    from touched_trans [OF t2(11) this] show "touched t t3 (insert at (set (forestPages us)))" by auto
  qed (use t2(8) t4(4) us sub av in auto)
  moreover have "map_of (flat ?ts) = (map_of (contents (Nd n ts)))(k \<mapsto> p)"
    using replace_map [OF chain_outside(1) [OF i(6,5,3)] y(5), of ?ts2] i(4) by simp
  moreover have "insertRecursive fmt (Suc fuel) ?p k p g t = (Ok r', t4)"
    using t2(1,2) i(2) t3(1) rc t4(1) sh by (simp add: PageTypeLeaf_def PageTypeInternal_def)
  ultimately show ?thesis by auto
qed

lemma insertRecursive_run:
  assumes "stateOk t" "live t T" "shaped L T" "ordered lo hi T" "bounds lo hi" "inside lo hi k" "length k \<le> L"
    "within h T" "h < fuel" "unat (nextPageID t) + 2 * Suc h < 2 ^ 64"
  shows "\<exists>r t' ss us. insertRecursive fmt fuel (root T) k p g t = (Ok r, t') \<and> effect (set (pages T)) (2 * Suc h) t t'
     \<and> grown t t' (set (pages T)) lo hi h r ((map_of (contents T))(k \<mapsto> p)) ss us"
  using assms
proof (induction T arbitrary: lo hi t h fuel)
  case (Lf n)
  obtain f where f: "fuel = Suc f" using Lf.prems(9) by (cases fuel) auto
  obtain r t' ss us where r: "insertRecursive fmt (Suc f) (nd_PageID n) k p g t = (Ok r, t')" "effect {nd_PageID n} 2 t t'"
    "grown t t' {nd_PageID n} lo hi h r ((map_of (contents (Lf n)))(k \<mapsto> p)) ss us"
    using insertRecursive_Lf [OF Lf.prems(1-7), of f p g h] Lf.prems(10) by auto
  have "effect {nd_PageID n} (2 * Suc h) t t'" using r(2) by (rule effect_mono) simp_all
  then show ?case using r(1,3) unfolding f root_def top.simps pages_simps list.set by blast
next
  case (Nd n ts)
  obtain j f where f: "fuel = Suc f" "h = Suc j" "j < f" using Nd.prems(8,9) by (cases fuel; cases h) auto
  have wi: "\<forall>u \<in> set ts. within j u" using Nd.prems(8) f(2) by simp
  show ?case
    unfolding f root_def top.simps
  proof (rule insertRecursive_Nd [OF Nd.prems(1-6) wi])
    show "unat (nextPageID t) + 2 * Suc (Suc j) < 2 ^ 64" using Nd.prems(10) f(2) by simp
    fix u lo hi t1
    assume u: "u \<in> set ts" "stateOk t1" "live t1 u" "shaped L u" "ordered lo hi u" "bounds lo hi" "inside lo hi k"
      "unat (nextPageID t1) + 2 * Suc j < 2 ^ 64"
    show "\<exists>r t' ss us. insertRecursive fmt f (root u) k p g t1 = (Ok r, t') \<and> effect (set (pages u)) (2 * Suc j) t1 t'
          \<and> grown t1 t' (set (pages u)) lo hi j r ((map_of (contents u))(k \<mapsto> p)) ss us"
      using Nd.IH [OF u(1-7) Nd.prems(7) _ f(3) u(8)] wi u(1) by blast
  qed
qed

end

end
