(* ===== verification/TreeMap.thy ===== *)
theory TreeMap
  imports TreeLaws
begin

text \<open>
  The index file as a collection of finite maps. \<open>indexes\<close> relates a tree state to the map each
  named index stands for; \<open>FindNamed\<close> and \<open>InsertNamedNoCommit\<close> refine lookup and update of these
  maps, for every index at once, so that an insertion into one index does not disturb another.
\<close>

text \<open>An insertion leaves the file alone until the commit; it takes pages from the end and may add its own
  name to the catalog.\<close>

definition inCache :: "string \<Rightarrow> nat \<Rightarrow> DiskBPlusTree \<Rightarrow> DiskBPlusTree \<Rightarrow> bool" where
  "inCache name n t t' = (bt_file t' = bt_file t \<and> bt_disk t' = bt_disk t \<and> bt_io t' = bt_io t
     \<and> set (map fst (bt_catalog t')) \<subseteq> insert name (set (map fst (bt_catalog t)))
     \<and> unat (nextPageID t') \<le> unat (nextPageID t) + n)"

lemma inCache_effect: "effect S n t t' \<Longrightarrow> inCache name n t t'"
  by (auto simp: effect_def inCache_def)

lemma inCache_trans: "inCache name m t t' \<Longrightarrow> inCache name n t' t'' \<Longrightarrow> m + n \<le> l \<Longrightarrow> inCache name l t t''"
  unfolding inCache_def by (elim conjE, intro conjI) (simp_all del: set_map, blast)

lemma setRoot_inCache: "setRoot name p g t = (Ok (), t') \<Longrightarrow> inCache name 0 t t'"
  by (auto simp del: set_map simp: setRoot_def inCache_def update_keys split: if_splits)

context tree_keys begin

definition goodTree :: "DiskBPlusTree \<Rightarrow> nat \<Rightarrow> btree \<Rightarrow> bool" where
  "goodTree t h T = (live t T \<and> shaped L T \<and> ordered None None T \<and> within h T)"

definition forest :: "nat \<Rightarrow> DiskBPlusTree \<Rightarrow> (string \<rightharpoonup> btree) \<Rightarrow> bool" where
  "forest h t F = (stateOk t \<and> (\<forall>name T. F name = Some T \<longrightarrow> goodTree t h T \<and> catalogRoot t \<notin> set (pages T))
     \<and> (\<forall>a b T U. F a = Some T \<longrightarrow> F b = Some U \<longrightarrow> a \<noteq> b \<longrightarrow> set (pages T) \<inter> set (pages U) = {})
     \<and> catalogRoot t \<notin> reserved t
     \<and> (\<forall>p \<in> set (dirtyNodes t). 3 \<le> p \<and> p < nextPageID t \<and> (\<forall>n. peek t p = Some n \<longrightarrow> nodeBounds L n \<and> nd_PageID n = p)))"

definition catalogOf :: "DiskBPlusTree \<Rightarrow> (string \<rightharpoonup> btree) \<Rightarrow> bool" where
  "catalogOf t F = ((\<forall>name. map_option RootPageID (map_of (bt_catalog t) name) = map_option root (F name))
     \<and> distinct (map fst (bt_catalog t)) \<and> (\<forall>(name, r) \<in> set (bt_catalog t). ir_Name r = name))"

definition mapsOf :: "(string \<rightharpoonup> btree) \<Rightarrow> string \<Rightarrow> bytes \<rightharpoonup> RecordPointer" where
  "mapsOf F name = (case F name of None \<Rightarrow> Map.empty | Some T \<Rightarrow> map_of (contents T))"

text \<open>\<open>n\<close> is the number of insertions for which there are page numbers and depth left.\<close>

definition indexes :: "nat \<Rightarrow> nat \<Rightarrow> DiskBPlusTree \<Rightarrow> (string \<Rightarrow> bytes \<rightharpoonup> RecordPointer) \<Rightarrow> bool" where
  "indexes n fuel t M = (\<exists>h F. forest h t F \<and> catalogOf t F \<and> h + n < fuel
     \<and> unat (nextPageID t) + n * (2 * fuel + 4) < 2 ^ 64 \<and> M = mapsOf F)"

lemma unbounded [simp]: "bounds None None" "inside None None k \<longleftrightarrow> k \<in> K"
  by (simp_all add: bounds_def inside_def)

section \<open>Lookup\<close>

lemma goodTree_sameView: "sameView t t' \<Longrightarrow> goodTree t' h T = goodTree t h T"
  by (simp add: goodTree_def live_sameView)

lemma forest_sameView:
  assumes "sameView t t'" "forest h t F" shows "forest h t' F"
  using assms(2) goodTree_sameView [OF assms(1)] sameView_stateOk [OF assms(1)] assms(1)
  by (simp add: forest_def sameView_def effect_def)

lemma forestD:
  assumes "forest h t F" "F name = Some T"
  shows "stateOk t" "live t T" "shaped L T" "ordered None None T" "within h T" "catalogRoot t \<notin> set (pages T)"
  using assms by (auto simp: forest_def goodTree_def)

lemma indexes_sameView: "sameView t t' \<Longrightarrow> indexes n fuel t M \<Longrightarrow> indexes n fuel t' M"
  unfolding indexes_def catalogOf_def using forest_sameView by (fastforce simp: sameView_def effect_def)

lemma FindNamed_same:
  assumes "indexes n fuel t M" "k \<in> K"
  shows "\<exists>t'. FindNamed fmt fuel name k t = (Ok (M name k), t') \<and> indexes n fuel t' M \<and> sameView t t'"
proof -
  obtain h F where F: "forest h t F" "catalogOf t F" "h + n < fuel" "M = mapsOf F" using assms(1) by (auto simp: indexes_def)
  have cat: "map_option RootPageID (map_of (bt_catalog t) name) = map_option root (F name)" using F(2) by (simp add: catalogOf_def)
  show ?thesis
  proof (cases "F name")
    case None
    then show ?thesis using cat F(1,4) assms(1) by (simp add: FindNamed_def mapsOf_def forest_def sameView_refl)
  next
    case (Some T)
    then obtain e where e: "map_of (bt_catalog t) name = Some e" "RootPageID e = root T" using cat by auto
    note T = forestD [OF F(1) Some]
    have "h < fuel" using F(3) by simp
    then obtain t' where "findLoop fmt fuel (root T) k t = (Ok (map_of (contents T) k), t')" "sameView t t'"
      using findLoop_run [OF T(1-4) _ _ T(5)] assms(2) by auto
    then show ?thesis using e F(4) Some indexes_sameView [OF _ assms(1)] by (auto simp: FindNamed_def mapsOf_def)
  qed
qed

lemma FindNamed_run:
  assumes "indexes n fuel t M" "k \<in> K"
  shows "\<exists>t'. FindNamed fmt fuel name k t = (Ok (M name k), t') \<and> indexes n fuel t' M"
  using FindNamed_same [OF assms] by blast

section \<open>Insertion\<close>

lemma shaped_nodes: "shaped L T \<Longrightarrow> n \<in> set (nodes T) \<Longrightarrow> nodeBounds L n"
  by (induction T) auto

lemma live_dirty:
  assumes "live t T" "shaped L T" "p \<in> set (pages T)" "peek t p = Some n"
  shows "nodeBounds L n \<and> nd_PageID n = p \<and> 3 \<le> p"
  using assms shaped_nodes [OF assms(2)] by (auto simp: live_def pages_def represents_def)

text \<open>Replacing the tree of one index.\<close>

lemma forest_update:
  assumes F: "forest h t F" and e: "effect S m t t'" and T: "goodTree t' h' T'" "h \<le> h'"
    and S: "\<forall>b U. b \<noteq> name \<longrightarrow> F b = Some U \<longrightarrow> set (pages U) \<inter> S = {}" "catalogRoot t \<notin> S"
    and p: "set (pages T') \<subseteq> S \<union> (avail t - avail t')" and tc: "touched t t' (set (pages T'))"
  shows "forest h' t' (F(name \<mapsto> T'))"
proof -
  have old: "goodTree t' h' U" "catalogRoot t' \<notin> set (pages U)" "set (pages T') \<inter> set (pages U) = {}"
    if "F b = Some U" "b \<noteq> name" for b U
  proof -
    have U: "goodTree t h U" "catalogRoot t \<notin> set (pages U)" "set (pages U) \<inter> S = {}" using F S that by (auto simp: forest_def)
    then show "goodTree t' h' U" using live_effect [OF _ e] within_mono T(2) by (auto simp: goodTree_def)
    show "catalogRoot t' \<notin> set (pages U)" using U(2) e by (simp add: effect_def)
    have "set (pages U) \<inter> avail t = {}" using U(1) by (auto simp: goodTree_def live_def reserved_def)
    then show "set (pages T') \<inter> set (pages U) = {}" using U(3) p by auto
  qed
  have cr: "catalogRoot t' \<notin> reserved t'" "catalogRoot t' \<notin> set (pages T')"
    using F e S(2) p effect_reserved [OF e] by (auto simp: forest_def effect_def reserved_def)
  have lv: "live t' T'" "shaped L T'" using T(1) by (simp_all add: goodTree_def)
  have d: "3 \<le> q \<and> q < nextPageID t' \<and> (\<forall>n. peek t' q = Some n \<longrightarrow> nodeBounds L n \<and> nd_PageID n = q)" if q: "q \<in> set (dirtyNodes t')" for q
  proof (cases "q \<in> set (pages T')")
    case True
    then have "q \<notin> avail t'" using lv(1) by (auto simp: live_def reserved_def)
    then have "q < nextPageID t'" by (simp add: avail_def not_le)
    then show ?thesis using True live_dirty [OF lv] lv(1) by (auto simp: live_def)
  next
    case False
    then have "q \<in> set (dirtyNodes t)" "peek t' q = peek t q" using tc q by (auto simp: touched_def)
    moreover have "nextPageID t \<le> nextPageID t'" using e by (simp add: effect_def)
    ultimately show ?thesis using F unfolding forest_def by (auto intro: order.strict_trans2)
  qed
  have "set (pages U) \<inter> set (pages V) = {}"
    if "(F(name \<mapsto> T')) a = Some U" "(F(name \<mapsto> T')) b = Some V" "a \<noteq> b" for a b U V
    using that old(3) F unfolding forest_def by (auto split: if_splits)
  then show ?thesis
    using old(1,2) cr d T(1) effect_stateOk [OF e] unfolding forest_def by (simp split: if_splits)
qed

lemma setRoot_run:
  assumes "forest h t F"
  shows "\<exists>t'. setRoot name p g t = (Ok (), t') \<and> forest h t' F \<and> nextPageID t' = nextPageID t
     \<and> bt_catalog t' = AList.update name \<lparr>ir_Name = name, RootPageID = p, ir_Generation = g, ir_Unique = False, ir_Ordered = False\<rparr> (bt_catalog t)"
proof -
  let ?t = "t\<lparr>bt_catalog := AList.update name \<lparr>ir_Name = name, RootPageID = p, ir_Generation = g, ir_Unique = False, ir_Ordered = False\<rparr> (bt_catalog t)\<rparr>"
  have od: "onDisk ?t = onDisk t" by (rule onDisk_cong) simp_all
  have pk: "peek ?t = peek t" by (rule ext) (simp add: peek_def od split: option.split)
  have rs: "avail ?t = avail t" "reserved ?t = reserved t" by (simp_all add: avail_def reserved_def)
  have "stateOk ?t = stateOk t" by (simp add: stateOk_def)
  moreover have "clean ?t = clean t" by (intro ext) (simp add: clean_def od)
  then have "goodTree ?t = goodTree t" by (intro ext) (simp add: goodTree_def live_def pk rs)
  ultimately have "forest h ?t F" using assms by (simp add: forest_def pk rs)
  then show ?thesis by (simp add: setRoot_def)
qed

lemma catalogOf_setRoot:
  assumes "bt_catalog t' = AList.update name \<lparr>ir_Name = name, RootPageID = root T, ir_Generation = g, ir_Unique = False, ir_Ordered = False\<rparr> c"
    and "\<And>b. b \<noteq> name \<Longrightarrow> map_option RootPageID (map_of c b) = map_option root (F b)"
    and "distinct (map fst c)" "\<forall>(name, r) \<in> set c. ir_Name r = name"
  shows "catalogOf t' (F(name \<mapsto> T))"
proof -
  have "set (AList.update name v c) \<subseteq> insert (name, v) (set c)" for v :: IndexRoot
    by (induction c) auto
  then show ?thesis using assms by (fastforce simp: catalogOf_def update_conv' distinct_update)
qed

lemma goodTree_newNode:
  assumes "peek t = P(p \<mapsto> Lf')" "Lf' = newLeaf p g" "p \<notin> reserved t" "3 \<le> p" "p \<in> set (dirtyNodes t)"
  shows "goodTree t h (Lf Lf')"
  using assms by (simp add: goodTree_def live_def newLeaf_def nodeBounds_def nodeShape_def nodeSize_def cells_def sorted_keys_def
      PageTypeLeaf_def clean_dirty)

lemma rootOrNew_run:
  assumes F: "forest h t F" "catalogOf t F" and room: "unat (nextPageID t) + 1 < 2 ^ 64"
  shows "\<exists>T t'. rootOrNew name g t = (Ok (root T), t') \<and> forest h t' (F(name \<mapsto> T)) \<and> catalogOf t' (F(name \<mapsto> T))
     \<and> mapsOf (F(name \<mapsto> T)) = mapsOf F \<and> unat (nextPageID t') \<le> unat (nextPageID t) + 1 \<and> inCache name 1 t t'"
proof (cases "F name")
  case (Some T)
  then obtain e where "map_of (bt_catalog t) name = Some e" "RootPageID e = root T"
    using F(2) unfolding catalogOf_def by (metis map_option_eq_Some)
  moreover have "F(name \<mapsto> T) = F" using Some by auto
  moreover have "inCache name 1 t t" by (auto simp: inCache_def)
  ultimately show ?thesis using F by (auto simp: rootOrNew_def intro!: exI [of _ T])
next
  case None
  have ok: "stateOk t" using F(1) by (simp add: forest_def)
  obtain p t1 where t1: "allocatePageID t = (Ok p, t1)" "effect {} 1 t t1" "peek t1 = peek t" "p \<in> avail t"
    "avail t1 = avail t - {p}" "reserved t1 = reserved t - {p}" "dirtyNodes t1 = dirtyNodes t"
    using allocatePageID_run [OF ok room] by (elim exE conjE) (rule that)
  let ?n = "newLeaf p g"
  have pid: "nd_PageID ?n = p" by (simp add: newLeaf_def)
  obtain t2 where t2: "registerNewNode ?n t1 = (Ok (), t2)" "effect {p} 0 t1 t2" "peek t2 = (peek t1)(p \<mapsto> ?n)"
    "avail t2 = avail t1" "reserved t2 = reserved t1" "orphanedList t2 = orphanedList t1" "touched t1 t2 {p}" "p \<in> set (dirtyNodes t2)"
    using registerNewNode_run [OF effect_stateOk [OF t1(2)], of ?n] unfolding pid by (elim exE conjE) (rule that)
  have eff: "effect {} (1 + 0) t t2" using t1(4,5) t2(6) by (intro effect_trans' [OF t1(2) t2(2)]) auto
  have good: "goodTree t2 h (Lf ?n)"
    using t2(3,5,8) t1(6) avail_ge_3 [OF ok t1(4)] by (intro goodTree_newNode) simp_all
  have "touched t t1 {}" using t1(3,7) by (simp add: touched_def)
  then have "touched t t2 {p}" using touched_trans [OF _ t2(7), of t "{}" "{p}"] by simp
  then have "forest h t2 (F(name \<mapsto> Lf ?n))"
    using t1(4,5) t2(4) pid by (intro forest_update [OF F(1) eff good]) auto
  then obtain t3 where t3: "setRoot name p g t2 = (Ok (), t3)" "forest h t3 (F(name \<mapsto> Lf ?n))" "nextPageID t3 = nextPageID t2"
    "bt_catalog t3 = AList.update name \<lparr>ir_Name = name, RootPageID = p, ir_Generation = g, ir_Unique = False, ir_Ordered = False\<rparr> (bt_catalog t2)"
    using setRoot_run [of h t2 _ name p g] by blast
  have "bt_catalog t2 = bt_catalog t" using eff by (simp add: effect_def)
  then have "catalogOf t3 (F(name \<mapsto> Lf ?n))"
    using F(2) t3(4) pid by (intro catalogOf_setRoot [of t3 name "Lf ?n" g "bt_catalog t"]) (simp_all add: root_def catalogOf_def)
  moreover have "map_of (bt_catalog t) name = None" using F(2) None unfolding catalogOf_def by (metis map_option_is_None)
  moreover have "mapsOf (F(name \<mapsto> Lf ?n)) = mapsOf F" using None by (auto simp: mapsOf_def fun_eq_iff newLeaf_def)
  moreover have "unat (nextPageID t3) \<le> unat (nextPageID t) + 1" using eff t3(3) by (simp add: effect_def)
  moreover have "inCache name 1 t t3" using inCache_trans [OF inCache_effect [OF eff] setRoot_inCache [OF t3(1)]] by simp
  ultimately show ?thesis using t1(1) t2(1) t3(1,2) pid
    by (auto simp: rootOrNew_def root_def intro!: exI [of _ "Lf ?n"])
qed

text \<open>The new root above the two halves of a split root.\<close>

lemma newRoot_run:
  assumes ok: "stateOk t" and room: "unat (nextPageID t) + 1 < 2 ^ 64"
    and ch: "chain None [s] None [T, U]" "length s \<le> L" and d: "distinct (forestPages [T, U])"
    and lv: "\<forall>u \<in> set [T, U]. shaped L u \<and> within h u \<and> live t u"
  shows "\<exists>q t1 t'. allocatePageID t = (Ok q, t1) \<and> registerNewNode (newRootNode q g (root T) s (root U)) t1 = (Ok (), t')
     \<and> effect {} 1 t t' \<and> goodTree t' (Suc h) (Nd (newRootNode q g (root T) s (root U)) [T, U])
     \<and> q \<in> avail t - avail t' \<and> touched t t' {q}"
proof -
  obtain q t1 where t1: "allocatePageID t = (Ok q, t1)" "effect {} 1 t t1" "peek t1 = peek t" "q \<in> avail t"
    "avail t1 = avail t - {q}" "reserved t1 = reserved t - {q}" "dirtyNodes t1 = dirtyNodes t"
    using allocatePageID_run [OF ok room] by (elim exE conjE) (rule that)
  let ?n = "newRootNode q g (root T) s (root U)"
  have n: "nd_PageID ?n = q" "nd_Keys ?n = [s]" "nd_Children ?n = [root T, root U]" "nd_PageType ?n = PageTypeInternal"
    by (simp_all add: newRootNode_def)
  obtain t2 where t2: "registerNewNode ?n t1 = (Ok (), t2)" "effect {q} 0 t1 t2" "peek t2 = (peek t1)(q \<mapsto> ?n)"
    "avail t2 = avail t1" "reserved t2 = reserved t1" "orphanedList t2 = orphanedList t1" "touched t1 t2 {q}" "q \<in> set (dirtyNodes t2)"
    using registerNewNode_run [OF effect_stateOk [OF t1(2)], of ?n] unfolding n(1) by (elim exE conjE) (rule that)
  have "effect {} (1 + 0) t t2" using t1(4,5) t2(6) by (intro effect_trans' [OF t1(2) t2(2)]) auto
  then have eff: "effect {} 1 t t2" by simp
  have lv2: "live t2 T" "live t2 U" using live_effect [OF _ eff] lv by simp_all
  have q: "q \<notin> set (pages T)" "q \<notin> set (pages U)" "3 \<le> q" "q \<notin> reserved t2"
    using lv t1(4,6) t2(5) avail_ge_3 [OF ok t1(4)] by (auto simp: live_def reserved_def)
  have "nodeShape ?n" using n by (simp add: nodeShape_def newRootNode_def)
  moreover from this have "nodeSize ?n = 48 + keyCost ?n s" by (simp add: nodeSize_cost n)
  ultimately have "nodeBounds L ?n" using ch(2) limit by (simp add: nodeBounds_def keyCost_def n)
  moreover have "peek t2 q = Some ?n" using t2(3) by simp
  ultimately have "goodTree t2 (Suc h) (Nd ?n [T, U])"
    using lv2 lv q ch(1) d n clean_dirty [OF t2(8)] unfolding goodTree_def live_def by auto
  moreover have "touched t t1 {}" using t1(3,7) by (simp add: touched_def)
  then have "touched t t2 {q}" using touched_trans [OF _ t2(7), of t "{}" "{q}"] by simp
  ultimately show ?thesis using t1(1,4,5) t2(1,4) eff by auto
qed

definition raiseRoot :: "insert_result \<Rightarrow> 64 word \<Rightarrow> PageID tree_op" where
  "raiseRoot r g = (case snd r of
       None \<Rightarrow> returnT (fst r)
     | Some (separatorKey, rightChildID) \<Rightarrow>
         bindT allocatePageID (\<lambda>newRootID.
           bindT (registerNewNode (newRootNode newRootID g (fst r) separatorKey rightChildID)) (\<lambda>_. returnT newRootID)))"

lemma raiseRoot_run:
  assumes e: "effect (set (pages T)) m t1 t2" and gr: "grown t1 t2 (set (pages T)) None None h r f ss us"
    and room: "unat (nextPageID t2) + 1 < 2 ^ 64"
  shows "\<exists>T' t3. raiseRoot r g t2 = (Ok (root T'), t3) \<and> effect (set (pages T)) (m + 1) t1 t3 \<and> goodTree t3 (Suc h) T'
     \<and> map_of (contents T') = f \<and> set (pages T') \<subseteq> set (pages T) \<union> (avail t1 - avail t3) \<and> touched t1 t3 (set (pages T'))"
proof (cases "snd r")
  case None
  then obtain T' where T': "us = [T']" "root T' = fst r" "ss = []" using gr by (cases r) (auto simp: grown_def)
  have "goodTree t2 (Suc h) T'" using gr T' within_mono [of h T' "Suc h"] by (auto simp: grown_def goodTree_def)
  moreover have "effect (set (pages T)) (m + 1) t1 t2" using e by (rule effect_mono) simp_all
  ultimately show ?thesis
    using None T' gr by (intro exI [of _ T'] exI [of _ t2]) (auto simp: grown_def raiseRoot_def)
next
  case (Some a)
  then obtain s T' U where T': "snd r = Some (s, root U)" "us = [T', U]" "root T' = fst r" "ss = [s]"
    using gr by (cases r; cases a) (auto simp: grown_def)
  have gr': "chain None [s] None [T', U]" "length s \<le> L" "distinct (forestPages [T', U])"
    "\<forall>u \<in> set [T', U]. shaped L u \<and> within h u \<and> live t2 u" using gr T' unfolding grown_def by auto
  obtain q t2' t3 where t3: "allocatePageID t2 = (Ok q, t2')"
    "registerNewNode (newRootNode q g (root T') s (root U)) t2' = (Ok (), t3)" "effect {} 1 t2 t3"
    "goodTree t3 (Suc h) (Nd (newRootNode q g (root T') s (root U)) [T', U])" "q \<in> avail t2 - avail t3" "touched t2 t3 {q}"
    using newRoot_run [OF effect_stateOk [OF e] room gr', of g] by (elim exE conjE) (rule that)
  let ?T = "Nd (newRootNode q g (root T') s (root U)) [T', U]"
  have q: "root ?T = q" "set (pages ?T) = insert q (set (forestPages us))" using T'(2) by (simp_all add: root_def newRootNode_def)
  have av: "avail t3 \<subseteq> avail t2" "avail t2 \<subseteq> avail t1" using e t3(3) by (auto simp: effect_def)
  have "effect (set (pages T)) (m + 1) t1 t3" using effect_trans [OF e t3(3)] by simp
  moreover have "touched t1 t3 (set (pages ?T))"
    using touched_trans [OF _ t3(6), of t1 "set (forestPages us)"] gr unfolding q by (auto simp: grown_def)
  moreover have "set (pages ?T) \<subseteq> set (pages T) \<union> (avail t1 - avail t3)"
    using gr t3(5) av unfolding q grown_def by auto
  moreover have "map_of (contents ?T) = f" using gr T'(2) by (simp add: grown_def)
  moreover have "raiseRoot r g t2 = (Ok (root ?T), t3)" using t3(1,2) T' q(1) by (simp add: raiseRoot_def)
  ultimately show ?thesis using t3(4) by blast
qed

lemma insertNamed_raise:
  "insertNamedNoCommitLocked fmt fuel name k p g =
     bindT (rootOrNew name g) (\<lambda>rootPageID. bindT (insertRecursive fmt fuel rootPageID k p g) (\<lambda>r.
       bindT (raiseRoot r g) (\<lambda>newRootID. bindT (setRoot name newRootID g) (\<lambda>_. returnT newRootID))))"
  by (simp add: insertNamedNoCommitLocked_def raiseRoot_def case_prod_unfold)

lemma InsertNamedNoCommit_inCache:
  assumes M: "indexes (Suc n) fuel t M" and k: "k \<in> K" "length k \<le> L"
  shows "\<exists>r t'. InsertNamedNoCommit fmt fuel name k p g t = (Ok r, t') \<and> indexes n fuel t' (M(name := (M name)(k \<mapsto> p)))
     \<and> inCache name (2 * fuel + 2) t t'"
proof -
  obtain h F where F: "forest h t F" "catalogOf t F" "h + Suc n < fuel" "M = mapsOf F"
    and room: "unat (nextPageID t) + Suc n * (2 * fuel + 4) < 2 ^ 64" using M by (auto simp: indexes_def)
  obtain T t1 where t1: "rootOrNew name g t = (Ok (root T), t1)" "forest h t1 (F(name \<mapsto> T))" "catalogOf t1 (F(name \<mapsto> T))"
    "mapsOf (F(name \<mapsto> T)) = mapsOf F" "unat (nextPageID t1) \<le> unat (nextPageID t) + 1" "inCache name 1 t t1"
    using rootOrNew_run [OF F(1,2), of name g] room by auto
  let ?F = "F(name \<mapsto> T)"
  have T0: "?F name = Some T" by simp
  note T = forestD [OF t1(2) T0]
  have room1: "unat (nextPageID t1) + 2 * Suc h < 2 ^ 64" "h < fuel" using t1(5) room F(3) by auto
  obtain r t2 ss us where t2: "insertRecursive fmt fuel (root T) k p g t1 = (Ok r, t2)" "effect (set (pages T)) (2 * Suc h) t1 t2"
    and gr: "grown t1 t2 (set (pages T)) None None h r ((map_of (contents T))(k \<mapsto> p)) ss us"
    using insertRecursive_run [OF T(1-4) _ _ k(2) T(5) room1(2,1), of p g] k(1) by auto
  have room2: "unat (nextPageID t2) + 1 < 2 ^ 64" using t2(2) t1(5) room F(3) by (auto simp: effect_def)
  obtain T' t3 where t3: "raiseRoot r g t2 = (Ok (root T'), t3)" "effect (set (pages T)) (2 * Suc h + 1) t1 t3"
    "goodTree t3 (Suc h) T'" "map_of (contents T') = (map_of (contents T))(k \<mapsto> p)"
    "set (pages T') \<subseteq> set (pages T) \<union> (avail t1 - avail t3)" "touched t1 t3 (set (pages T'))"
    using raiseRoot_run [OF t2(2) gr room2, of g] by (elim exE conjE) (rule that)
  have "set (pages U) \<inter> set (pages T) = {}" if "b \<noteq> name" "?F b = Some U" for b U
    using t1(2) that T0 unfolding forest_def by blast
  then have "forest (Suc h) t3 (?F(name \<mapsto> T'))"
    using T(6) by (intro forest_update [OF t1(2) t3(2,3) _ _ _ t3(5,6)]) auto
  then obtain t4 where t4: "setRoot name (root T') g t3 = (Ok (), t4)" "forest (Suc h) t4 (F(name \<mapsto> T'))" "nextPageID t4 = nextPageID t3"
    "bt_catalog t4 = AList.update name \<lparr>ir_Name = name, RootPageID = root T', ir_Generation = g, ir_Unique = False, ir_Ordered = False\<rparr> (bt_catalog t3)"
    using setRoot_run [of "Suc h" t3 _ name "root T'" g] by auto
  have "bt_catalog t3 = bt_catalog t1" using t3(2) by (simp add: effect_def)
  then have cat: "catalogOf t4 (F(name \<mapsto> T'))"
    using t1(3) by (intro catalogOf_setRoot [OF t4(4)]) (simp_all add: catalogOf_def)
  have "mapsOf (F(name \<mapsto> T')) = M(name := (M name)(k \<mapsto> p))"
    using t3(4) arg_cong [OF t1(4), of "\<lambda>m. m name"] F(4) by (auto simp: mapsOf_def fun_eq_iff)
  moreover have "unat (nextPageID t4) + n * (2 * fuel + 4) < 2 ^ 64"
    using t3(2) t4(3) t1(5) room F(3) by (auto simp: effect_def)
  ultimately have "indexes n fuel t4 (M(name := (M name)(k \<mapsto> p)))"
    using t4(2) cat F(3) unfolding indexes_def by (intro exI [of _ "Suc h"] exI [of _ "F(name \<mapsto> T')"]) simp
  moreover have "InsertNamedNoCommit fmt fuel name k p g t = (Ok (root T'), t4)"
    using t1(1) t2(1) t3(1) t4(1) by (simp add: InsertNamedNoCommit_def insertNamed_raise)
  moreover have "inCache name (2 * Suc h + 1) t1 t4"
    using inCache_trans [OF inCache_effect [OF t3(2)] setRoot_inCache [OF t4(1)]] by simp
  then have "inCache name (2 * fuel + 2) t t4" using inCache_trans [OF t1(6)] F(3) by simp
  ultimately show ?thesis by blast
qed

lemma InsertNamedNoCommit_run:
  assumes "indexes (Suc n) fuel t M" "k \<in> K" "length k \<le> L"
  shows "\<exists>r t'. InsertNamedNoCommit fmt fuel name k p g t = (Ok r, t') \<and> indexes n fuel t' (M(name := (M name)(k \<mapsto> p)))"
  using InsertNamedNoCommit_inCache [OF assms] by blast

end

end
