(* ===== verification/TreeCommit.thy ===== *)
theory TreeCommit
  imports TreeMap "HOL-Library.Multiset"
begin

text \<open>
  Writing a new state and opening the file again. Every dirty node, the catalog and one
  superblock are written; opening the file finds the same maps. The nodes on the file are those
  in memory up to the right sibling of inner nodes.
\<close>

section \<open>Page writes\<close>

lemma updateChecksum_idem: "42 \<le> length page \<Longrightarrow> updateChecksum (updateChecksum page) = updateChecksum page"
  by (simp add: updateChecksum_def Let_def splice_splice_same)

definition keeps :: "PageID set \<Rightarrow> bytes \<Rightarrow> bytes \<Rightarrow> bool" where
  "keeps P d d' = (length d \<le> length d' \<and> (\<forall>q. addressable q \<longrightarrow> q \<notin> P \<longrightarrow> unat q * 16384 + 16384 \<le> length d \<longrightarrow>
     readPage OpenFile d' q = readPage OpenFile d q))"

lemma keeps_refl: "keeps P d d"
  by (simp add: keeps_def)

lemma keeps_trans: "keeps P d d' \<Longrightarrow> keeps Q d' d'' \<Longrightarrow> keeps (P \<union> Q) d d''"
  unfolding keeps_def by (auto intro: order.trans)

lemma keeps_mono: "keeps P d d' \<Longrightarrow> P \<subseteq> Q \<Longrightarrow> keeps Q d d'"
  unfolding keeps_def by blast

lemma keeps_Ok:
  "keeps P d d' \<Longrightarrow> addressable q \<Longrightarrow> q \<notin> P \<Longrightarrow> readPage OpenFile d q = Ok pg \<Longrightarrow> readPage OpenFile d' q = Ok pg"
  using readPage_Ok_length(1) [of q d pg] by (simp add: keeps_def)

definition diskAfter :: "bytes \<Rightarrow> PageID \<Rightarrow> bytes \<Rightarrow> bytes" where
  "diskAfter d p page = snd (writePage OpenFile d p page WOk)"

lemma diskAfter_keeps:
  assumes "addressable p" "length page = IndexPageSize"
  shows "keeps {p} d (diskAfter d p page)"
proof -
  have d': "diskAfter d p page = writeAt d (unat p * 16384) (updateChecksum page)"
    using writePage_WOk [OF assms] by (simp add: diskAfter_def)
  have len: "length d \<le> length (diskAfter d p page)" unfolding d' by (simp add: writeAt_def)
  have "readPage OpenFile (diskAfter d p page) q = readPage OpenFile d q"
    if q: "addressable q" "q \<noteq> p" "unat q * 16384 + 16384 \<le> length d" for q
  proof -
    have "unat q \<noteq> unat p" using q(2) by (simp add: word_unat_eq_iff)
    then have "unat p * 16384 + 16384 \<le> unat q * 16384 \<or> unat q * 16384 + 16384 \<le> unat p * 16384" by linarith
    then have "readAt (diskAfter d p page) (unat q * 16384) 16384 = readAt d (unat q * 16384) 16384"
      unfolding d' using q(3) assms(2) by (intro readAt_writeAt_other) (simp_all add: IndexPageSize_def)
    then show ?thesis using q(1)
      by (simp add: readPage_def file_ReadAt_def pageOffset_addressable nat_mult_distrib IndexPageSize_def)
  qed
  then show ?thesis using len by (simp add: keeps_def)
qed

lemma diskAfter_read:
  "addressable p \<Longrightarrow> length page = IndexPageSize \<Longrightarrow> readPage OpenFile (diskAfter d p page) p = Ok (updateChecksum page)"
  using readPage_writePage by (simp add: diskAfter_def)

lemma writePageT_run:
  assumes "bt_file t = OpenFile" "bt_io t = []" "addressable p" "length page = IndexPageSize"
  shows "writePageT p page t = (Ok (), t\<lparr>bt_disk := diskAfter (bt_disk t) p page\<rparr>)"
  using writePage_WOk [OF assms(3,4), of "bt_disk t"] assms(1,2)
  by (simp add: writePageT_def nextOutcome_def diskAfter_def)

section \<open>Writing the dirty nodes\<close>

definition fitsPage :: "BPlusNode \<Rightarrow> bool" where
  "fitsPage n = (nodeShape n \<and> nodeSize n \<le> 16384)"

lemma fitsPage_disk: "fitsPage n \<Longrightarrow> DeserializeNode (updateChecksum (updateChecksum (nodePage n))) = Ok (diskNode n)"
  using node_roundtrip_lemma [of n] length_nodePage [of n] updateChecksum_idem [of "nodePage n"] by (simp add: fitsPage_def)

lemma fitsPage_Serialize: "fitsPage n \<Longrightarrow> Serialize n = Ok (updateChecksum (nodePage n)) \<and> length (updateChecksum (nodePage n)) = IndexPageSize"
  using Serialize_Ok [of n] length_nodePage [of n] by (simp add: fitsPage_def IndexPageSize_def)

lemma writeDirty_run:
  assumes "bt_file t = OpenFile" "bt_io t = []"
    and "\<forall>p \<in> set ps. addressable p \<and> (\<forall>n. f p = Some n \<longrightarrow> fitsPage n)"
  shows "\<exists>d. writeDirty (map (\<lambda>p. (p, f p)) ps) t = (Ok (), t\<lparr>bt_disk := d\<rparr>) \<and> keeps {p \<in> set ps. f p \<noteq> None} (bt_disk t) d
     \<and> (\<forall>p \<in> set ps. \<forall>n. f p = Some n \<longrightarrow> bindR (readPage OpenFile d p) DeserializeNode = Ok (diskNode n))"
  using assms
proof (induction ps arbitrary: t)
  case Nil
  then show ?case by (auto intro!: exI [of _ "bt_disk t"] keeps_refl)
next
  case (Cons p ps)
  show ?case
  proof (cases "f p")
    case None
    then have "{q \<in> set (p # ps). f q \<noteq> None} = {q \<in> set ps. f q \<noteq> None}" by auto
    moreover obtain d where "writeDirty (map (\<lambda>p. (p, f p)) ps) t = (Ok (), t\<lparr>bt_disk := d\<rparr>)"
      "keeps {p \<in> set ps. f p \<noteq> None} (bt_disk t) d"
      "\<forall>p \<in> set ps. \<forall>n. f p = Some n \<longrightarrow> bindR (readPage OpenFile d p) DeserializeNode = Ok (diskNode n)"
      using Cons.IH [OF Cons.prems(1,2)] Cons.prems(3) by auto
    ultimately show ?thesis using None by auto
  next
    case (Some n)
    have p: "addressable p" "fitsPage n" using Cons.prems(3) Some by auto
    let ?pg = "updateChecksum (nodePage n)"
    let ?t = "t\<lparr>bt_disk := diskAfter (bt_disk t) p ?pg\<rparr>"
    note ser = fitsPage_Serialize [OF p(2)]
    have w: "writePageT p ?pg t = (Ok (), ?t)" using writePageT_run [OF Cons.prems(1,2) p(1)] ser by simp
    obtain d where d: "writeDirty (map (\<lambda>p. (p, f p)) ps) ?t = (Ok (), ?t\<lparr>bt_disk := d\<rparr>)"
      "keeps {p \<in> set ps. f p \<noteq> None} (bt_disk ?t) d"
      "\<forall>p \<in> set ps. \<forall>n. f p = Some n \<longrightarrow> bindR (readPage OpenFile d p) DeserializeNode = Ok (diskNode n)"
      using Cons.IH [of ?t] Cons.prems by auto
    have k: "keeps {p} (bt_disk t) (bt_disk ?t)" using diskAfter_keeps [OF p(1)] ser by simp
    have "keeps {q \<in> set (p # ps). f q \<noteq> None} (bt_disk t) d"
      using keeps_trans [OF k d(2)] Some by (elim keeps_mono) auto
    moreover have "bindR (readPage OpenFile d p) DeserializeNode = Ok (diskNode n)"
    proof (cases "p \<in> set ps")
      case True then show ?thesis using d(3) Some by simp
    next
      case False
      have "readPage OpenFile (bt_disk ?t) p = Ok (updateChecksum ?pg)" using diskAfter_read [OF p(1)] ser by simp
      then have "readPage OpenFile d p = Ok (updateChecksum ?pg)" using keeps_Ok [OF d(2) p(1)] False by simp
      then show ?thesis using fitsPage_disk [OF p(2)] by simp
    qed
    ultimately show ?thesis using Some w d(1,3) ser by (auto intro!: exI [of _ d])
  qed
qed

section \<open>Superblocks\<close>

lemma readPage_cases: "(\<exists>pg. readPage OpenFile d q = Ok pg) \<or> (\<exists>e. readPage OpenFile d q = Err e)"
  by (simp add: readPage_def file_ReadAt_def readAt_def validateChecksum_def Let_def)

lemma readSuperblock_cases: "(\<exists>sb. readSuperblock OpenFile d q = Ok sb) \<or> (\<exists>e. readSuperblock OpenFile d q = Err e)"
proof -
  have "(\<exists>sb. deserializeSuperblock pg = Ok sb) \<or> (\<exists>e. deserializeSuperblock pg = Err e)" for pg
    by (simp add: deserializeSuperblock_def Let_def)
  then show ?thesis using readPage_cases [of d q] unfolding readSuperblock_def by (metis bindR.simps(1,2))
qed

lemma readSuperblock_keeps:
  "keeps P d d' \<Longrightarrow> addressable q \<Longrightarrow> q \<notin> P \<Longrightarrow> unat q * 16384 + 16384 \<le> length d \<Longrightarrow>
   readSuperblock OpenFile d' q = readSuperblock OpenFile d q"
  by (simp add: readSuperblock_def keeps_def)

lemma slots_addressable [simp]: "addressable 0" "addressable 1" "addressable 2"
  by (simp_all add: addressable_def)

lemma not_slot: "3 \<le> p \<Longrightarrow> p \<noteq> 0 \<and> p \<noteq> 1" for p :: PageID
  by (auto simp: word_le_nat_alt)

lemma length_serializeSuperblock: "length (serializeSuperblock sb) = IndexPageSize"
proof -
  have "length (serializeSuperblock sb) = 16384" by (simp add: serializeSuperblock_def splice_def)
  then show ?thesis by (simp only: IndexPageSize_def)
qed

text \<open>The superblocks on the file are older than the generation that is written.\<close>

definition olderSlots :: "64 word \<Rightarrow> bytes \<Rightarrow> bool" where
  "olderSlots g d = (32768 \<le> length d \<and> (\<forall>q \<in> {0, 1}. \<forall>sb. readSuperblock OpenFile d q = Ok sb \<longrightarrow> sb_Generation sb < g))"

lemma olderSlots_keeps: "keeps P d d' \<Longrightarrow> 0 \<notin> P \<Longrightarrow> 1 \<notin> P \<Longrightarrow> olderSlots g d \<Longrightarrow> olderSlots g d'"
  using readSuperblock_keeps [of P d d' 0] readSuperblock_keeps [of P d d' 1]
  by (auto simp: olderSlots_def keeps_def)

lemma newSuperblock_active:
  assumes d: "olderSlots g d" and slot: "targetSlot (readSuperblock OpenFile d 0) (readSuperblock OpenFile d 1) = Ok q"
    and sb: "sb_Magic sb = SuperblockMagic" "sb_Generation sb = g"
  shows "q \<in> {0, 1}"
    and "\<exists>x. activeSuperblock (readSuperblock OpenFile (diskAfter d q (serializeSuperblock sb)) 0)
       (readSuperblock OpenFile (diskAfter d q (serializeSuperblock sb)) 1) = Ok (sb\<lparr>sb_Checksum := x\<rparr>)"
    and "g < g' \<Longrightarrow> olderSlots g' (diskAfter d q (serializeSuperblock sb))"
proof -
  let ?d = "diskAfter d q (serializeSuperblock sb)"
  show q: "q \<in> {0, 1}" using slot by (auto simp: targetSlot_def split: res.splits if_splits)
  then have a: "addressable q" by auto
  obtain x where "deserializeSuperblock (updateChecksum (serializeSuperblock sb)) = Ok (sb\<lparr>sb_Checksum := x\<rparr>)"
    using superblock_roundtrip_lemma [OF sb(1)] by blast
  then have new: "readSuperblock OpenFile ?d q = Ok (sb\<lparr>sb_Checksum := x\<rparr>)"
    using diskAfter_read [OF a length_serializeSuperblock] by (simp add: readSuperblock_def)
  have other: "readSuperblock OpenFile ?d p = readSuperblock OpenFile d p" if "p \<in> {0, 1}" "p \<noteq> q" for p
    using that d by (intro readSuperblock_keeps [OF diskAfter_keeps [OF a length_serializeSuperblock]]) (auto simp: olderSlots_def)
  have old: "(\<exists>s. readSuperblock OpenFile d p = Ok s \<and> sb_Generation s < g) \<or> (\<exists>e. readSuperblock OpenFile d p = Err e)"
    if "p \<in> {0, 1}" for p
    using that d readSuperblock_cases [of d p] by (auto simp: olderSlots_def)
  show "\<exists>x. activeSuperblock (readSuperblock OpenFile ?d 0) (readSuperblock OpenFile ?d 1) = Ok (sb\<lparr>sb_Checksum := x\<rparr>)"
  proof (cases "q = 0")
    case True
    then show ?thesis using new other [of 1] old [of 1] sb(2) by (auto simp: activeSuperblock_def not_le intro!: exI [of _ x])
  next
    case False
    then have "q = 1" using q by simp
    then show ?thesis using new other [of 0] old [of 0] sb(2) by (auto simp: activeSuperblock_def not_le intro!: exI [of _ x])
  qed
  assume g: "g < g'"
  have "sb_Generation s < g'" if "p \<in> {0, 1}" "readSuperblock OpenFile ?d p = Ok s" for p s
    using that new other [of p] old [of p] sb(2) g by (cases "p = q") (auto intro: less_trans)
  moreover have "32768 \<le> length ?d"
    using d diskAfter_keeps [OF a length_serializeSuperblock, of d sb] by (simp add: olderSlots_def keeps_def)
  ultimately show "olderSlots g' ?d" by (auto simp: olderSlots_def)
qed

lemma writeSuperblock_run:
  assumes t: "bt_file t = OpenFile" "bt_io t = []" and d: "olderSlots g (bt_disk t)"
  shows "\<exists>d'. writeSuperblock c g t = (Ok (), t\<lparr>bt_disk := d', catalogRoot := c, bt_generation := g\<rparr>)
     \<and> keeps {0, 1} (bt_disk t) d'
     \<and> (\<exists>x. activeSuperblock (readSuperblock OpenFile d' 0) (readSuperblock OpenFile d' 1)
           = Ok ((newSuperblock c g t)\<lparr>sb_Checksum := x\<rparr>))
     \<and> (\<forall>g'. g < g' \<longrightarrow> olderSlots g' d')"
proof -
  let ?d = "bt_disk t" and ?sb = "newSuperblock c g t"
  have "\<exists>q. targetSlot (readSuperblock OpenFile ?d 0) (readSuperblock OpenFile ?d 1) = Ok q"
    using readSuperblock_cases [of ?d 0] readSuperblock_cases [of ?d 1] by (auto simp: targetSlot_def)
  then obtain q where q: "targetSlot (readSuperblock OpenFile ?d 0) (readSuperblock OpenFile ?d 1) = Ok q" ..
  have sb: "sb_Magic ?sb = SuperblockMagic" "sb_Generation ?sb = g" by (simp_all add: newSuperblock_def)
  note act = newSuperblock_active [OF d q sb]
  have a: "addressable q" using act(1) by auto
  let ?d' = "diskAfter ?d q (serializeSuperblock ?sb)"
  have "writePageT q (serializeSuperblock ?sb) t = (Ok (), t\<lparr>bt_disk := ?d'\<rparr>)"
    using writePageT_run [OF t a length_serializeSuperblock] .
  then have "writeSuperblock c g t = (Ok (), t\<lparr>bt_disk := ?d', catalogRoot := c, bt_generation := g\<rparr>)"
    using q t by (simp add: writeSuperblock_def)
  moreover have "keeps {0, 1} ?d ?d'"
    by (rule keeps_mono [OF diskAfter_keeps [OF a length_serializeSuperblock]]) (use act(1) in auto)
  ultimately show ?thesis using act(2,3) by blast
qed

section \<open>Committing\<close>

definition committable :: "map_order \<Rightarrow> 64 word \<Rightarrow> DiskBPlusTree \<Rightarrow> bool" where
  "committable order g t = (bt_file t = OpenFile \<and> bt_io t = [] \<and> (\<forall>xs. set (mo_dirty order xs) = set xs)
     \<and> (\<forall>xs. mset (mo_roots order xs) = mset xs) \<and> catalogFits (mo_roots order (map snd (bt_catalog t)))
     \<and> unat (nextPageID t) + 1 < 2 ^ 49 \<and> olderSlots g (bt_disk t))"

lemma diskNode_idem [simp]: "diskNode (diskNode n) = diskNode n"
  by (simp add: diskNode_def)

lemma addressable_below: "p < q \<Longrightarrow> unat q + 1 < 2 ^ 49 \<Longrightarrow> addressable p"
  by (simp add: addressable_def word_less_nat_alt)

lemma serializeCatalog_page:
  assumes "catalogFits roots"
  shows "\<exists>page. serializeCatalog roots free c g = Ok page \<and> length page = IndexPageSize \<and>
     deserializeCatalog (updateChecksum page) = Ok (roots, keptFree roots free)"
proof -
  obtain page where page: "serializeCatalog roots free c g = Ok page" "length page = IndexPageSize"
    "deserializeCatalog page = Ok (roots, keptFree roots free)" using catalog_roundtrip_lemma [OF assms] by blast
  have "\<exists>X. page = updateChecksum (pad (headerBytes (catalogHeader roots c g) @ X))"
    using page(1) serializeCatalog_Ok [OF assms, of free c g] by auto
  then have "updateChecksum page = page" using updateChecksum_idem by (auto simp: pad_def)
  then show ?thesis using page by simp
qed

text \<open>Collecting the orphaned pages makes them available; no live page is among them.\<close>

definition collected :: "DiskBPlusTree \<Rightarrow> DiskBPlusTree" where
  "collected t = t\<lparr>freeList := freeList t @ orphanedList t @ (if catalogRoot t < 3 then [] else [catalogRoot t]),
     orphanedList := []\<rparr>"

lemma collect_run:
  "bindT (markOrphaned (catalogRoot t)) (\<lambda>_. modifyT (\<lambda>t. t\<lparr>freeList := freeList t @ orphanedList t, orphanedList := []\<rparr>)) t
   = (Ok (), collected t)"
  by (simp add: markOrphaned_def collected_def)

lemma collected_stateOk:
  assumes "stateOk t" "catalogRoot t \<notin> reserved t" shows "stateOk (collected t)"
    and "reserved (collected t) \<subseteq> insert (catalogRoot t) (reserved t)"
proof -
  have "catalogRoot t < nextPageID t" using assms(2) by (auto simp: reserved_def avail_def)
  then show "stateOk (collected t)"
    using assms by (auto simp: stateOk_def collected_def reserved_def avail_def not_less)
  show "reserved (collected t) \<subseteq> insert (catalogRoot t) (reserved t)"
    by (auto simp: collected_def reserved_def avail_def)
qed

text \<open>What a commit leaves on the file.\<close>

definition reopens :: "IndexRoot list \<Rightarrow> DiskBPlusTree \<Rightarrow> bool" where
  "reopens roots t = (\<exists>x page. activeSuperblock (readSuperblock OpenFile (bt_disk t) 0) (readSuperblock OpenFile (bt_disk t) 1)
       = Ok ((newSuperblock (catalogRoot t) (bt_generation t) t)\<lparr>sb_Checksum := x\<rparr>)
     \<and> readPage OpenFile (bt_disk t) (catalogRoot t) = Ok page
     \<and> deserializeCatalog page = Ok (roots, keptFree roots (freeList t)))"

text \<open>The catalog and the superblock, written after the nodes.\<close>

lemma publish_run:
  assumes ok: "stateOk t" and io: "bt_file t = OpenFile" "bt_io t = []" and fits: "catalogFits roots"
    and nxt: "unat (nextPageID t) + 1 < 2 ^ 49" and old: "olderSlots g (bt_disk t)"
  shows "\<exists>c t'. bindT allocatePageID (\<lambda>catalogPageID t2.
        bindT (liftT (serializeCatalog roots (freeList t2) catalogPageID g)) (\<lambda>catalogBytes.
          bindT (writePageT catalogPageID catalogBytes) (\<lambda>_. writeSuperblock catalogPageID g)) t2) t = (Ok (), t')
     \<and> stateOk t' \<and> c \<in> avail t \<and> reserved t' = reserved t - {c} \<and> catalogRoot t' = c \<and> nodeCache t' = nodeCache t
     \<and> dirtyNodes t' = dirtyNodes t \<and> orphanedList t' = orphanedList t \<and> bt_catalog t' = bt_catalog t \<and> bt_file t' = OpenFile
     \<and> unat (nextPageID t') \<le> unat (nextPageID t) + 1 \<and> keeps {c, 0, 1} (bt_disk t) (bt_disk t') \<and> reopens roots t'
     \<and> bt_io t' = [] \<and> (\<forall>g'. g < g' \<longrightarrow> olderSlots g' (bt_disk t'))"
proof -
  have room: "unat (nextPageID t) + 1 < 2 ^ 64" using nxt by simp
  obtain c t1 where t1: "allocatePageID t = (Ok c, t1)" "effect {} 1 t t1" "c \<in> avail t" "reserved t1 = reserved t - {c}"
    "orphanedList t1 = orphanedList t" "dirtyNodes t1 = dirtyNodes t"
    using allocatePageID_run [OF ok room] by (elim exE conjE) (rule that)
  have nc: "nodeCache t1 = nodeCache t" using t1(1) by (auto simp: allocatePageID_def split: if_splits)
  have same: "bt_file t1 = OpenFile" "bt_io t1 = []" "bt_disk t1 = bt_disk t" "bt_catalog t1 = bt_catalog t"
    "unat (nextPageID t1) \<le> unat (nextPageID t) + 1" "stateOk t1"
    using t1(2) io by (simp_all add: effect_def)
  have c3: "3 \<le> c" using avail_ge_3 [OF ok t1(3)] .
  have "c = nextPageID t \<or> c < nextPageID t"
    using t1(1) ok last_in_set [of "freeList t"] by (auto simp: allocatePageID_def stateOk_def split: if_splits)
  then have ca: "addressable c" using nxt addressable_below [OF _ nxt] by (auto simp: addressable_def)
  note c = ca not_slot [OF c3]
  obtain page where page: "serializeCatalog roots (freeList t1) c g = Ok page" "length page = IndexPageSize"
    "deserializeCatalog (updateChecksum page) = Ok (roots, keptFree roots (freeList t1))"
    using serializeCatalog_page [OF fits] by blast
  let ?d = "diskAfter (bt_disk t) c page"
  let ?t2 = "t1\<lparr>bt_disk := ?d\<rparr>"
  have w: "writePageT c page t1 = (Ok (), ?t2)" using writePageT_run [OF same(1,2) c(1) page(2)] same(3) by simp
  have k: "keeps {c} (bt_disk t) ?d" using diskAfter_keeps [OF c(1) page(2)] .
  have "olderSlots g (bt_disk ?t2)" using olderSlots_keeps [OF k _ _ old] c(2) by simp
  then obtain d where d: "writeSuperblock c g ?t2 = (Ok (), ?t2\<lparr>bt_disk := d, catalogRoot := c, bt_generation := g\<rparr>)"
    "keeps {0, 1} ?d d" "\<exists>x. activeSuperblock (readSuperblock OpenFile d 0) (readSuperblock OpenFile d 1)
           = Ok ((newSuperblock c g ?t2)\<lparr>sb_Checksum := x\<rparr>)" "\<forall>g'. g < g' \<longrightarrow> olderSlots g' d"
    using writeSuperblock_run [of ?t2 g c] same(1,2) by auto
  let ?t3 = "?t2\<lparr>bt_disk := d, catalogRoot := c, bt_generation := g\<rparr>"
  have "readPage OpenFile d c = Ok (updateChecksum page)"
    using keeps_Ok [OF d(2) c(1) _ diskAfter_read [OF c(1) page(2)]] c(2) by auto
  then have "reopens roots ?t3" using d(3) page(3) by (simp add: reopens_def newSuperblock_def)
  moreover have "keeps {c, 0, 1} (bt_disk t) d" using keeps_trans [OF k d(2)] by (simp add: insert_commute)
  moreover have "stateOk ?t3" "reserved ?t3 = reserved t - {c}"
    using same(6) t1(4) by (simp_all add: stateOk_def reserved_def avail_def)
  ultimately show ?thesis
    using t1(1,3,5,6) page(1) w d(1,4) same nc by (intro exI [of _ c] exI [of _ ?t3]) simp
qed

context tree_keys begin

text \<open>The nodes of the live pages are on the file.\<close>

lemma persisted:
  assumes F: "forest h t F" "F name = Some T" and L: "L \<le> fitLimit" and p: "p \<in> set (pages T)" "peek t p = Some n"
    and d1: "\<forall>q \<in> set (dirtyNodes t). \<forall>m. nodeCache t q = Some m \<longrightarrow> bindR (readPage OpenFile d1 q) DeserializeNode = Ok (diskNode m)"
      "keeps {q \<in> set (dirtyNodes t). nodeCache t q \<noteq> None} (bt_disk t) d1"
    and t: "bt_file t = OpenFile" and d2: "keeps P d1 d2" "p \<notin> P" and a: "addressable p"
    and t': "bt_file t' = OpenFile" "bt_disk t' = d2"
  shows "map_option diskNode (onDisk t' p) = Some (diskNode n)" "nodeCache t p = None \<Longrightarrow> onDisk t' p = Some n"
proof -
  have keep: "onDisk t' p = Some m" if m: "bindR (readPage OpenFile d1 p) DeserializeNode = Ok m" for m
  proof -
    obtain pg where "readPage OpenFile d1 p = Ok pg" using m readPage_cases [of d1 p] by auto
    then have "readPage OpenFile d2 p = readPage OpenFile d1 p" using keeps_Ok [OF d2(1) a d2(2)] by simp
    then show ?thesis using m t' by (simp add: onDisk_Some)
  qed
  have unwritten: "onDisk t' p = Some m" if m: "onDisk t p = Some m" "p \<in> set (dirtyNodes t) \<longrightarrow> nodeCache t p = None" for m
  proof -
    obtain pg where pg: "readPage OpenFile (bt_disk t) p = Ok pg" using m(1) t readPage_cases [of "bt_disk t" p] by (auto simp: onDisk_Some)
    then have "readPage OpenFile d1 p = Ok pg" using keeps_Ok [OF d1(2) a _ pg] m(2) by auto
    then show ?thesis using keep m(1) t pg by (simp add: onDisk_Some)
  qed
  show none: "nodeCache t p = None \<Longrightarrow> onDisk t' p = Some n" using unwritten p(2) by (simp add: peek_def)
  show "map_option diskNode (onDisk t' p) = Some (diskNode n)"
  proof (cases "nodeCache t p")
    case None
    then show ?thesis using none by simp
  next
    case (Some m)
    then have m: "m = n" using p(2) by (simp add: peek_def)
    show ?thesis
    proof (cases "p \<in> set (dirtyNodes t)")
      case True
      then show ?thesis using d1(1) Some keep m by fastforce
    next
      case False
      have "clean t p" using forestD(2) [OF F] p(1) by (simp add: live_def)
      then obtain k where "onDisk t p = Some k" "diskNode k = diskNode n" using Some False m by (auto simp: clean_def)
      then show ?thesis using unwritten False by simp
    qed
  qed
qed

lemma goodTree_commit:
  assumes F: "forest h t F" "F name = Some T"
    and per: "\<And>p n. p \<in> set (pages T) \<Longrightarrow> peek t p = Some n \<Longrightarrow>
        map_option diskNode (onDisk t' p) = Some (diskNode n) \<and> (nodeCache t p = None \<longrightarrow> onDisk t' p = Some n)"
    and t': "nodeCache t' = nodeCache t" "reserved t' \<subseteq> insert (catalogRoot t) (reserved t)" "dirtyNodes t' = []"
  shows "goodTree t' h T"
proof -
  note T = forestD [OF F]
  have at: "peek t p = Some n \<Longrightarrow> peek t' p = Some n \<and> clean t' p" if "p \<in> set (pages T)" for p n
    using per [OF that] t'(1) by (cases "nodeCache t p") (auto simp: peek_def clean_def)
  have "\<forall>p \<in> set (pages T). \<exists>n. peek t p = Some n" using T(2) by (auto simp: live_def represents_def pages_def)
  then have "\<forall>p \<in> set (pages T). peek t' p = peek t p \<and> clean t' p" using at by fastforce
  then have "represents (peek t') T" "\<forall>p \<in> set (pages T). clean t' p"
    using T(2) by (auto simp: live_def intro: represents_cong)
  then show ?thesis using T t'(2) by (auto simp: goodTree_def live_def)
qed

lemma flushNodes_run:
  assumes F: "forest h t F" and L: "L \<le> fitLimit" and c: "committable order g t"
  shows "\<exists>d. writeDirty (map (\<lambda>p. (p, nodeCache t p)) (mo_dirty order (dirtyNodes t))) ((collected t)\<lparr>dirtyNodes := []\<rparr>)
       = (Ok (), (collected t)\<lparr>dirtyNodes := [], bt_disk := d\<rparr>)
     \<and> keeps {p \<in> set (dirtyNodes t). nodeCache t p \<noteq> None} (bt_disk t) d
     \<and> (\<forall>p \<in> set (dirtyNodes t). \<forall>n. nodeCache t p = Some n \<longrightarrow> bindR (readPage OpenFile d p) DeserializeNode = Ok (diskNode n))"
proof -
  let ?t = "(collected t)\<lparr>dirtyNodes := []\<rparr>"
  have io: "bt_file ?t = OpenFile" "bt_io ?t = []" "bt_disk ?t = bt_disk t" "set (mo_dirty order (dirtyNodes t)) = set (dirtyNodes t)"
    "unat (nextPageID t) + 1 < 2 ^ 49" using c by (auto simp: committable_def collected_def)
  have "addressable p \<and> (\<forall>n. nodeCache t p = Some n \<longrightarrow> fitsPage n)" if "p \<in> set (mo_dirty order (dirtyNodes t))" for p
  proof -
    have "p < nextPageID t" "\<forall>n. peek t p = Some n \<longrightarrow> nodeBounds L n" using F that io(4) by (auto simp: forest_def)
    then show ?thesis using addressable_below [OF _ io(5)] L by (auto simp: peek_def nodeBounds_def fitsPage_def)
  qed
  then obtain d where "writeDirty (map (\<lambda>p. (p, nodeCache t p)) (mo_dirty order (dirtyNodes t))) ?t = (Ok (), ?t\<lparr>bt_disk := d\<rparr>)"
    "keeps {p \<in> set (mo_dirty order (dirtyNodes t)). nodeCache t p \<noteq> None} (bt_disk ?t) d"
    "\<forall>p \<in> set (mo_dirty order (dirtyNodes t)). \<forall>n. nodeCache t p = Some n \<longrightarrow> bindR (readPage OpenFile d p) DeserializeNode = Ok (diskNode n)"
    using writeDirty_run [OF io(1,2), of "mo_dirty order (dirtyNodes t)" "nodeCache t"] by blast
  then show ?thesis using io(3,4) by auto
qed

lemma writeNewState_run:
  assumes F: "forest h t F" and L: "L \<le> fitLimit" and c: "committable order g t"
  shows "\<exists>t'. writeNewStateLocked order g t = (Ok (), t') \<and> forest h t' F \<and> bt_catalog t' = bt_catalog t
     \<and> unat (nextPageID t') \<le> unat (nextPageID t) + 1 \<and> reopens (mo_roots order (map snd (bt_catalog t))) t'
     \<and> bt_file t' = OpenFile \<and> orphanedList t' = [] \<and> bt_io t' = [] \<and> (\<forall>g'. g < g' \<longrightarrow> olderSlots g' (bt_disk t'))
     \<and> 32768 \<le> length (bt_disk t')
     \<and> (\<forall>name T p n. F name = Some T \<longrightarrow> p \<in> set (pages T) \<longrightarrow> peek t p = Some n \<longrightarrow>
          map_option diskNode (onDisk t' p) = Some (diskNode n))"
proof -
  let ?roots = "mo_roots order (map snd (bt_catalog t))"
  have io: "bt_file t = OpenFile" "bt_io t = []"
    and fits: "catalogFits ?roots" and nxt: "unat (nextPageID t) + 1 < 2 ^ 49" and old: "olderSlots g (bt_disk t)"
    using c by (auto simp: committable_def)
  have ok: "stateOk t" and cr: "catalogRoot t \<notin> reserved t" using F by (auto simp: forest_def)
  note ok1 = collected_stateOk [OF ok cr]
  obtain d1 where d1: "writeDirty (map (\<lambda>p. (p, nodeCache t p)) (mo_dirty order (dirtyNodes t))) ((collected t)\<lparr>dirtyNodes := []\<rparr>)
       = (Ok (), (collected t)\<lparr>dirtyNodes := [], bt_disk := d1\<rparr>)"
    "keeps {p \<in> set (dirtyNodes t). nodeCache t p \<noteq> None} (bt_disk t) d1"
    "\<forall>p \<in> set (dirtyNodes t). \<forall>n. nodeCache t p = Some n \<longrightarrow> bindR (readPage OpenFile d1 p) DeserializeNode = Ok (diskNode n)"
    using flushNodes_run [OF F L c] by blast
  let ?t3 = "(collected t)\<lparr>dirtyNodes := [], bt_disk := d1\<rparr>"
  have t3: "stateOk ?t3" "bt_file ?t3 = OpenFile" "bt_io ?t3 = []" "unat (nextPageID ?t3) + 1 < 2 ^ 49"
    "reserved ?t3 \<subseteq> insert (catalogRoot t) (reserved t)" "avail ?t3 \<subseteq> reserved ?t3" "nodeCache ?t3 = nodeCache t"
    "nextPageID ?t3 = nextPageID t" "bt_catalog ?t3 = bt_catalog t"
    using ok1 io nxt by (auto simp: stateOk_def collected_def reserved_def avail_def)
  have "0 \<notin> set (dirtyNodes t)" "1 \<notin> set (dirtyNodes t)"
    using F not_slot unfolding forest_def by blast+
  then have old3: "olderSlots g (bt_disk ?t3)" using olderSlots_keeps [OF d1(2) _ _ old] by simp
  obtain cp t' where t': "bindT allocatePageID (\<lambda>catalogPageID t2.
        bindT (liftT (serializeCatalog ?roots (freeList t2) catalogPageID g)) (\<lambda>catalogBytes.
          bindT (writePageT catalogPageID catalogBytes) (\<lambda>_. writeSuperblock catalogPageID g)) t2) ?t3 = (Ok (), t')"
    "stateOk t'" "cp \<in> avail ?t3" "reserved t' = reserved ?t3 - {cp}" "catalogRoot t' = cp" "nodeCache t' = nodeCache ?t3"
    "dirtyNodes t' = dirtyNodes ?t3" "orphanedList t' = orphanedList ?t3" "bt_catalog t' = bt_catalog ?t3" "bt_file t' = OpenFile"
    "unat (nextPageID t') \<le> unat (nextPageID ?t3) + 1" "keeps {cp, 0, 1} (bt_disk ?t3) (bt_disk t')" "reopens ?roots t'"
    "bt_io t' = []" "\<forall>g'. g < g' \<longrightarrow> olderSlots g' (bt_disk t')"
    using publish_run [OF t3(1-3) fits t3(4) old3] by (elim exE conjE) (rule that)
  have disk: "map_option diskNode (onDisk t' p) = Some (diskNode n) \<and> (nodeCache t p = None \<longrightarrow> onDisk t' p = Some n)"
    if T: "F name = Some T" "p \<in> set (pages T)" "peek t p = Some n" for name T p n
  proof -
    have p: "p \<notin> insert (catalogRoot t) (reserved t)" "3 \<le> p" using forestD [OF F T(1)] T(2) by (auto simp: live_def)
    then have a: "addressable p" using nxt by (intro addressable_below [of p "nextPageID t"]) (auto simp: reserved_def avail_def)
    have np: "p \<notin> {cp, 0, 1}" using p(1) not_slot [OF p(2)] t'(3) t3(5,6) by auto
    show ?thesis
      using persisted [OF F T(1) L T(2,3) d1(3,2) io(1) t'(12) [simplified] np a t'(10) refl] by simp
  qed
  have good: "goodTree t' h T" if T: "F name = Some T" for name T
    using goodTree_commit [OF F T disk [OF T]] t'(4,6,7) t3(5,7) by auto
  have cp: "cp \<notin> set (pages T)" if "F name = Some T" for name T
    using forestD [OF F that] t'(3) t3(5,6) by (auto simp: live_def)
  have "forest h t' F"
    using F good cp t'(2,4,5,7) unfolding forest_def by simp
  moreover have "writeNewStateLocked order g t = (Ok (), t')"
    using t'(1) d1(1) collect_run [of t]
    by (cases "catalogRoot t < 3") (simp_all add: writeNewStateLocked_def Let_def markOrphaned_def collected_def)
  moreover have "32768 \<le> length (bt_disk t')"
    using t'(12) old3 by (auto simp: keeps_def olderSlots_def)
  ultimately show ?thesis using t' t3 disk by (auto simp: collected_def)
qed

section \<open>Opening the file again\<close>

end

fun mapTree :: "(BPlusNode \<Rightarrow> BPlusNode) \<Rightarrow> btree \<Rightarrow> btree" where
  "mapTree f (Lf n) = Lf (f n)"
| "mapTree f (Nd n ts) = Nd (f n) (map (mapTree f) ts)"

lemma nodes_mapTree: "nodes (mapTree f T) = map f (nodes T)"
  by (induction T) (simp_all add: map_concat comp_def cong: map_cong)

lemma top_mapTree [simp]: "top (mapTree f T) = f (top T)"
  by (cases T) simp_all

lemma diskNode_eqD:
  assumes "diskNode m = diskNode n"
  shows "nd_PageID m = nd_PageID n" "nd_PageType m = nd_PageType n" "nd_Keys m = nd_Keys n" "nd_Pointers m = nd_Pointers n"
    "nd_Children m = nd_Children n"
proof -
  have f: "nd_PageID (diskNode k) = nd_PageID k" "nd_PageType (diskNode k) = nd_PageType k" "nd_Keys (diskNode k) = nd_Keys k"
    "nd_Pointers (diskNode k) = nd_Pointers k" "nd_Children (diskNode k) = nd_Children k" for k
    by (simp_all add: diskNode_def)
  show "nd_PageID m = nd_PageID n" "nd_PageType m = nd_PageType n" "nd_Keys m = nd_Keys n" "nd_Pointers m = nd_Pointers n"
    "nd_Children m = nd_Children n"
    using arg_cong [OF assms, of nd_PageID] arg_cong [OF assms, of nd_PageType] arg_cong [OF assms, of nd_Keys]
      arg_cong [OF assms, of nd_Pointers] arg_cong [OF assms, of nd_Children] by (simp_all add: f)
qed

lemma nodeBounds_disk: "diskNode m = diskNode n \<Longrightarrow> nodeBounds L m = nodeBounds L n"
  using diskNode_eqD [of m n] by (simp add: nodeBounds_def nodeShape_def nodeSize_def cells_def)

context tree_keys begin

lemma mapTree_same:
  assumes "\<forall>n \<in> set (nodes T). diskNode (f n) = diskNode n"
  shows "pages (mapTree f T) = pages T" "root (mapTree f T) = root T" "contents (mapTree f T) = contents T"
    "shaped L (mapTree f T) = shaped L T" "within h (mapTree f T) = within h T" "ordered lo hi (mapTree f T) = ordered lo hi T"
proof -
  have fld: "nd_PageID (f n) = nd_PageID n" "nd_PageType (f n) = nd_PageType n" "nd_Keys (f n) = nd_Keys n"
    "nd_Pointers (f n) = nd_Pointers n" "nd_Children (f n) = nd_Children n" "nodeBounds L (f n) = nodeBounds L n"
    if "n \<in> set (nodes T)" for n
    using diskNode_eqD [of "f n" n] nodeBounds_disk [of "f n" n] assms that by auto
  show "pages (mapTree f T) = pages T" using fld(1) by (simp add: pages_def nodes_mapTree)
  have "top T \<in> set (nodes T)" by (cases T) simp_all
  then show "root (mapTree f T) = root T" using fld(1) by (simp add: root_def)
  show "contents (mapTree f T) = contents T" using fld(3,4)
  proof (induction T)
    case (Nd n ts)
    then have "map contents (map (mapTree f) ts) = map contents ts" by auto
    then show ?case by (simp only: mapTree.simps contents_Nd flat_def)
  qed simp
  show "shaped L (mapTree f T) = shaped L T" using assms
  proof (induction T)
    case (Lf n)
    then show ?case using diskNode_eqD(2) [of "f n" n] nodeBounds_disk [of "f n" n] by simp
  next
    case (Nd n ts)
    have "diskNode (f n) = diskNode n" using Nd.prems by simp
    note same = diskNode_eqD [OF this] nodeBounds_disk [OF this]
    have sub: "\<forall>m \<in> set (nodes t). diskNode (f m) = diskNode m" if "t \<in> set ts" for t using Nd.prems that by auto
    have "shaped L (mapTree f t) = shaped L t" if "t \<in> set ts" for t using Nd.IH [OF that sub [OF that]] .
    moreover have "root (mapTree f t) = root t" if "t \<in> set ts" for t
    proof -
      have "top t \<in> set (nodes t)" by (cases t) simp_all
      then show ?thesis using diskNode_eqD(1) [of "f (top t)" "top t"] sub [OF that] by (simp add: root_def)
    qed
    then have "map root (map (mapTree f) ts) = map root ts" by simp
    ultimately show ?case using same by (simp del: map_map)
  qed
  show "within h (mapTree f T) = within h T"
  proof (induction T arbitrary: h)
    case (Nd n ts) then show ?case by (cases h) auto
  qed simp
  show "ordered lo hi (mapTree f T) = ordered lo hi T" using fld(3)
  proof (induction T arbitrary: lo hi)
    case (Nd n ts)
    have "chain lo ks hi (map (mapTree f) us) = chain lo ks hi us" if "set us \<subseteq> set ts" for lo ks us
      using that
    proof (induction us arbitrary: lo ks)
      case (Cons u us)
      have "ordered l v (mapTree f u) = ordered l v u" for l v using Nd.IH [of u] Nd.prems Cons.prems by auto
      then show ?case using Cons by (cases ks; cases us) auto
    qed simp
    then show ?case using Nd.prems by simp
  qed simp
qed

lemma update_new: "a \<notin> set (map fst c) \<Longrightarrow> AList.update a v c = c @ [(a, v)]"
  by (induction c) auto

text \<open>The catalog is rebuilt from the roots, in whatever order they were written.\<close>

lemma reload_catalog:
  assumes "distinct (map ir_Name rs)" "set (map ir_Name rs) \<inter> set (map fst c) = {}" "distinct (map fst c)" "\<forall>(a, r) \<in> set c. ir_Name r = a"
  shows "let c' = foldl (\<lambda>c r. AList.update (ir_Name r) r c) c rs in
    set c' = set c \<union> (\<lambda>r. (ir_Name r, r)) ` set rs \<and> distinct (map fst c') \<and> (\<forall>(a, r) \<in> set c'. ir_Name r = a)"
  using assms
proof (induction rs arbitrary: c)
  case (Cons r rs)
  have new: "AList.update (ir_Name r) r c = c @ [(ir_Name r, r)]"
    using Cons.prems(2) by (intro update_new) simp
  show ?case
    using Cons.IH [of "c @ [(ir_Name r, r)]"] Cons.prems by (auto simp: new Let_def)
qed simp

lemma catalog_reloaded:
  assumes "catalogOf t F" "mset roots = mset (map snd (bt_catalog t))"
    "bt_catalog t' = foldl (\<lambda>c r. AList.update (ir_Name r) r c) [] roots"
  shows "map_of (bt_catalog t') = map_of (bt_catalog t)" "distinct (map fst (bt_catalog t'))"
    "\<forall>(a, r) \<in> set (bt_catalog t'). ir_Name r = a"
proof -
  have names: "map ir_Name (map snd (bt_catalog t)) = map fst (bt_catalog t)"
    using assms(1) by (auto simp: catalogOf_def)
  have "mset (map ir_Name roots) = mset (map fst (bt_catalog t))"
    unfolding names [symmetric] using assms(2) by (simp only: mset_map)
  then have d: "distinct (map ir_Name roots)"
    using assms(1) mset_eq_imp_distinct_iff unfolding catalogOf_def by blast
  have c': "set (bt_catalog t') = (\<lambda>r. (ir_Name r, r)) ` set roots" and dt: "distinct (map fst (bt_catalog t'))"
    and nt: "\<forall>(a, r) \<in> set (bt_catalog t'). ir_Name r = a"
    using reload_catalog [OF d, of "[]"] assms(3) by (simp_all add: Let_def)
  have "set roots = snd ` set (bt_catalog t)" using assms(2) by (metis list.set_map set_mset_mset)
  moreover have "(\<lambda>r. (ir_Name r, r)) ` snd ` set (bt_catalog t) = set (bt_catalog t)"
    using assms(1) by (force simp: catalogOf_def image_image)
  ultimately have "set (bt_catalog t') = set (bt_catalog t)" using c' by simp
  moreover have "distinct (map fst (bt_catalog t))" using assms(1) by (simp add: catalogOf_def)
  ultimately show "map_of (bt_catalog t') = map_of (bt_catalog t)" using dt map_of_inject_set by blast
  show "distinct (map fst (bt_catalog t'))" "\<forall>(a, r) \<in> set (bt_catalog t'). ir_Name r = a" using dt nt by blast+
qed

lemma reopen_run:
  assumes F: "forest h t F" "catalogOf t F" and t: "bt_file t = OpenFile" "orphanedList t = []" "bt_disk t \<noteq> []"
    and re: "reopens roots t" "mset roots = mset (map snd (bt_catalog t))"
    and disk: "\<forall>name T p n. F name = Some T \<longrightarrow> p \<in> set (pages T) \<longrightarrow> peek t p = Some n \<longrightarrow>
          map_option diskNode (onDisk t p) = Some (diskNode n)"
  shows "\<exists>t' F'. NewDiskBPlusTree OpenFile (bt_disk t) None io = (Ok (), t') \<and> forest h t' F' \<and> catalogOf t' F' \<and> mapsOf F' = mapsOf F
     \<and> nextPageID t' = nextPageID t"
proof -
  let ?t0 = "emptyTree OpenFile (bt_disk t) io"
  obtain x page where re': "activeSuperblock (readSuperblock OpenFile (bt_disk t) 0) (readSuperblock OpenFile (bt_disk t) 1)
       = Ok ((newSuperblock (catalogRoot t) (bt_generation t) t)\<lparr>sb_Checksum := x\<rparr>)"
    "readPage OpenFile (bt_disk t) (catalogRoot t) = Ok page" "deserializeCatalog page = Ok (roots, keptFree roots (freeList t))"
    using re(1) by (auto simp: reopens_def)
  define t' where "t' = ?t0\<lparr>bt_catalog := foldl (\<lambda>c r. AList.update (ir_Name r) r c) [] roots, freeList := keptFree roots (freeList t),
      catalogRoot := catalogRoot t, nextPageID := nextPageID t, bt_generation := bt_generation t\<rparr>"
  have run: "NewDiskBPlusTree OpenFile (bt_disk t) None io = (Ok (), t')"
    using t(3) re' by (simp add: NewDiskBPlusTree_def loadTree_def emptyTree_def newSuperblock_def t'_def)
  have t': "nodeCache t' = Map.empty" "dirtyNodes t' = []" "orphanedList t' = []" "catalogRoot t' = catalogRoot t"
    "nextPageID t' = nextPageID t" "bt_catalog t' = foldl (\<lambda>c r. AList.update (ir_Name r) r c) [] roots"
    "freeList t' = take ((16328 - length (concat (map rootBytes roots))) div 8) (freeList t)"
    by (simp_all add: t'_def emptyTree_def keptFree_def)
  have od: "onDisk t' = onDisk t" using t(1) by (intro onDisk_cong) (simp_all add: t'_def emptyTree_def)
  have pk: "peek t' = onDisk t" by (rule ext) (simp add: peek_def t'(1) od)
  have cl: "clean t' p" for p by (simp add: clean_def t'(1))
  have rs: "reserved t' \<subseteq> reserved t" using set_take_subset [of _ "freeList t"] by (auto simp: reserved_def avail_def t')
  have ok: "stateOk t'" using F(1) in_set_takeD [of _ _ "freeList t"]
    by (auto simp: forest_def stateOk_def t' t(2))
  define f where "f n = the (onDisk t (nd_PageID n))" for n :: BPlusNode
  have f: "onDisk t (nd_PageID n) = Some (f n)" "diskNode (f n) = diskNode n" if "F name = Some T" "n \<in> set (nodes T)" for name T n
  proof -
    have "nd_PageID n \<in> set (pages T)" "peek t (nd_PageID n) = Some n"
      using forestD(2) [OF F(1) that(1)] that(2) by (auto simp: pages_def live_def represents_def)
    then have "map_option diskNode (onDisk t (nd_PageID n)) = Some (diskNode n)" using disk that(1) by blast
    then show "onDisk t (nd_PageID n) = Some (f n)" "diskNode (f n) = diskNode n" by (auto simp: f_def)
  qed
  let ?F = "\<lambda>name. map_option (mapTree f) (F name)"
  have same: "pages (mapTree f T) = pages T" "root (mapTree f T) = root T" "contents (mapTree f T) = contents T"
    "shaped L (mapTree f T) = shaped L T" "within h (mapTree f T) = within h T"
    "ordered None None (mapTree f T) = ordered None None T" if "F name = Some T" for name T
    using mapTree_same [of T f] f(2) [OF that] by simp_all
  have good: "goodTree t' h (mapTree f T)" if T: "F name = Some T" for name T
  proof -
    have "peek t' (nd_PageID (f n)) = Some (f n)" if "n \<in> set (nodes T)" for n
      using f(1) [OF T that] diskNode_eqD(1) [OF f(2) [OF T that]] by (simp add: pk)
    then have "represents (peek t') (mapTree f T)" by (simp add: represents_def nodes_mapTree)
    then show ?thesis using forestD [OF F(1) T] same [OF T] rs cl unfolding goodTree_def live_def by auto
  qed
  have disj: "set (pages U) \<inter> set (pages V) = {}" if UV: "?F a = Some U" "?F b = Some V" "a \<noteq> b" for a b U V
  proof -
    obtain X Y where X: "F a = Some X" "U = mapTree f X" and Y: "F b = Some Y" "V = mapTree f Y" using UV by auto
    have "set (pages X) \<inter> set (pages Y) = {}" using F(1) UV(3) X(1) Y(1) unfolding forest_def by blast
    then show ?thesis using same(1) [OF X(1)] same(1) [OF Y(1)] X(2) Y(2) by simp
  qed
  have cr: "catalogRoot t' \<notin> reserved t'" "\<And>name T. F name = Some T \<Longrightarrow> catalogRoot t' \<notin> set (pages (mapTree f T))"
    using F(1) rs same(1) by (auto simp: forest_def t'(4))
  have "forest h t' ?F"
    unfolding forest_def using ok good cr disj t'(2) by (auto simp: map_option_eq_Some)
  moreover have "catalogOf t' ?F"
  proof -
    have "map_option root (?F name) = map_option root (F name)" for name using same(2) by (cases "F name") auto
    then show ?thesis using catalog_reloaded [OF F(2) re(2) t'(6)] F(2) unfolding catalogOf_def by simp
  qed
  moreover have "mapsOf ?F = mapsOf F" using same(3) by (auto simp: mapsOf_def fun_eq_iff split: option.split)
  ultimately show ?thesis using run t'(5) by blast
qed

lemma commit_reopen_saved:
  assumes M: "indexes (Suc n) fuel t M" and L: "L \<le> fitLimit" and c: "committable order g t"
  shows "\<exists>t' t''. NamedIndex_Commit order g t = (Ok (), t') \<and> indexes n fuel t' M
     \<and> NewDiskBPlusTree OpenFile (bt_disk t') None io = (Ok (), t'') \<and> indexes n fuel t'' M
     \<and> bt_catalog t' = bt_catalog t \<and> unat (nextPageID t') \<le> unat (nextPageID t) + 1 \<and> bt_file t' = OpenFile \<and> bt_io t' = []
     \<and> (\<forall>g'. g < g' \<longrightarrow> olderSlots g' (bt_disk t'))"
proof -
  obtain h F where F: "forest h t F" "catalogOf t F" "h + Suc n < fuel" "unat (nextPageID t) + Suc n * (2 * fuel + 4) < 2 ^ 64" "M = mapsOf F"
    using M by (auto simp: indexes_def)
  let ?roots = "mo_roots order (map snd (bt_catalog t))"
  obtain t' where t': "writeNewStateLocked order g t = (Ok (), t')" "forest h t' F" "bt_catalog t' = bt_catalog t"
     "unat (nextPageID t') \<le> unat (nextPageID t) + 1" "reopens ?roots t'" "bt_file t' = OpenFile" "orphanedList t' = []"
     "bt_io t' = []" "\<forall>g'. g < g' \<longrightarrow> olderSlots g' (bt_disk t')" "32768 \<le> length (bt_disk t')"
     "\<forall>name T p n. F name = Some T \<longrightarrow> p \<in> set (pages T) \<longrightarrow> peek t p = Some n \<longrightarrow> map_option diskNode (onDisk t' p) = Some (diskNode n)"
    using writeNewState_run [OF F(1) L c] by (elim exE conjE) (rule that)
  have cat: "catalogOf t' F" using F(2) t'(3) by (simp add: catalogOf_def)
  have disk: "\<forall>name T p n. F name = Some T \<longrightarrow> p \<in> set (pages T) \<longrightarrow> peek t' p = Some n \<longrightarrow> map_option diskNode (onDisk t' p) = Some (diskNode n)"
  proof (intro allI impI)
    fix name T p n assume a: "F name = Some T" "p \<in> set (pages T)" "peek t' p = Some n"
    then have "peek t p = peek t' p"
      using forestD(2) [OF F(1) a(1)] forestD(2) [OF t'(2) a(1)] by (auto simp: live_def represents_def pages_def)
    then show "map_option diskNode (onDisk t' p) = Some (diskNode n)" using t'(11) a by simp
  qed
  have ms: "mset ?roots = mset (map snd (bt_catalog t'))" using c t'(3) by (simp add: committable_def)
  have "bt_disk t' \<noteq> []" using t'(10) by auto
  then obtain t'' F' where t'': "NewDiskBPlusTree OpenFile (bt_disk t') None io = (Ok (), t'')" "forest h t'' F'" "catalogOf t'' F'"
    "mapsOf F' = mapsOf F" "nextPageID t'' = nextPageID t'"
    using reopen_run [OF t'(2) cat t'(6,7) _ t'(5) ms disk, of io] by blast
  have room: "unat (nextPageID t') + n * (2 * fuel + 4) < 2 ^ 64" "h + n < fuel" using t'(4) F(3,4) by auto
  then have "indexes n fuel t' M" "indexes n fuel t'' M"
    using t'(2) cat t''(2-5) F(5) unfolding indexes_def by metis+
  then show ?thesis using t'(1,3,4,6,8,9) t''(1) by (auto simp: NamedIndex_Commit_def)
qed

lemma commit_reopen_run:
  assumes "indexes (Suc n) fuel t M" "L \<le> fitLimit" "committable order g t"
  shows "\<exists>t' t''. NamedIndex_Commit order g t = (Ok (), t') \<and> indexes n fuel t' M
     \<and> NewDiskBPlusTree OpenFile (bt_disk t') None io = (Ok (), t'') \<and> indexes n fuel t'' M"
  using commit_reopen_saved [OF assms, of io] by blast

end

end
