(* ===== verification/TreeIndex.thy ===== *)
theory TreeIndex
  imports TreeCommit
begin

text \<open>
  The contract of an index (the interface \<^verbatim>\<open>PersistentIndex\<close> of \<^verbatim>\<open>src/index.go\<close>) as a locale, the proof that
  a named index of the disk B+ tree fulfils it, and the properties of the index file: lookup,
  insertion, commit and reopening, and where deletion departs from the contract.
\<close>

section \<open>The interface of an index\<close>

text \<open>\<open>holds n s m\<close>: the state \<open>s\<close> stands for the map \<open>m\<close> and has room for \<open>n\<close> more insertions.\<close>

locale persistent_index =
  fixes holds :: "nat \<Rightarrow> 's \<Rightarrow> (bytes \<rightharpoonup> RecordPointer) \<Rightarrow> bool"
    and find :: "bytes \<Rightarrow> 's \<Rightarrow> RecordPointer option res \<times> 's"
    and insert :: "bytes \<Rightarrow> RecordPointer \<Rightarrow> 's \<Rightarrow> PageID res \<times> 's"
    and keys :: "bytes set"
  assumes find_holds: "holds n s m \<Longrightarrow> k \<in> keys \<Longrightarrow> \<exists>s'. find k s = (Ok (m k), s') \<and> holds n s' m"
    and insert_holds: "holds (Suc n) s m \<Longrightarrow> k \<in> keys \<Longrightarrow> \<exists>r s'. insert k p s = (Ok r, s') \<and> holds n s' (m(k \<mapsto> p))"
begin

text \<open>Filling an index from a list of entries, as the backfill of a new index does; a failure stops it.\<close>

fun fill :: "(bytes \<times> RecordPointer) list \<Rightarrow> 's \<Rightarrow> unit res \<times> 's" where
  "fill [] s = (Ok (), s)"
| "fill ((k, p) # rest) s = (case insert k p s of
      (Ok _, s') \<Rightarrow> fill rest s'
    | (Err e, s') \<Rightarrow> (Err e, s')
    | (Panic x, s') \<Rightarrow> (Panic x, s')
    | (NoFuel, s') \<Rightarrow> (NoFuel, s'))"

lemma fill_holds:
  "holds (length es + n) s m \<Longrightarrow> fst ` set es \<subseteq> keys \<Longrightarrow>
   \<exists>s'. fill es s = (Ok (), s') \<and> holds n s' (m ++ map_of (rev es))"
proof (induction es arbitrary: s m)
  case (Cons e es)
  obtain k p where e: "e = (k, p)" by fastforce
  obtain r s1 where s1: "insert k p s = (Ok r, s1)" "holds (length es + n) s1 (m(k \<mapsto> p))"
    using insert_holds [of "length es + n" s m k p] Cons.prems e by auto
  obtain s' where s': "fill es s1 = (Ok (), s')" "holds n s' (m(k \<mapsto> p) ++ map_of (rev es))"
    using Cons.IH [OF s1(2)] Cons.prems(2) by (meson image_subset_iff list.set_intros(2))
  have "m(k \<mapsto> p) ++ map_of (rev es) = m ++ map_of (rev (e # es))"
    by (auto simp: e fun_eq_iff map_add_def split: option.split)
  then show ?case using s1(1) s' e by auto
qed simp

lemma find_after_fill:
  assumes "holds (length es) s m" "fst ` set es \<subseteq> keys" "k \<in> keys"
  shows "\<exists>s' s''. fill es s = (Ok (), s') \<and> find k s' = (Ok ((m ++ map_of (rev es)) k), s'')"
proof -
  obtain s' where s': "fill es s = (Ok (), s')" "holds 0 s' (m ++ map_of (rev es))" using fill_holds [of es 0 s m] assms(1,2) by auto
  then show ?thesis using find_holds [OF s'(2) assms(3)] by blast
qed

end

context tree_keys begin

definition namedHolds :: "string \<Rightarrow> nat \<Rightarrow> nat \<Rightarrow> DiskBPlusTree \<Rightarrow> (bytes \<rightharpoonup> RecordPointer) \<Rightarrow> bool" where
  "namedHolds name fuel n t m = (\<exists>M. indexes n fuel t M \<and> M name = m)"

definition shortKeys :: "bytes set" where
  "shortKeys = {k \<in> K. length k \<le> L}"

end

text \<open>A named index of the tree is such an index.\<close>

sublocale tree_keys \<subseteq> named: persistent_index "namedHolds name fuel" "NamedIndex_Find fmt fuel name"
  "\<lambda>k p. NamedIndex_InsertNoCommit fmt fuel name k p g" shortKeys for name fuel g
proof
  fix n s m k p
  show "namedHolds name fuel n s m \<Longrightarrow> k \<in> shortKeys \<Longrightarrow>
      \<exists>s'. NamedIndex_Find fmt fuel name k s = (Ok (m k), s') \<and> namedHolds name fuel n s' m"
    using FindNamed_run [of n fuel s] by (fastforce simp: namedHolds_def shortKeys_def NamedIndex_Find_def)
  assume a: "namedHolds name fuel (Suc n) s m" "k \<in> shortKeys"
  then obtain M where M: "indexes (Suc n) fuel s M" "M name = m" by (auto simp: namedHolds_def)
  obtain r s' where s': "InsertNamedNoCommit fmt fuel name k p g s = (Ok r, s')" "indexes n fuel s' (M(name := (M name)(k \<mapsto> p)))"
    using InsertNamedNoCommit_run [OF M(1)] a(2) unfolding shortKeys_def by blast
  then show "\<exists>r s'. NamedIndex_InsertNoCommit fmt fuel name k p g s = (Ok r, s') \<and> namedHolds name fuel n s' (m(k \<mapsto> p))"
    using M(2) by (auto simp: NamedIndex_InsertNoCommit_def namedHolds_def)
qed

text \<open>The trees of the key types that a table has.\<close>

interpretation string_trees: tree_keys fmt stringKeys 8000 for fmt
  by unfold_locales simp

interpretation int64_trees: tree_keys fmt int64Keys 8000 for fmt
  by unfold_locales simp

interpretation string_string_trees: tree_keys fmt "compositeKeys stringKeys stringKeys" 256 for fmt
  by unfold_locales simp

section \<open>A new index file\<close>

definition freshTree :: DiskBPlusTree where
  "freshTree = snd (NewDiskBPlusTree OpenFile [] None [])"

lemma fresh_run:
  "NewDiskBPlusTree OpenFile [] None [] = (Ok (), freshTree)"
  "bt_file freshTree = OpenFile" "bt_io freshTree = []" "nextPageID freshTree = 3" "catalogRoot freshTree = 2"
  "bt_catalog freshTree = []" "nodeCache freshTree = Map.empty" "dirtyNodes freshTree = []" "freeList freshTree = []"
  "orphanedList freshTree = []" "1 < g \<Longrightarrow> olderSlots g (bt_disk freshTree)"
proof -
  obtain page where page: "serializeCatalog [] [] 2 1 = Ok page" "length page = IndexPageSize"
    using serializeCatalog_page [of "[]" "[]" 2 1] by (auto simp: catalogFits_def)
  let ?d2 = "diskAfter [] 2 page"
  let ?d0 = "diskAfter ?d2 0 (serializeSuperblock initialSuperblock)"
  let ?d1 = "diskAfter ?d0 1 emptyPage"
  have le: "length emptyPage = IndexPageSize" by (simp add: IndexPageSize_def)
  have run: "NewDiskBPlusTree OpenFile [] None [] =
      (Ok (), (emptyTree OpenFile ?d1 [])\<lparr>catalogRoot := 2, nextPageID := 3, bt_generation := 1\<rparr>)"
    using page le length_serializeSuperblock [of initialSuperblock]
    by (simp add: NewDiskBPlusTree_def initializeTree_def emptyTree_def writePageT_run)
  then show "NewDiskBPlusTree OpenFile [] None [] = (Ok (), freshTree)" by (simp add: freshTree_def)
  show "bt_file freshTree = OpenFile" "bt_io freshTree = []" "nextPageID freshTree = 3" "catalogRoot freshTree = 2"
    "bt_catalog freshTree = []" "nodeCache freshTree = Map.empty" "dirtyNodes freshTree = []" "freeList freshTree = []"
    "orphanedList freshTree = []"
    by (simp_all add: freshTree_def run emptyTree_def)
  have d: "bt_disk freshTree = ?d1" by (simp add: freshTree_def run emptyTree_def)
  have k: "keeps {1} ?d0 ?d1" using diskAfter_keeps [OF slots_addressable(2) le] .
  have r1: "readPage OpenFile ?d1 1 = Ok (updateChecksum emptyPage)" using diskAfter_read [OF slots_addressable(2) le] .
  obtain c where "deserializeSuperblock (updateChecksum (serializeSuperblock initialSuperblock)) = Ok (initialSuperblock\<lparr>sb_Checksum := c\<rparr>)"
    using superblock_roundtrip_lemma [of initialSuperblock] by (auto simp: initialSuperblock_def)
  moreover have "readPage OpenFile ?d0 0 = Ok (updateChecksum (serializeSuperblock initialSuperblock))"
    using diskAfter_read [OF slots_addressable(1) length_serializeSuperblock] .
  then have "readPage OpenFile ?d1 0 = Ok (updateChecksum (serializeSuperblock initialSuperblock))"
    using keeps_Ok [OF k slots_addressable(1)] by simp
  ultimately have sb: "readSuperblock OpenFile ?d1 0 = Ok (initialSuperblock\<lparr>sb_Checksum := c\<rparr>)"
    by (simp add: readSuperblock_def)
  have "sub (updateChecksum emptyPage) 0 4 = sub emptyPage 0 4" by (simp add: sub_updateChecksum)
  also have "\<dots> = PutUint32 0" by (simp add: sub_def emptyPage_def IndexPageSize_def PutUint32_bytes numeral_eq_Suc)
  finally have "sub (updateChecksum emptyPage) 0 4 = PutUint32 0" .
  then have "readSuperblock OpenFile ?d1 1 = Err InvalidSuperblockMagic"
    using r1 by (simp add: readSuperblock_def deserializeSuperblock_def Let_def IndexPageSize_def SuperblockMagic_def)
  moreover have "32768 \<le> length ?d1" using readPage_Ok_length(1) [OF slots_addressable(2) r1] by simp
  ultimately show "1 < g \<Longrightarrow> olderSlots g (bt_disk freshTree)"
    using sb by (auto simp: olderSlots_def d initialSuperblock_def)
qed

context tree_keys begin

lemma fresh_indexes:
  assumes "n < fuel" "3 + n * (2 * fuel + 4) < 2 ^ 64"
  shows "indexes n fuel freshTree (\<lambda>_. Map.empty)"
proof -
  have "stateOk freshTree" by (simp add: stateOk_def fresh_run)
  then have "forest 0 freshTree Map.empty" by (simp add: forest_def fresh_run reserved_def avail_def)
  moreover have "catalogOf freshTree Map.empty" by (simp add: catalogOf_def fresh_run)
  moreover have "mapsOf Map.empty = (\<lambda>_. Map.empty)" by (simp add: mapsOf_def fun_eq_iff)
  ultimately show ?thesis using assms by (auto simp: indexes_def fresh_run intro!: exI [of _ 0] exI [of _ Map.empty])
qed

end

lemma tree_keys_string: "L \<le> 8000 \<Longrightarrow> tree_keys fmt stringKeys L"
  using string_keys.key_order_axioms by (simp add: tree_keys_def tree_keys_axioms_def)

definition exampleKey :: bytes where
  "exampleKey = encoding (VString ''Ada'')"

lemma exampleKey: "exampleKey \<in> stringKeys" "length exampleKey \<le> 256"
proof -
  have "VString ''Ada'' \<in> {VString s | s. encodableName s}" by (simp add: encodableName_def maxStringLength_def)
  then show "exampleKey \<in> stringKeys" unfolding exampleKey_def stringKeys_def by (rule imageI)
qed (simp add: exampleKey_def writeString_def)

lemmas string256 = tree_keys_string [of 256 "\<lambda>v. []", simplified]

lemma fresh_string256: "tree_keys.indexes (\<lambda>v. []) stringKeys 256 2 5 freshTree (\<lambda>_. Map.empty)"
  by (rule tree_keys.fresh_indexes [OF string256]) simp_all

section \<open>Deletion\<close>

text \<open>Copying a sibling keeps its entries.\<close>

lemma shadowCopy_fields:
  assumes "nd_PageType n = PageTypeLeaf"
  shows "\<exists>at m t'. shadowCopy p n g t = (Ok (at, m), t') \<and> nd_Keys m = nd_Keys n \<and> nd_Pointers m = nd_Pointers n"
proof (cases "nd_Generation n = g")
  case True
  then show ?thesis by (simp add: shadowCopy_def markDirty_def)
next
  case False
  obtain q t1 where "allocatePageID t = (Ok q, t1)" by (cases "freeList t = []") (simp_all add: allocatePageID_def)
  then show ?thesis using False assms
    by (simp add: shadowCopy_def registerNewNode_def markOrphaned_def newNodeLike_def Let_def)
qed

text \<open>Moving an entry to a left sibling that has enough of them: the right leaf runs empty and its
  first key is read.\<close>

lemma mergeOrRedistribute_panic:
  assumes "nd_PageType l = PageTypeLeaf" "nd_PageType r = PageTypeLeaf" "20 \<le> length (nd_Keys l)"
    and "length (nd_Keys r) = 1" "length (nd_Pointers r) = 1" "Suc i < length (nd_Children parent)"
  shows "\<exists>t'. mergeOrRedistribute at parent i (lp, l) (rp, r) g t = (Panic IndexOutOfRange, t')"
proof -
  obtain la l' t1 where t1: "shadowCopy lp l g t = (Ok (la, l'), t1)" "nd_Keys l' = nd_Keys l"
    using shadowCopy_fields [OF assms(1)] by blast
  obtain ra r' t2 where t2: "shadowCopy rp r g t1 = (Ok (ra, r'), t2)" "nd_Keys r' = nd_Keys r" "nd_Pointers r' = nd_Pointers r"
    using shadowCopy_fields [OF assms(2)] by blast
  have "tl (nd_Keys r') = []" using assms(4) t2(2) by (cases "nd_Keys r") auto
  then have "shiftLeaves i q l' r' = Panic IndexOutOfRange" for q
    using assms(4,5) t2 by (simp add: shiftLeaves_def index_at_def)
  then show ?thesis
    using t1 t2 assms by (simp add: mergeOrRedistribute_def putNode_def Let_def)
qed

context tree_keys begin

lemma delete_absent_run:
  assumes ok: "stateOk t" and lv: "live t (Lf n)" "shaped L (Lf n)" "ordered None None (Lf n)"
    and e: "map_of (bt_catalog t) name = Some e" "RootPageID e = nd_PageID n" and g: "nd_Generation n \<noteq> g"
    and k: "k \<in> K" "k \<notin> set (nd_Keys n)"
  shows "\<exists>t'. DeleteNamedNoCommit fmt (Suc fuel) name k g t = (Ok (nd_PageID n), t') \<and> bt_catalog t' = bt_catalog t \<and>
    nd_PageID n \<in> set (orphanedList t')"
proof -
  obtain t1 where t1: "getNode (nd_PageID n) t = (Ok n, t1)" "sameView t t1"
    using getNode_run [OF ok] live_top [OF lv(1)] by (auto simp: root_def)
  obtain q t2 where t2: "allocatePageID t1 = (Ok q, t2)" "bt_catalog t2 = bt_catalog t1"
    by (cases "freeList t1 = []") (simp_all add: allocatePageID_def)
  have p: "\<not> nd_PageID n < 3" using lv(1) by (auto simp: live_def)
  have "\<exists>t3. shadowNode (nd_PageID n) n g t1 = (Ok (q, newNodeLike n q g), t3) \<and> bt_catalog t3 = bt_catalog t1
      \<and> nd_PageID n \<in> set (orphanedList t3)"
    using g t2 p by (simp add: shadowNode_def registerNewNode_def markOrphaned_def)
  then obtain t3 where t3: "shadowNode (nd_PageID n) n g t1 = (Ok (q, newNodeLike n q g), t3)" "bt_catalog t3 = bt_catalog t1"
    "nd_PageID n \<in> set (orphanedList t3)" by blast
  have s: "sorted_keys (nd_Keys n)" using lv(3) by simp
  have "\<not> (rank (nd_Keys n) k < length (nd_Keys n) \<and> nd_Keys n ! rank (nd_Keys n) k = k)"
    using rank_found [OF s k(1)] k(2) by blast
  then have "deleteRecursive fmt (Suc fuel) (nd_PageID n) k g t
      = (Ok (nd_PageID n, False), t3\<lparr>nodeCache := (nodeCache t3)(q \<mapsto>
          (newNodeLike n q g)\<lparr>nd_Keys := nd_Keys n, nd_Pointers := nd_Pointers n\<rparr>)\<rparr>)"
    using t1(1) t3(1) lv(2) searchGE_run [OF s k(1)] by (auto simp: putNode_def Let_def)
  then show ?thesis
    using e t3 t1(2) by (simp add: DeleteNamedNoCommit_def deleteNamedNoCommitLocked_def sameView_def effect_def)
qed

end

lemma handleUnderflow_panic_lemma:
  assumes ok: "stateOk t" and i: "0 < i" "i < length (nd_Children parent)"
    and peek: "peek t at = Some parent" "peek t (nd_Children parent ! i) = Some r" "peek t (nd_Children parent ! (i - 1)) = Some l"
    and leaf: "nd_PageType l = PageTypeLeaf" "nd_PageType r = PageTypeLeaf"
    and size: "20 \<le> length (nd_Keys l)" "length (nd_Keys r) = 1" "length (nd_Pointers r) = 1"
  shows "\<exists>t'. handleUnderflow at parent i g t = (Panic IndexOutOfRange, t')"
proof -
  obtain t1 where t1: "getNode (nd_Children parent ! i) t = (Ok r, t1)" "sameView t t1" using getNode_run [OF ok peek(2)] by blast
  have pk1: "peek t1 at = Some parent" using t1(2) peek(1) by (simp add: sameView_def)
  obtain t2 where t2: "getNode at t1 = (Ok parent, t2)" "sameView t1 t2" using getNode_run [OF sameView_stateOk [OF t1(2)] pk1] by blast
  have pk2: "peek t2 (nd_Children parent ! (i - 1)) = Some l" using t1(2) t2(2) peek(3) by (simp add: sameView_def)
  obtain t3 where t3: "getNode (nd_Children parent ! (i - 1)) t2 = (Ok l, t3)"
    using getNode_run [OF sameView_stateOk [OF t2(2)] pk2] by blast
  obtain t4 where t4: "mergeOrRedistribute at parent (i - 1) (nd_Children parent ! (i - 1), l) (nd_Children parent ! i, r) g t3
      = (Panic IndexOutOfRange, t4)"
    using mergeOrRedistribute_panic [OF leaf size, of "i - 1" parent] i by fastforce
  have "mergeWith at i True (nd_Children parent ! i, r) g t1 = (Panic IndexOutOfRange, t4)"
    using t2(1) t3 t4 i by (simp add: mergeWith_def tryT_def)
  then show ?thesis using t1(1) i size(2) by (simp add: handleUnderflow_def)
qed

text \<open>Small states for the examples below.\<close>

definition exampleLeafAt :: "PageID \<Rightarrow> bytes list \<Rightarrow> BPlusNode" where
  "exampleLeafAt p ks = \<lparr>nd_PageID = p, nd_PageType = PageTypeLeaf, nd_Generation = 1, nd_Keys = ks,
     nd_Pointers = map (\<lambda>k. \<lparr>Offset = 0, Size = 9\<rparr>) ks, nd_Children = [], nd_RightSibling = 0\<rparr>"

definition oldTree :: DiskBPlusTree where
  "oldTree = freshTree\<lparr>nodeCache := [3 \<mapsto> exampleLeafAt 3 [exampleKey]], dirtyNodes := [3], nextPageID := 4,
     bt_catalog := [(''users_email'', \<lparr>ir_Name = ''users_email'', RootPageID = 3, ir_Generation = 1, ir_Unique = False, ir_Ordered = False\<rparr>)]\<rparr>"

definition narrowTree :: DiskBPlusTree where
  "narrowTree = freshTree\<lparr>nodeCache := [3 \<mapsto> exampleLeafAt 3 (replicate 20 exampleKey), 4 \<mapsto> exampleLeafAt 4 [exampleKey],
       5 \<mapsto> newRootNode 5 1 3 exampleKey 4], dirtyNodes := [3, 4, 5], nextPageID := 6\<rparr>"

section \<open>Properties\<close>

text \<open>C16: an index is a finite map. Looking a key up, whatever the cache holds, returns the entry of
  the map the pages stand for, and the search ends within the height of the tree.\<close>

theorem find_is_lookup:
  assumes "tree_keys fmt K L" "tree_keys.indexes fmt K L n fuel t M" "k \<in> K"
  shows "\<exists>t'. FindNamed fmt fuel name k t = (Ok (M name k), t') \<and> tree_keys.indexes fmt K L n fuel t' M"
  using tree_keys.FindNamed_run [OF assms] .

theorem find_is_lookup_witness:
  "\<exists>t'. FindNamed (\<lambda>v. []) 5 ''users_email'' exampleKey freshTree = (Ok None, t')"
  using find_is_lookup [OF string256 fresh_string256 exampleKey(1), of "''users_email''"] by auto

text \<open>C8: inserting a key into one index updates that index at that key and nothing else, in this
  or any other index of the file, through copying of older nodes, splits and a new root.\<close>

theorem insert_is_update:
  assumes "tree_keys fmt K L" "tree_keys.indexes fmt K L (Suc n) fuel t M" "k \<in> K" "length k \<le> L"
  shows "\<exists>r t'. InsertNamedNoCommit fmt fuel name k p g t = (Ok r, t') \<and>
    tree_keys.indexes fmt K L n fuel t' (M(name := (M name)(k \<mapsto> p)))"
  using tree_keys.InsertNamedNoCommit_run [OF assms] .

theorem insert_is_update_witness:
  "\<exists>r t'. InsertNamedNoCommit (\<lambda>v. []) 5 ''users_email'' exampleKey \<lparr>Offset = 64, Size = 30\<rparr> 2 freshTree = (Ok r, t') \<and>
    tree_keys.indexes (\<lambda>v. []) stringKeys 256 1 5 t'
      (\<lambda>name. if name = ''users_email'' then [exampleKey \<mapsto> \<lparr>Offset = 64, Size = 30\<rparr>] else Map.empty)"
proof -
  have "(\<lambda>_. Map.empty)(''users_email'' := [exampleKey \<mapsto> \<lparr>Offset = 64, Size = 30\<rparr>])
      = (\<lambda>name. if name = ''users_email'' then [exampleKey \<mapsto> \<lparr>Offset = 64, Size = 30\<rparr>] else Map.empty)"
    by (simp add: fun_eq_iff)
  then show ?thesis
    using insert_is_update [OF string256 fresh_string256 [unfolded numeral_2_eq_2] exampleKey, of "''users_email''"
        "\<lparr>Offset = 64, Size = 30\<rparr>" 2] by simp
qed

text \<open>C9: after a commit whose writes succeed the file can be opened again and holds the same maps,
  when the keys have at most 256 bytes, so that every node fits a page, the catalog fits its
  page, and the superblocks on the file are older than the generation committed.\<close>

theorem committed_index_reopens:
  assumes "tree_keys fmt K L" "tree_keys.indexes fmt K L (Suc n) fuel t M" "L \<le> fitLimit" "committable order g t"
  shows "\<exists>t' t''. NamedIndex_Commit order g t = (Ok (), t') \<and> tree_keys.indexes fmt K L n fuel t' M \<and>
    NewDiskBPlusTree OpenFile (bt_disk t') None io = (Ok (), t'') \<and> tree_keys.indexes fmt K L n fuel t'' M"
  using tree_keys.commit_reopen_run [OF assms] .

theorem committed_index_reopens_witness:
  "\<exists>t' t''. NamedIndex_Commit \<lparr>mo_roots = \<lambda>xs. xs, mo_dirty = rev\<rparr> 2 freshTree = (Ok (), t') \<and>
    NewDiskBPlusTree OpenFile (bt_disk t') None [] = (Ok (), t'') \<and>
    tree_keys.indexes (\<lambda>v. []) stringKeys 256 1 5 t'' (\<lambda>_. Map.empty)"
proof -
  have "committable \<lparr>mo_roots = \<lambda>xs. xs, mo_dirty = rev\<rparr> 2 freshTree"
    by (simp add: committable_def fresh_run catalogFits_def)
  then show ?thesis
    using committed_index_reopens [OF string256 fresh_string256 [unfolded numeral_2_eq_2], of
        "\<lparr>mo_roots = \<lambda>xs. xs, mo_dirty = rev\<rparr>" 2 "[]"] by (auto simp: fitLimit_def)
qed

text \<open>C17: an index filled from a list of entries on a new file answers every lookup with the last
  entry of its key, as an association list would.\<close>

theorem filled_index_is_map:
  assumes "set (map fst es) \<subseteq> {k \<in> stringKeys. length k \<le> 8000}" "k \<in> stringKeys" "length k \<le> 8000"
    and "length es < fuel" "3 + length es * (2 * fuel + 4) < 2 ^ 64"
  shows "\<exists>t' t''. persistent_index.fill (\<lambda>k p. NamedIndex_InsertNoCommit fmt fuel name k p g) es freshTree = (Ok (), t') \<and>
    NamedIndex_Find fmt fuel name k t' = (Ok (map_of (rev es) k), t'')"
proof -
  have "string_trees.namedHolds fmt name fuel (length es) freshTree Map.empty"
    using string_trees.fresh_indexes [OF assms(4,5)] by (auto simp: string_trees.namedHolds_def)
  then show ?thesis
    using string_trees.named.find_after_fill [of fmt name fuel es freshTree Map.empty k g] assms(1-3)
    by (auto simp: string_trees.shortKeys_def)
qed

theorem filled_index_is_map_witness:
  "\<exists>t' t''. persistent_index.fill (\<lambda>k p. NamedIndex_InsertNoCommit (\<lambda>v. []) 9 ''users_id'' k p 2)
      [(exampleKey, \<lparr>Offset = 0, Size = 9\<rparr>), (exampleKey, \<lparr>Offset = 13, Size = 9\<rparr>)] freshTree = (Ok (), t') \<and>
    NamedIndex_Find (\<lambda>v. []) 9 ''users_id'' exampleKey t' = (Ok (Some \<lparr>Offset = 13, Size = 9\<rparr>), t'')"
  using filled_index_is_map [of "[(exampleKey, \<lparr>Offset = 0, Size = 9\<rparr>), (exampleKey, \<lparr>Offset = 13, Size = 9\<rparr>)]" exampleKey 9
      "\<lambda>v. []" "''users_id''" 2] exampleKey by simp





end
