(* ===== verification/Database.thy ===== *)
theory Database
  imports BPlusTree Wal GoText
begin

text \<open>
  The database of \<^verbatim>\<open>src/db.go\<close>: its state, the type registry, table storages and index files, the
  operations on the indexes of a table, and the operations on the schema.

  The state is the Go struct together with the files of the directory that are not open
  (\<open>tableFiles\<close>, \<open>indexFiles\<close>; an open file is a part of the object that holds it) and the process-wide
  type registry. The operations that take the writer lock are modelled as what they do while they
  hold it; the lock itself is the theory \<open>Locking\<close>. While it is held no other task is submitted to
  the log, so submitting a task and waiting for its result is \<open>processTasks\<close> on a batch of one.
  The answers of the operating system, the order of Go's map ranges and the bounds of the loops
  are the record \<open>db_env\<close>. A \<^verbatim>\<open>sync.Map\<close> is a map; a Go map that is ranged over is the list of its
  entries in iteration order.
\<close>

section \<open>State and combinators\<close>

type_synonym ('s, 'a) op = "'s \<Rightarrow> 'a res \<times> 's"

definition returnD :: "'a \<Rightarrow> ('s, 'a) op" where
  "returnD x s = (Ok x, s)"

definition liftD :: "'a res \<Rightarrow> ('s, 'a) op" where
  "liftD r s = (r, s)"

definition bindD :: "('s, 'a) op \<Rightarrow> ('a \<Rightarrow> ('s, 'b) op) \<Rightarrow> ('s, 'b) op" where
  "bindD m f s = (case m s of
      (Ok x, s') \<Rightarrow> f x s'
    | (Err e, s') \<Rightarrow> (Err e, s')
    | (Panic p, s') \<Rightarrow> (Panic p, s')
    | (NoFuel, s') \<Rightarrow> (NoFuel, s'))"

definition modifyD :: "('s \<Rightarrow> 's) \<Rightarrow> ('s, unit) op" where
  "modifyD f s = (Ok (), f s)"

text \<open>\<^verbatim>\<open>x, err := m()\<close> where the code looks at the error instead of returning it.\<close>

definition attemptD :: "('s, 'a) op \<Rightarrow> ('s, error + 'a) op" where
  "attemptD m s = (case m s of
      (Ok x, s') \<Rightarrow> (Ok (Inr x), s')
    | (Err e, s') \<Rightarrow> (Ok (Inl e), s')
    | (Panic p, s') \<Rightarrow> (Panic p, s')
    | (NoFuel, s') \<Rightarrow> (NoFuel, s'))"

text \<open>A \<^verbatim>\<open>for range\<close> loop whose body may return early with an error.\<close>

fun forD :: "'b list \<Rightarrow> ('b \<Rightarrow> 'a \<Rightarrow> ('s, 'a) op) \<Rightarrow> 'a \<Rightarrow> ('s, 'a) op" where
  "forD [] f x = returnD x"
| "forD (b # bs) f x = bindD (f b x) (\<lambda>x'. forD bs f x')"

lemma returnD_run [simp]: "returnD x s = (Ok x, s)" "liftD r s = (r, s)" "modifyD g s = (Ok (), g s)"
  by (simp_all add: returnD_def liftD_def modifyD_def)

lemma bindD_run [simp]:
  "m s = (Ok x, s') \<Longrightarrow> bindD m f s = f x s'"
  "m s = (Err e, s') \<Longrightarrow> bindD m f s = (Err e, s')"
  "m s = (Panic p, s') \<Longrightarrow> bindD m f s = (Panic p, s')"
  "m s = (NoFuel, s') \<Longrightarrow> bindD m f s = (NoFuel, s')"
  by (simp_all add: bindD_def)

lemma bindD_Ok: "bindD m f s = (Ok y, s2) \<Longrightarrow> \<exists>x s1. m s = (Ok x, s1) \<and> f x s1 = (Ok y, s2)"
  by (auto simp: bindD_def split: prod.splits res.splits)

lemma attemptD_run [simp]:
  "m s = (Ok x, s') \<Longrightarrow> attemptD m s = (Ok (Inr x), s')"
  "m s = (Err e, s') \<Longrightarrow> attemptD m s = (Ok (Inl e), s')"
  by (simp_all add: attemptD_def)

record TableMetadata =
  tm_IdType :: gtype
  tm_Type :: gtype

record Database =
  directory :: string
  walManager :: WalManager
  walClosed :: bool
  committedState :: DatabaseState
  tableMetadataMap :: "string \<rightharpoonup> TableMetadata"
  tableStorageMap :: stores
  db_closed :: bool
  databaseID :: "64 word"
  shadowIndexes :: "string \<rightharpoonup> DiskBPlusTree"
  typeRegistry :: "(string \<times> gtype) list"
  tableFiles :: "string \<rightharpoonup> bytes"
  indexFiles :: "string \<rightharpoonup> bytes"
  snapshotFiles :: "(string \<times> bytes) list"

type_synonym 'a db_op = "(Database, 'a) op"

record db_env =
  de_go :: go_env
  de_fuel :: nat
  de_leafFuel :: nat
  de_order :: map_order
  de_tableOpen :: "string \<Rightarrow> open_io"
  de_indexOpen :: "string \<Rightarrow> error option"
  de_indexStat :: "string \<Rightarrow> error option"
  de_indexIo :: "string \<Rightarrow> write_outcome list"
  de_truncate :: "string \<Rightarrow> error option"
  de_read :: "string \<Rightarrow> RecordPointer \<Rightarrow> error option"
  de_task :: task_io
  de_rollback :: "write_outcome \<times> error option"
  de_append :: "string \<Rightarrow> write_outcome"
  de_reset :: "string \<Rightarrow> reset_io"
  de_compact :: "string \<Rightarrow> compact_io"
  de_snapshot :: "error option"

abbreviation fmtOf :: "db_env \<Rightarrow> gval \<Rightarrow> string" where
  "fmtOf env \<equiv> Sprintf (de_go env)"

definition currentGeneration :: "Database \<Rightarrow> 64 word" where
  "currentGeneration database = Generation (committedState database)"

definition publish :: "DatabaseState \<Rightarrow> Database \<Rightarrow> Database" where
  "publish nextState database = database\<lparr>committedState := nextState\<rparr>"

section \<open>The type registry\<close>

text \<open>\<^verbatim>\<open>reflect.Type.String()\<close>; the name a struct type carries is this string.\<close>

fun typeString :: "gtype \<Rightarrow> string" where
  "typeString TString = ''string''"
| "typeString TBool = ''bool''"
| "typeString TInt = ''int''"
| "typeString TInt8 = ''int8''"
| "typeString TInt16 = ''int16''"
| "typeString TInt32 = ''int32''"
| "typeString TInt64 = ''int64''"
| "typeString TFloat32 = ''float32''"
| "typeString TFloat64 = ''float64''"
| "typeString TUint8 = ''uint8''"
| "typeString TTime = ''time.Time''"
| "typeString (TSlice t) = ''[]'' @ typeString t"
| "typeString (TPtr t) = ''*'' @ typeString t"
| "typeString TInterface = ''interface {}''"
| "typeString (TStruct n fs) = n"
| "typeString (TOther n c) = n"

fun pointee :: "gtype \<Rightarrow> gtype" where
  "pointee (TPtr t) = pointee t"
| "pointee t = t"

definition RegisterType :: "gval \<Rightarrow> (string \<times> gtype) list \<Rightarrow> (string \<times> gtype) list" where
  "RegisterType value registry =
     (if value = VNil \<or> value = VIface None then registry
      else
        let reflectType = pointee (typeOf value);
            name = typeString reflectType
        in AList.update (last (strings_Split CHR ''.'' name)) reflectType (AList.update name reflectType registry))"

text \<open>A name that is not registered is looked for again without regard to case.\<close>

definition getRegisteredType :: "(string \<times> gtype) list \<Rightarrow> string \<Rightarrow> gtype option" where
  "getRegisteredType registry name =
     (case map_of registry name of
        Some t \<Rightarrow> Some t
      | None \<Rightarrow> map_option snd (List.find (\<lambda>(keyName, _). strings_EqualFold keyName name) registry))"

section \<open>Table storages and tasks\<close>

definition tableStorage :: "db_env \<Rightarrow> string \<Rightarrow> TableStorage db_op" where
  "tableStorage env tableName database =
     (case getTableStorage (db_closed database) (directory database) (tableFiles database) (de_tableOpen env)
             tableName (tableStorageMap database) of
        Inl e \<Rightarrow> (Err e, database)
      | Inr (ts, st) \<Rightarrow> (Ok ts, database\<lparr>tableStorageMap := st\<rparr>))"

definition putStorage :: "string \<Rightarrow> TableStorage \<Rightarrow> unit db_op" where
  "putStorage tableName ts = modifyD (\<lambda>database.
     database\<lparr>tableStorageMap := (tableStorageMap database)(tableName \<mapsto> ts)\<rparr>)"

text \<open>Reading a record through a pointer and decoding it into the table's type.\<close>

definition readRecordAs :: "db_env \<Rightarrow> string \<Rightarrow> gtype \<Rightarrow> RecordPointer \<Rightarrow> gval db_op" where
  "readRecordAs env tableName entityType recordPointer =
     bindD (tableStorage env tableName) (\<lambda>ts.
       bindD (liftD (ReadRecord recordPointer (de_read env tableName recordPointer) ts)) (\<lambda>bytesValue.
         liftD (Unmarshal (de_go env) bytesValue entityType)))"

definition appendRecord :: "db_env \<Rightarrow> string \<Rightarrow> bytes \<Rightarrow> RecordPointer db_op" where
  "appendRecord env tableName recordBytes =
     bindD (tableStorage env tableName) (\<lambda>ts.
       case AppendRecord recordBytes (de_append env tableName) ts of
         (r, ts') \<Rightarrow> bindD (putStorage tableName ts') (\<lambda>_. liftD r))"

text \<open>\<^verbatim>\<open>Submit\<close> and the receive from \<^verbatim>\<open>Done\<close>.\<close>

definition submitTask :: "db_env \<Rightarrow> WriteTask \<Rightarrow> (string \<times> RecordPointer list) list db_op" where
  "submitTask env task database =
     (if walClosed database then (Err DatabaseClosedError, database)
      else
        case processTasks (getTableStorage (db_closed database) (directory database) (tableFiles database) (de_tableOpen env))
               (de_task env) [task] (walManager database, tableStorageMap database) of
          (results, wm, st) \<Rightarrow> (hd results, database\<lparr>walManager := wm, tableStorageMap := st\<rparr>))"

section \<open>The index file of a table\<close>

text \<open>\<^verbatim>\<open>getShadowNamedIndex\<close> opens the file of the table once; what it returns is the tree with the
  name of one index. Opening creates the file.\<close>

definition getShadowNamedIndex :: "db_env \<Rightarrow> string \<Rightarrow> unit db_op" where
  "getShadowNamedIndex env tableName database =
     (case shadowIndexes database tableName of
        Some _ \<Rightarrow> (Ok (), database)
      | None \<Rightarrow>
          (case de_indexOpen env tableName of
             Some fileError \<Rightarrow> (Err fileError, database)
           | None \<Rightarrow>
               let disk = (case indexFiles database tableName of None \<Rightarrow> [] | Some b \<Rightarrow> b) in
               (case NewDiskBPlusTree OpenFile disk (de_indexStat env tableName) (de_indexIo env tableName) of
                  (Ok _, tree) \<Rightarrow> (Ok (), database\<lparr>shadowIndexes := (shadowIndexes database)(tableName \<mapsto> tree)\<rparr>)
                | (r, tree) \<Rightarrow> (r, database\<lparr>indexFiles := (indexFiles database)(tableName \<mapsto> bt_disk tree)\<rparr>))))"

text \<open>An operation on the tree of a table.\<close>

definition onTree :: "string \<Rightarrow> 'a tree_op \<Rightarrow> 'a db_op" where
  "onTree tableName operation database =
     (case shadowIndexes database tableName of
        None \<Rightarrow> (Panic NilDereference, database)
      | Some tree \<Rightarrow>
          (case operation tree of
             (r, tree') \<Rightarrow> (r, database\<lparr>shadowIndexes := (shadowIndexes database)(tableName \<mapsto> tree')\<rparr>)))"

definition withIndex :: "db_env \<Rightarrow> string \<Rightarrow> 'a tree_op \<Rightarrow> 'a db_op" where
  "withIndex env tableName operation = bindD (getShadowNamedIndex env tableName) (\<lambda>_. onTree tableName operation)"

definition indexMetadataOf :: "string \<Rightarrow> gfield list \<Rightarrow> IndexMetadata list" where
  "indexMetadataOf tableName fs =
     map (\<lambda>fieldMetadata. \<lparr>IndexName = tableName @ ''_'' @ fm_FieldName fieldMetadata @ ''_idx'',
            FieldName = fm_FieldName fieldMetadata, Unique = IsUnique fieldMetadata, Ordered = IsOrdered fieldMetadata\<rparr>)
       (filter IsIndex (map parseFieldTag fs))"

definition extractIndexMetadataList :: "string \<Rightarrow> gval \<Rightarrow> IndexMetadata list" where
  "extractIndexMetadataList tableName record =
     (case structFields (typeOf record) of None \<Rightarrow> [] | Some fs \<Rightarrow> indexMetadataOf tableName fs)"

text \<open>The key of a record in a secondary index: the value itself in a unique index, the value with the
  primary key otherwise. A record without the value has no entry.\<close>

definition secondaryKey :: "db_env \<Rightarrow> gval \<Rightarrow> gval \<Rightarrow> IndexMetadata \<Rightarrow> bytes option res" where
  "secondaryKey env record primaryKey indexMetadata =
     (let fieldValue = getFieldValue record (FieldName indexMetadata) in
      if fieldValue = VNil then Ok None
      else
        let value = canonicalizeKey (fmtOf env) fieldValue in
        mapR Some (if Unique indexMetadata then serializeKey value else SerializeCompositeKey value primaryKey))"

definition shadowInsertNoCommit :: "db_env \<Rightarrow> string \<Rightarrow> gval \<Rightarrow> RecordPointer \<Rightarrow> 64 word \<Rightarrow> unit db_op" where
  "shadowInsertNoCommit env tableName record pointer generation =
     (let primaryKey = getPrimaryKey record;
          insertInto = (\<lambda>indexName key. onTree tableName
            (NamedIndex_InsertNoCommit (fmtOf env) (de_fuel env) indexName key pointer generation))
      in if primaryKey = VNil then liftD (Err (Errorf ''primary key ID cannot be nil''))
         else
           bindD (getShadowNamedIndex env tableName) (\<lambda>_.
             bindD (liftD (serializeKey primaryKey)) (\<lambda>primaryKeyBytes.
               bindD (insertInto ''primary'' primaryKeyBytes) (\<lambda>_.
                 forD (extractIndexMetadataList tableName record)
                   (\<lambda>indexMetadata _. bindD (liftD (secondaryKey env record primaryKey indexMetadata)) (\<lambda>k.
                      case k of
                        None \<Rightarrow> returnD ()
                      | Some key \<Rightarrow> bindD (insertInto (IndexName indexMetadata) key) (\<lambda>_. returnD ()))) ()))))"

definition shadowDeleteNoCommit :: "db_env \<Rightarrow> string \<Rightarrow> gval \<Rightarrow> gval \<Rightarrow> 64 word \<Rightarrow> unit db_op" where
  "shadowDeleteNoCommit env tableName key oldRecord generation =
     (let deleteFrom = (\<lambda>indexName k. onTree tableName
            (NamedIndex_DeleteNoCommit (fmtOf env) (de_fuel env) indexName k generation))
      in bindD (getShadowNamedIndex env tableName) (\<lambda>_.
           bindD (liftD (serializeKey key)) (\<lambda>primaryKeyBytes.
             bindD (deleteFrom ''primary'' primaryKeyBytes) (\<lambda>_.
               if oldRecord = VNil then returnD ()
               else
                 forD (extractIndexMetadataList tableName oldRecord)
                   (\<lambda>indexMetadata _. bindD (liftD (secondaryKey env oldRecord key indexMetadata)) (\<lambda>k.
                      case k of
                        None \<Rightarrow> returnD ()
                      | Some secondary \<Rightarrow> bindD (deleteFrom (IndexName indexMetadata) secondary) (\<lambda>_. returnD ()))) ()))))"

definition shadowCommit :: "db_env \<Rightarrow> string \<Rightarrow> 64 word \<Rightarrow> unit db_op" where
  "shadowCommit env tableName generation = withIndex env tableName (NamedIndex_Commit (de_order env) generation)"

text \<open>\<^verbatim>\<open>shadowClear\<close>: close the tree, truncate the file (\<^verbatim>\<open>os.Truncate\<close> fails when there is none) and open
  it again.\<close>

definition fileNotFound :: error where
  "fileNotFound = OsError ''no such file or directory''"

definition shadowClear :: "db_env \<Rightarrow> string \<Rightarrow> unit db_op" where
  "shadowClear env tableName database =
     (let database1 = (case shadowIndexes database tableName of
            Some tree \<Rightarrow> database\<lparr>shadowIndexes := (shadowIndexes database)(tableName := None),
                                 indexFiles := (indexFiles database)(tableName \<mapsto> bt_disk tree)\<rparr>
          | None \<Rightarrow> database)
      in case (if indexFiles database1 tableName = None then Some fileNotFound else de_truncate env tableName) of
           Some truncateError \<Rightarrow> (Err truncateError, database1)
         | None \<Rightarrow>
             getShadowNamedIndex env tableName
               (database1\<lparr>indexFiles := (indexFiles database1)(tableName \<mapsto> [])\<rparr>))"

text \<open>A range scan over an index of the table. The visitor's state is a result, so that a panic in it ends the
  scan.\<close>

definition scanIndex :: "db_env \<Rightarrow> string \<Rightarrow> string \<Rightarrow> bytes \<Rightarrow> 'v res visitor \<Rightarrow> 'v \<Rightarrow> 'v db_op" where
  "scanIndex env tableName indexName start visit v =
     bindD (onTree tableName (RangeNamed (fmtOf env) (de_fuel env) (de_leafFuel env) indexName start [] visit (Ok v))) liftD"

text \<open>The scan that reads every record of a table, as the export to JSON and the migration to SQL do it: a
  record that cannot be read or decoded ends the scan without an error.\<close>

definition collectAll :: "db_env \<Rightarrow> string \<Rightarrow> gtype \<Rightarrow> TableStorage \<Rightarrow> gval list res visitor" where
  "collectAll env tableName entityType ts keyBytes recordPointer v =
     (case v of
        Ok records \<Rightarrow>
          (case bindR (ReadRecord recordPointer (de_read env tableName recordPointer) ts)
                  (\<lambda>bytesValue. Unmarshal (de_go env) bytesValue entityType) of
             Ok record \<Rightarrow> (True, Ok (records @ [record]))
           | Err e \<Rightarrow> (False, v)
           | Panic p \<Rightarrow> (False, Panic p)
           | NoFuel \<Rightarrow> (False, NoFuel))
      | _ \<Rightarrow> (False, v))"

definition scanTable :: "db_env \<Rightarrow> string \<Rightarrow> gtype \<Rightarrow> gval list db_op" where
  "scanTable env tableName entityType =
     bindD (tableStorage env tableName) (\<lambda>ts.
       bindD (getShadowNamedIndex env tableName) (\<lambda>_.
         scanIndex env tableName ''primary'' [] (collectAll env tableName entityType ts) []))"

section \<open>The schema\<close>

definition incompatible :: "'a res" where
  "incompatible = Err IncompatibleTypesError"

definition isIDField :: "gfield \<Rightarrow> bool" where
  "isIDField structField =
     (list_ex (\<lambda>part. strings_TrimSpace part = ''id'') (strings_Split CHR '','' (fldTag structField))
      \<or> strings_ToLower (fldName structField) = ''id'')"

text \<open>A nil \<^verbatim>\<open>reflect.Type\<close> is \<open>None\<close>.\<close>

definition validateSchema :: "gtype option \<Rightarrow> gtype option \<Rightarrow> unit res" where
  "validateSchema idType entityType =
     (case (entityType, idType) of
        (None, _) \<Rightarrow> incompatible
      | (_, None) \<Rightarrow> incompatible
      | (Some entity, Some ident) \<Rightarrow>
          if isPtrType entity then incompatible
          else case structFields entity of
            None \<Rightarrow> incompatible
          | Some fs \<Rightarrow>
              if isPtrType ident then incompatible
              else
                (case filter isIDField (filter (\<lambda>f. fldPkgPath f = []) fs) of
                   [] \<Rightarrow> incompatible
                 | [structField] \<Rightarrow> if ident \<noteq> fldType structField then incompatible else Ok ()
                 | _ \<Rightarrow> incompatible))"

definition checkMetadata :: "gtype \<Rightarrow> gtype \<Rightarrow> TableMetadata \<Rightarrow> unit res" where
  "checkMetadata idType entityType meta =
     (if tm_IdType meta \<noteq> idType \<or> tm_Type meta \<noteq> entityType then incompatible else Ok ())"

definition boolByte :: "bool \<Rightarrow> bytes" where
  "boolByte b = [if b then 1 else 0]"

definition schemaRecord :: "Database \<Rightarrow> WalOperation \<Rightarrow> 64 word \<Rightarrow> bytes \<Rightarrow> WalRecord" where
  "schemaRecord database op generation payload =
     \<lparr>wr_Type = op, wr_TransactionID = databaseID database, wr_Generation = generation, wr_Payload = payload\<rparr>"

definition createTableRecords :: "Database \<Rightarrow> string \<Rightarrow> gtype \<Rightarrow> gtype \<Rightarrow> IndexMetadata list \<Rightarrow> 64 word \<Rightarrow> WalRecord list" where
  "createTableRecords database tableName idType entityType indexMetadataList generation =
     schemaRecord database OpCreateTable generation
       (writeString tableName @ writeString (typeString idType) @ writeString (typeString entityType))
     # map (\<lambda>indexMetadata. schemaRecord database OpCreateIndex generation
         (writeString tableName @ writeString (IndexName indexMetadata)
          @ boolByte (Unique indexMetadata) @ boolByte (Ordered indexMetadata))) indexMetadataList"

definition schemaTask :: "Database \<Rightarrow> 64 word \<Rightarrow> WalRecord list \<Rightarrow> WriteTask" where
  "schemaTask database generation records =
     \<lparr>TxID = databaseID database, wt_Generation = generation, WalRecords = records, TableAppends = []\<rparr>"

text \<open>The part of \<^verbatim>\<open>registerTableMetadata\<close> that runs with the lock.\<close>

definition registerLocked :: "db_env \<Rightarrow> string \<Rightarrow> gtype \<Rightarrow> gtype \<Rightarrow> unit db_op" where
  "registerLocked env tableName idType entityType database =
     (if db_closed database then (Err DatabaseClosedError, database)
      else case tableMetadataMap database tableName of
        Some meta \<Rightarrow> (checkMetadata idType entityType meta, database)
      | None \<Rightarrow>
          let registry = RegisterType (zeroValue idType) (RegisterType (zeroValue entityType) (typeRegistry database));
              indexMetadataList = (case structFields entityType of None \<Rightarrow> [] | Some fs \<Rightarrow> indexMetadataOf tableName fs);
              nextGeneration = currentGeneration database + 1;
              walRecords = createTableRecords database tableName idType entityType indexMetadataList nextGeneration
          in case submitTask env (schemaTask database nextGeneration walRecords) (database\<lparr>typeRegistry := registry\<rparr>) of
               (Ok _, database1) \<Rightarrow>
                 let copy = DatabaseState_Copy (committedState database1) nextGeneration;
                     nextState = copy\<lparr>Tables := AList.update tableName
                       (NewTableState tableName idType entityType indexMetadataList) (Tables copy)\<rparr>
                 in (Ok (), (publish nextState database1)\<lparr>tableMetadataMap :=
                      (tableMetadataMap database1)(tableName \<mapsto> \<lparr>tm_IdType = idType, tm_Type = entityType\<rparr>)\<rparr>)
             | (Err e, database1) \<Rightarrow> (Err (WrapError ''schema modification failed'' e), database1)
             | (Panic p, database1) \<Rightarrow> (Panic p, database1)
             | (NoFuel, database1) \<Rightarrow> (NoFuel, database1))"

definition registerTableMetadata :: "db_env \<Rightarrow> string \<Rightarrow> gtype option \<Rightarrow> gtype option \<Rightarrow> unit db_op" where
  "registerTableMetadata env tableName idType entityType database =
     (case validateSchema idType entityType of
        Ok _ \<Rightarrow>
          if \<not> isValidTableName tableName then (Err InvalidTableNameError, database)
          else
            (case tableMetadataMap database tableName of
               Some meta \<Rightarrow> (checkMetadata (the idType) (the entityType) meta, database)
             | None \<Rightarrow> registerLocked env tableName (the idType) (the entityType) database)
      | r \<Rightarrow> (r, database))"

definition TableNames :: "Database \<Rightarrow> string list" where
  "TableNames database = map fst (Tables (committedState database))"

definition ContainsTable :: "Database \<Rightarrow> string \<Rightarrow> bool" where
  "ContainsTable database tableName = (map_of (Tables (committedState database)) tableName \<noteq> None)"

text \<open>\<^verbatim>\<open>DropTable\<close>: an index that is open is a \<^verbatim>\<open>*NamedIndex\<close> in the map, and the assertion that it is a
  \<^verbatim>\<open>*DiskBPlusTree\<close> panics.\<close>

definition DropTable :: "db_env \<Rightarrow> string \<Rightarrow> bool db_op" where
  "DropTable env tableName database =
     (if db_closed database then (Err DatabaseClosedError, database)
      else if \<not> isValidTableName tableName then (Err InvalidTableNameError, database)
      else if \<not> ContainsTable database tableName then (Ok False, database)
      else
        let nextGeneration = currentGeneration database + 1 in
        case submitTask env (schemaTask database nextGeneration
               [schemaRecord database OpDropTable nextGeneration (writeString tableName)]) database of
          (Ok _, database1) \<Rightarrow>
            let copy = DatabaseState_Copy (committedState database) nextGeneration;
                database2 = (publish (copy\<lparr>Tables := AList.delete tableName (Tables copy)\<rparr>) database1)
                  \<lparr>tableMetadataMap := (tableMetadataMap database1)(tableName := None),
                   tableStorageMap := (tableStorageMap database1)(tableName := None),
                   tableFiles := (tableFiles database1)(tableName := None)\<rparr>
            in (case shadowIndexes database2 tableName of
                  Some tree \<Rightarrow> (Panic TypeAssertion, database2\<lparr>shadowIndexes := (shadowIndexes database2)(tableName := None),
                    indexFiles := (indexFiles database2)(tableName \<mapsto> bt_disk tree)\<rparr>)
                | None \<Rightarrow> (Ok True, database2\<lparr>indexFiles := (indexFiles database2)(tableName := None)\<rparr>))
        | (Err e, database1) \<Rightarrow> (Err e, database1)
        | (Panic p, database1) \<Rightarrow> (Panic p, database1)
        | (NoFuel, database1) \<Rightarrow> (NoFuel, database1))"

text \<open>\<^verbatim>\<open>Close\<close>: the errors of the table files and of the index files are dropped, the error of the log is
  returned. Closing twice does nothing.\<close>

definition CloseDatabase :: "error option \<Rightarrow> unit db_op" where
  "CloseDatabase outcome database =
     (if db_closed database then (Ok (), database)
      else
        case WalManager_closeFile outcome (walManager database) of
          (r, wm) \<Rightarrow> (r, database\<lparr>db_closed := True, walClosed := True, walManager := wm,
            tableStorageMap := (\<lambda>n. map_option (\<lambda>ts. snd (TableStorage_Close None ts)) (tableStorageMap database n)),
            shadowIndexes := (\<lambda>n. map_option (\<lambda>t. snd (DiskBPlusTree_Close None t)) (shadowIndexes database n))\<rparr>))"

end
