(* ===== verification/Transactions.thy ===== *)
theory Transactions
  imports Database
begin

text \<open>
  \<^verbatim>\<open>src/tx.go\<close>: the change set of a transaction, rollback, the validation of unique indexes and
  commit.

  A transaction works on its own record and on the database, so an operation is a function on the
  pair. The maps of a change set are association lists in iteration order; their keys are compared
  by equality of the dynamic values (floating-point keys, where Go's \<^verbatim>\<open>==\<close> differs, are outside the
  model). \<^verbatim>\<open>TableState.Insert\<close>, \<^verbatim>\<open>Update\<close>, \<^verbatim>\<open>Delete\<close> and \<^verbatim>\<open>Clear\<close> have empty bodies in
  \<^verbatim>\<open>src/state.go\<close> and are left out. The release of the writer lock is a step of \<open>Locking\<close>.
\<close>

section \<open>Change sets\<close>

record TableChangeSet =
  Cleared :: bool
  Inserts :: "(gval \<times> gval) list"
  Updates :: "(gval \<times> gval) list"
  Deletes :: "gval list"

definition NewTableChangeSet :: TableChangeSet where
  "NewTableChangeSet = \<lparr>Cleared = False, Inserts = [], Updates = [], Deletes = []\<rparr>"

definition IsEmpty :: "TableChangeSet \<Rightarrow> bool" where
  "IsEmpty cs = (\<not> Cleared cs \<and> Inserts cs = [] \<and> Updates cs = [] \<and> Deletes cs = [])"

record IndexChange =
  ic_TableName :: string
  ic_IndexName :: string
  IndexValue :: gval
  ic_PrimaryKey :: gval

record IndexChangeSet =
  Added :: "IndexChange list"
  Removed :: "IndexChange list"

definition indexChange :: "string \<Rightarrow> string \<Rightarrow> gval \<Rightarrow> gval \<Rightarrow> IndexChange" where
  "indexChange tableName indexName indexValue primaryKey =
     \<lparr>ic_TableName = tableName, ic_IndexName = indexName, IndexValue = indexValue, ic_PrimaryKey = primaryKey\<rparr>"

definition IndexChangeSet_Add :: "string \<Rightarrow> string \<Rightarrow> gval \<Rightarrow> gval \<Rightarrow> IndexChangeSet \<Rightarrow> IndexChangeSet" where
  "IndexChangeSet_Add tableName indexName indexValue primaryKey ics =
     ics\<lparr>Added := Added ics @ [indexChange tableName indexName indexValue primaryKey]\<rparr>"

definition IndexChangeSet_Remove :: "string \<Rightarrow> string \<Rightarrow> gval \<Rightarrow> gval \<Rightarrow> IndexChangeSet \<Rightarrow> IndexChangeSet" where
  "IndexChangeSet_Remove tableName indexName indexValue primaryKey ics =
     ics\<lparr>Removed := Removed ics @ [indexChange tableName indexName indexValue primaryKey]\<rparr>"

definition IndexChangeSet_Clear :: "IndexChangeSet \<Rightarrow> IndexChangeSet" where
  "IndexChangeSet_Clear ics = ics\<lparr>Added := [], Removed := []\<rparr>"

record TransactionChangeSet =
  TableChanges :: "(string \<times> TableChangeSet) list"
  IndexChanges :: IndexChangeSet
  RollbackOnly :: bool
  RollbackReason :: string

definition NewTransactionChangeSet :: TransactionChangeSet where
  "NewTransactionChangeSet = \<lparr>TableChanges = [], IndexChanges = \<lparr>Added = [], Removed = []\<rparr>, RollbackOnly = False, RollbackReason = []\<rparr>"

record Transaction =
  transactionID :: "64 word"
  tx_committedState :: DatabaseState
  changeSet :: TransactionChangeSet
  active :: bool

definition NewTransaction :: "64 word \<Rightarrow> DatabaseState \<Rightarrow> Transaction" where
  "NewTransaction ident state = \<lparr>transactionID = ident, tx_committedState = state, changeSet = NewTransactionChangeSet, active = True\<rparr>"

definition SetRollbackOnly :: "string \<Rightarrow> Transaction \<Rightarrow> Transaction" where
  "SetRollbackOnly reason tx = tx\<lparr>changeSet := (changeSet tx)\<lparr>RollbackOnly := True, RollbackReason := reason\<rparr>\<rparr>"

text \<open>\<^verbatim>\<open>GetTableChanges\<close> returns a pointer to the change set of a table and adds an empty one when there is
  none: the first is \<open>GetTableChanges\<close>, the second \<open>touchTable\<close>, and changing it through the pointer is
  \<open>putTableChanges\<close>.\<close>

definition GetTableChanges :: "string \<Rightarrow> Transaction \<Rightarrow> TableChangeSet" where
  "GetTableChanges tableName tx =
     (case map_of (TableChanges (changeSet tx)) tableName of Some cs \<Rightarrow> cs | None \<Rightarrow> NewTableChangeSet)"

definition putTableChanges :: "string \<Rightarrow> TableChangeSet \<Rightarrow> Transaction \<Rightarrow> Transaction" where
  "putTableChanges tableName cs tx =
     tx\<lparr>changeSet := (changeSet tx)\<lparr>TableChanges := AList.update tableName cs (TableChanges (changeSet tx))\<rparr>\<rparr>"

definition touchTable :: "string \<Rightarrow> Transaction \<Rightarrow> Transaction" where
  "touchTable tableName tx = putTableChanges tableName (GetTableChanges tableName tx) tx"

definition onIndexChanges :: "(IndexChangeSet \<Rightarrow> IndexChangeSet) \<Rightarrow> Transaction \<Rightarrow> Transaction" where
  "onIndexChanges f tx = tx\<lparr>changeSet := (changeSet tx)\<lparr>IndexChanges := f (IndexChanges (changeSet tx))\<rparr>\<rparr>"

definition tableStateOf :: "DatabaseState \<Rightarrow> string \<Rightarrow> TableState option" where
  "tableStateOf state tableName = map_of (Tables state) tableName"

type_synonym 'a tx_op = "(Transaction \<times> Database, 'a) op"

definition inDatabase :: "'a db_op \<Rightarrow> 'a tx_op" where
  "inDatabase m s = (case s of (tx, database) \<Rightarrow> (case m database of (r, database') \<Rightarrow> (r, (tx, database'))))"

section \<open>Rollback\<close>

definition Rollback :: "db_env \<Rightarrow> unit tx_op" where
  "Rollback env s =
     (case s of (tx, database) \<Rightarrow>
       if \<not> active tx then (Ok (), s)
       else
         case AppendRollbackMarker (transactionID tx) (currentGeneration database + 1) (RollbackReason (changeSet tx))
                (fst (de_rollback env)) (snd (de_rollback env)) (walManager database) of
           (r, wm) \<Rightarrow>
             (case r of Err e \<Rightarrow> Err (WrapError ''failed to write rollback marker to WAL'' e) | _ \<Rightarrow> r,
              (tx\<lparr>active := False\<rparr>, database\<lparr>walManager := wm\<rparr>)))"

section \<open>Reading the committed state\<close>

definition findPrimary :: "db_env \<Rightarrow> string \<Rightarrow> gval \<Rightarrow> RecordPointer option db_op" where
  "findPrimary env tableName key =
     bindD (getShadowNamedIndex env tableName) (\<lambda>_.
       bindD (liftD (serializeKey key)) (\<lambda>keyBytes.
         onTree tableName (NamedIndex_Find (fmtOf env) (de_fuel env) ''primary'' keyBytes)))"

text \<open>The Go value nil is \<open>VNil\<close>; a failing search counts as not found.\<close>

definition readCommittedRecord :: "db_env \<Rightarrow> DatabaseState \<Rightarrow> string \<Rightarrow> gval \<Rightarrow> gval db_op" where
  "readCommittedRecord env state tableName key =
     (case tableStateOf state tableName of
        None \<Rightarrow> returnD VNil
      | Some tableState \<Rightarrow>
          bindD (getShadowNamedIndex env tableName) (\<lambda>_.
            bindD (liftD (serializeKey key)) (\<lambda>keyBytes.
              bindD (attemptD (onTree tableName (NamedIndex_Find (fmtOf env) (de_fuel env) ''primary'' keyBytes))) (\<lambda>found.
                case found of
                  Inr (Some recordPointer) \<Rightarrow> readRecordAs env tableName (EntityType tableState) recordPointer
                | _ \<Rightarrow> returnD VNil))))"

section \<open>Unique indexes\<close>

text \<open>The index values that the transaction takes away from committed records.\<close>

definition removedValues :: "db_env \<Rightarrow> DatabaseState \<Rightarrow> string \<Rightarrow> TableChangeSet \<Rightarrow> string \<Rightarrow> gval list db_op" where
  "removedValues env state tableName cs fieldName =
     (if Cleared cs then returnD []
      else forD (Deletes cs @ map fst (Updates cs)) (\<lambda>key removed.
        bindD (attemptD (readCommittedRecord env state tableName key)) (\<lambda>r.
          case r of
            Inl _ \<Rightarrow> returnD removed
          | Inr oldRecord \<Rightarrow>
              let indexValue = getFieldValue oldRecord fieldName in
              if oldRecord = VNil \<or> indexValue = VNil then returnD removed
              else returnD (List.insert (canonicalizeKey (fmtOf env) indexValue) removed))) [])"

text \<open>The key of the committed record that holds a unique value, when every step of finding it works.\<close>

definition committedHolder :: "db_env \<Rightarrow> string \<Rightarrow> TableState \<Rightarrow> string \<Rightarrow> gval \<Rightarrow> gval option db_op" where
  "committedHolder env tableName tableState indexName indexValue =
     bindD (attemptD (bindD (getShadowNamedIndex env tableName) (\<lambda>_.
         bindD (liftD (serializeKey indexValue)) (\<lambda>keyBytes.
           bindD (onTree tableName (NamedIndex_Find (fmtOf env) (de_fuel env) indexName keyBytes)) (\<lambda>found.
             case found of
               None \<Rightarrow> returnD None
             | Some recordPointer \<Rightarrow>
                 bindD (readRecordAs env tableName (EntityType tableState) recordPointer) (\<lambda>record.
                   returnD (Some (getPrimaryKey record)))))))) (\<lambda>r.
       returnD (case r of Inl _ \<Rightarrow> None | Inr holder \<Rightarrow> holder))"

definition checkConflict ::
  "db_env \<Rightarrow> string \<Rightarrow> TableState \<Rightarrow> TableChangeSet \<Rightarrow> IndexMetadata \<Rightarrow> gval list \<Rightarrow> gval \<times> gval \<Rightarrow>
   (gval \<times> gval) list \<Rightarrow> (gval \<times> gval) list db_op"
where
  "checkConflict env tableName tableState cs indexMetadata removed entry added =
     (case entry of (key, record) \<Rightarrow>
       let fieldValue = getFieldValue record (FieldName indexMetadata) in
       if fieldValue = VNil then returnD added
       else
         let indexValue = canonicalizeKey (fmtOf env) fieldValue;
             duplicate = liftD (Err (DuplicateIndexError tableName (IndexName indexMetadata) indexValue))
         in case map_of added indexValue of
              Some existingKey \<Rightarrow> if existingKey \<noteq> key then duplicate else returnD added
            | None \<Rightarrow>
                bindD (if \<not> Cleared cs \<and> indexValue \<notin> set removed
                       then committedHolder env tableName tableState (IndexName indexMetadata) indexValue
                       else returnD None) (\<lambda>holder.
                  case holder of
                    Some existingKey \<Rightarrow> if existingKey \<noteq> key then duplicate else returnD ((indexValue, key) # added)
                  | None \<Rightarrow> returnD ((indexValue, key) # added)))"

definition validateIndex ::
  "db_env \<Rightarrow> DatabaseState \<Rightarrow> string \<Rightarrow> TableState \<Rightarrow> TableChangeSet \<Rightarrow> IndexMetadata \<Rightarrow> unit db_op"
where
  "validateIndex env state tableName tableState cs indexMetadata =
     bindD (removedValues env state tableName cs (FieldName indexMetadata)) (\<lambda>removed.
       bindD (forD (Inserts cs @ Updates cs) (checkConflict env tableName tableState cs indexMetadata removed) []) (\<lambda>_.
         returnD ()))"

definition validateTable :: "db_env \<Rightarrow> DatabaseState \<Rightarrow> string \<times> TableChangeSet \<Rightarrow> unit db_op" where
  "validateTable env state change =
     (case change of (tableName, cs) \<Rightarrow>
       if IsEmpty cs then returnD ()
       else case tableStateOf state tableName of
         None \<Rightarrow> returnD ()
       | Some tableState \<Rightarrow>
           forD (filter Unique (IndexMetadataList tableState))
             (\<lambda>indexMetadata _. validateIndex env state tableName tableState cs indexMetadata) ())"

definition validateUniqueIndexes :: "db_env \<Rightarrow> Transaction \<Rightarrow> unit db_op" where
  "validateUniqueIndexes env tx =
     forD (TableChanges (changeSet tx)) (\<lambda>change _. validateTable env (tx_committedState tx) change) ()"

section \<open>Commit\<close>

definition txRecord :: "Transaction \<Rightarrow> 64 word \<Rightarrow> WalOperation \<Rightarrow> bytes \<Rightarrow> WalRecord" where
  "txRecord tx generation op payload =
     \<lparr>wr_Type = op, wr_TransactionID = transactionID tx, wr_Generation = generation, wr_Payload = payload\<rparr>"

text \<open>The payload of a delete: an error of \<^verbatim>\<open>writeValue\<close> is dropped with what it had written.\<close>

definition deletePayload :: "string \<Rightarrow> string \<Rightarrow> gval \<Rightarrow> bytes" where
  "deletePayload tableName idClassName key =
     writeString tableName @ writeString idClassName @ (case writeValue key of Ok b \<Rightarrow> b | _ \<Rightarrow> [])"

definition recordPayload :: "string \<Rightarrow> string \<Rightarrow> bytes \<Rightarrow> bytes" where
  "recordPayload tableName entityClassName recBytes =
     writeString tableName @ writeString entityClassName @ PutUint32 (of_nat (length recBytes)) @ recBytes"

text \<open>Marshalling the records of one kind: the log records and the bytes to append.\<close>

fun recordLog :: "Transaction \<Rightarrow> 64 word \<Rightarrow> WalOperation \<Rightarrow> string \<Rightarrow> string \<Rightarrow> gval list \<Rightarrow> (WalRecord list \<times> bytes list) res" where
  "recordLog tx generation op tableName entityClassName [] = Ok ([], [])"
| "recordLog tx generation op tableName entityClassName (record # records) =
     (case Marshal record of
        Ok recBytes \<Rightarrow>
          bindR (recordLog tx generation op tableName entityClassName records) (\<lambda>(walRecords, appends).
            Ok (txRecord tx generation op (recordPayload tableName entityClassName recBytes) # walRecords, recBytes # appends))
      | Err e \<Rightarrow> Err (WrapError ''failed to serialize record for commit'' e)
      | Panic p \<Rightarrow> Panic p
      | NoFuel \<Rightarrow> NoFuel)"

definition tableLog :: "Transaction \<Rightarrow> 64 word \<Rightarrow> string \<times> TableChangeSet \<Rightarrow> (WalRecord list \<times> bytes list) res" where
  "tableLog tx generation change =
     (case change of (tableName, cs) \<Rightarrow>
       if IsEmpty cs then Ok ([], [])
       else
         let committedTable = tableStateOf (tx_committedState tx) tableName;
             entityClassName = (case committedTable of None \<Rightarrow> [] | Some t \<Rightarrow> typeString (EntityType t));
             idClassName = (case committedTable of None \<Rightarrow> [] | Some t \<Rightarrow> typeString (IdType t));
             clearLog = (if Cleared cs then [txRecord tx generation OpClearTable (writeString tableName)] else []);
             deleteLog = map (\<lambda>key. txRecord tx generation OpDelete (deletePayload tableName idClassName key)) (Deletes cs)
         in bindR (recordLog tx generation OpInsert tableName entityClassName (map snd (Inserts cs))) (\<lambda>(insertLog, insertAppends).
              bindR (recordLog tx generation OpUpdate tableName entityClassName (map snd (Updates cs))) (\<lambda>(updateLog, updateAppends).
                Ok (clearLog @ deleteLog @ insertLog @ updateLog, insertAppends @ updateAppends))))"

text \<open>All tables: the log records, and the appends of the tables that have some.\<close>

fun transactionLog :: "Transaction \<Rightarrow> 64 word \<Rightarrow> (string \<times> TableChangeSet) list \<Rightarrow>
    (WalRecord list \<times> (string \<times> bytes list) list) res" where
  "transactionLog tx generation [] = Ok ([], [])"
| "transactionLog tx generation (change # changes) =
     bindR (tableLog tx generation change) (\<lambda>(walRecords, appends).
       bindR (transactionLog tx generation changes) (\<lambda>(rest, tableAppends).
         Ok (walRecords @ rest, (if appends = [] then tableAppends else (fst change, appends) # tableAppends))))"

text \<open>Step 4 for one table: the index of the table follows the change set.\<close>

definition applyDelete :: "db_env \<Rightarrow> DatabaseState \<Rightarrow> string \<Rightarrow> 64 word \<Rightarrow> gval \<Rightarrow> unit db_op" where
  "applyDelete env state tableName generation key =
     bindD (readCommittedRecord env state tableName key) (\<lambda>oldRecord.
       shadowDeleteNoCommit env tableName key oldRecord generation)"

definition applyInsert :: "db_env \<Rightarrow> string \<Rightarrow> 64 word \<Rightarrow> RecordPointer list \<Rightarrow> gval \<Rightarrow> nat \<Rightarrow> nat db_op" where
  "applyInsert env tableName generation generatedPointers record pointerIndex =
     bindD (liftD (index_at generatedPointers pointerIndex)) (\<lambda>ptr.
       bindD (shadowInsertNoCommit env tableName record ptr generation) (\<lambda>_. returnD (Suc pointerIndex)))"

definition applyUpdate ::
  "db_env \<Rightarrow> DatabaseState \<Rightarrow> string \<Rightarrow> 64 word \<Rightarrow> RecordPointer list \<Rightarrow> gval \<Rightarrow> nat \<Rightarrow> nat db_op"
where
  "applyUpdate env state tableName generation generatedPointers record pointerIndex =
     bindD (liftD (index_at generatedPointers pointerIndex)) (\<lambda>ptr.
       bindD (applyDelete env state tableName generation (getPrimaryKey record)) (\<lambda>_.
         bindD (shadowInsertNoCommit env tableName record ptr generation) (\<lambda>_. returnD (Suc pointerIndex))))"

definition applyTable ::
  "db_env \<Rightarrow> DatabaseState \<Rightarrow> 64 word \<Rightarrow> (string \<times> RecordPointer list) list \<Rightarrow> string \<times> TableChangeSet \<Rightarrow> unit db_op"
where
  "applyTable env state generation pointers change =
     (case change of (tableName, cs) \<Rightarrow>
       case tableStateOf state tableName of
         None \<Rightarrow> returnD ()
       | Some _ \<Rightarrow>
           let generatedPointers = (case map_of pointers tableName of None \<Rightarrow> [] | Some ps \<Rightarrow> ps) in
           bindD (if Cleared cs then shadowClear env tableName else returnD ()) (\<lambda>_.
             bindD (forD (Deletes cs) (\<lambda>key _. applyDelete env state tableName generation key) ()) (\<lambda>_.
               bindD (forD (map snd (Inserts cs)) (applyInsert env tableName generation generatedPointers) 0) (\<lambda>pointerIndex.
                 bindD (forD (map snd (Updates cs)) (applyUpdate env state tableName generation generatedPointers) pointerIndex) (\<lambda>_.
                   if Deletes cs \<noteq> [] \<or> Inserts cs \<noteq> [] \<or> Updates cs \<noteq> []
                   then shadowCommit env tableName generation else returnD ())))))"

definition transactionTask :: "Transaction \<Rightarrow> 64 word \<Rightarrow> WalRecord list \<Rightarrow> (string \<times> bytes list) list \<Rightarrow> WriteTask" where
  "transactionTask tx generation walRecords tableAppends =
     \<lparr>TxID = transactionID tx, wt_Generation = generation, WalRecords = walRecords, TableAppends = tableAppends\<rparr>"

definition writeAndApply ::
  "db_env \<Rightarrow> Transaction \<Rightarrow> 64 word \<Rightarrow> WalRecord list \<Rightarrow> (string \<times> bytes list) list \<Rightarrow> unit db_op"
where
  "writeAndApply env tx generation walRecords tableAppends =
     bindD (attemptD (submitTask env (transactionTask tx generation walRecords tableAppends))) (\<lambda>result.
       case result of
         Inl e \<Rightarrow> liftD (Err (WrapError ''background write failure'' e))
       | Inr pointers \<Rightarrow>
           bindD (forD (TableChanges (changeSet tx))
                    (\<lambda>change _. applyTable env (tx_committedState tx) generation pointers change) ()) (\<lambda>_.
             modifyD (publish (DatabaseState_Copy (tx_committedState tx) generation))))"

text \<open>The body of \<^verbatim>\<open>Commit\<close> after the transaction is marked inactive; the rollback that follows a failed
  validation finds it inactive and does nothing.\<close>

definition commitBody :: "db_env \<Rightarrow> Transaction \<Rightarrow> unit db_op" where
  "commitBody env tx =
     bindD (validateUniqueIndexes env tx) (\<lambda>_ database.
       let generation = currentGeneration database + 1 in
       case transactionLog tx generation (TableChanges (changeSet tx)) of
         Ok (walRecords, tableAppends) \<Rightarrow>
           if walRecords \<noteq> [] \<or> tableAppends \<noteq> []
           then writeAndApply env tx generation walRecords tableAppends database
           else (Ok (), database)
       | Err e \<Rightarrow> (Err e, database)
       | Panic p \<Rightarrow> (Panic p, database)
       | NoFuel \<Rightarrow> (NoFuel, database))"

definition Commit :: "db_env \<Rightarrow> unit tx_op" where
  "Commit env s =
     (case s of (tx, database) \<Rightarrow>
       if \<not> active tx then (Err NotActiveTransactionError, s)
       else if RollbackOnly (changeSet tx) then
         (Err (RollbackOnlyTransactionError (RollbackReason (changeSet tx))), snd (Rollback env s))
       else
         case commitBody env (tx\<lparr>active := False\<rparr>) database of
           (r, database') \<Rightarrow> (r, (tx\<lparr>active := False\<rparr>, database')))"

text \<open>\<^verbatim>\<open>runTransaction\<close> once it holds the lock: the callback works on the new transaction; an error of the
  callback rolls back, a panic rolls back on the way out, and a transaction that is still active
  commits.\<close>

definition runCallback :: "db_env \<Rightarrow> 64 word \<Rightarrow> unit tx_op \<Rightarrow> unit db_op" where
  "runCallback env ident callback database =
     (if db_closed database then (Err DatabaseClosedError, database)
      else
        case callback (NewTransaction ident (committedState database), database) of
          (Ok _, s) \<Rightarrow> (if active (fst s) then (case Commit env s of (r, s') \<Rightarrow> (r, snd s')) else (Ok (), snd s))
        | (Err e, s) \<Rightarrow> (Err e, snd (snd (Rollback env s)))
        | (Panic p, s) \<Rightarrow> (Panic p, snd (snd (Rollback env s)))
        | (NoFuel, s) \<Rightarrow> (NoFuel, snd s))"

text \<open>\<^verbatim>\<open>TransactionContext\<close>: a context is \<open>None\<close> when it is nil, and otherwise says whether it carries a
  transaction. \<^verbatim>\<open>Transaction\<close> runs the callback under a new context; its deadline ends the wait for the lock
  (the step \<open>giveUp\<close> of \<open>Locking\<close>).\<close>

definition TransactionContext :: "db_env \<Rightarrow> 64 word \<Rightarrow> bool option \<Rightarrow> unit tx_op \<Rightarrow> unit db_op" where
  "TransactionContext env ident parentContext callback database =
     (case parentContext of
        None \<Rightarrow> (Err InvalidTransactionContextError, database)
      | Some hasTransaction \<Rightarrow>
          if hasTransaction then (Err NestedTransactionNotSupportedError, database)
          else runCallback env ident callback database)"

section \<open>Dynamic insertion\<close>

text \<open>Whether a key is taken, as \<^verbatim>\<open>insert\<close>, \<^verbatim>\<open>upsert\<close> and \<^verbatim>\<open>InsertDynamic\<close> test it: in the change set, or
  committed and neither deleted nor cleared; errors of the lookup count as absent.\<close>

definition committedPointer :: "db_env \<Rightarrow> DatabaseState \<Rightarrow> string \<Rightarrow> gval \<Rightarrow> RecordPointer option db_op" where
  "committedPointer env state tableName key =
     (case tableStateOf state tableName of
        None \<Rightarrow> returnD None
      | Some _ \<Rightarrow> bindD (attemptD (findPrimary env tableName key)) (\<lambda>r.
          returnD (case r of Inl _ \<Rightarrow> None | Inr found \<Rightarrow> found)))"

definition keyExists :: "db_env \<Rightarrow> string \<Rightarrow> gval \<Rightarrow> bool tx_op" where
  "keyExists env tableName key s =
     (let tx = fst s; cs = GetTableChanges tableName tx in
      if map_of (Inserts cs) key \<noteq> None then (Ok True, s)
      else if map_of (Updates cs) key \<noteq> None then (Ok True, s)
      else if Cleared cs \<or> key \<in> set (Deletes cs) then (Ok False, s)
      else inDatabase (bindD (committedPointer env (tx_committedState tx) tableName key) (\<lambda>p. returnD (p \<noteq> None))) s)"

definition modifyTx :: "(Transaction \<Rightarrow> Transaction) \<Rightarrow> unit tx_op" where
  "modifyTx f = modifyD (\<lambda>(tx, database). (f tx, database))"

text \<open>The entries a record adds to the index changes.\<close>

definition addIndexChanges :: "string \<Rightarrow> gval \<Rightarrow> gval \<Rightarrow> Transaction \<Rightarrow> Transaction" where
  "addIndexChanges tableName key record tx =
     (case tableStateOf (tx_committedState tx) tableName of
        None \<Rightarrow> tx
      | Some tableState \<Rightarrow> foldl (\<lambda>tx indexMetadata.
          onIndexChanges (IndexChangeSet_Add tableName (IndexName indexMetadata) (getFieldValue record (FieldName indexMetadata)) key) tx)
          tx (IndexMetadataList tableState))"

definition stageInsert :: "string \<Rightarrow> gval \<Rightarrow> gval \<Rightarrow> Transaction \<Rightarrow> Transaction" where
  "stageInsert tableName key record tx =
     (let cs = GetTableChanges tableName tx in
      addIndexChanges tableName key record
        (putTableChanges tableName (cs\<lparr>Inserts := AList.update key record (Inserts cs)\<rparr>) tx))"

text \<open>A key of a type that is not comparable makes the map access panic.\<close>

definition InsertDynamic :: "db_env \<Rightarrow> string \<Rightarrow> gval \<Rightarrow> unit tx_op" where
  "InsertDynamic env tableName record s =
     (let key = getPrimaryKey record in
      if \<not> active (fst s) then (Err NotActiveTransactionError, s)
      else if key = VNil then (Err (Errorf ''primary key ID cannot be nil''), s)
      else if \<not> comparable (keyType key) then (Panic UnhashableKey, s)
      else
        bindD (modifyTx (touchTable tableName)) (\<lambda>_.
          bindD (keyExists env tableName key) (\<lambda>exists.
            if exists then liftD (Err (Errorf ''record already exists''))
            else modifyTx (stageInsert tableName key record))) s)"

end
