(* ===== verification/Tables.thy ===== *)
theory Tables
  imports Transactions
begin

text \<open>
  \<^verbatim>\<open>src/table.go\<close>: the operations of a typed table inside a transaction, and with a transaction of
  their own when they are called without one.

  The type parameters \<^verbatim>\<open>ID\<close> and \<^verbatim>\<open>T\<close> are the run-time types \<open>tb_IdType\<close> and \<open>tb_Type\<close>; a type
  assertion to one of them panics on a value of another type.
\<close>

record Table =
  tb_name :: string
  tb_IdType :: gtype
  tb_Type :: gtype

definition GetTable :: "db_env \<Rightarrow> string \<Rightarrow> gtype \<Rightarrow> gtype option \<Rightarrow> Table db_op" where
  "GetTable env name idType entityType =
     (if \<not> isValidTableName name then liftD (Err InvalidTableNameError)
      else bindD (registerTableMetadata env name (Some idType) entityType) (\<lambda>_.
        returnD \<lparr>tb_name = name, tb_IdType = idType, tb_Type = the entityType\<rparr>))"

section \<open>Reading\<close>

definition readFromStorage :: "db_env \<Rightarrow> Table \<Rightarrow> RecordPointer \<Rightarrow> gval db_op" where
  "readFromStorage env table recordPointer = readRecordAs env (tb_name table) (tb_Type table) recordPointer"

definition findCommitted :: "db_env \<Rightarrow> Table \<Rightarrow> DatabaseState \<Rightarrow> gval \<Rightarrow> gval option db_op" where
  "findCommitted env table state idValue =
     (case tableStateOf state (tb_name table) of
        None \<Rightarrow> returnD None
      | Some _ \<Rightarrow>
          bindD (findPrimary env (tb_name table) idValue) (\<lambda>found.
            case found of
              None \<Rightarrow> returnD None
            | Some recordPointer \<Rightarrow> bindD (readFromStorage env table recordPointer) (\<lambda>record. returnD (Some record))))"

definition FindByID_committed :: "db_env \<Rightarrow> Table \<Rightarrow> gval \<Rightarrow> gval option db_op" where
  "FindByID_committed env table idValue database = findCommitted env table (committedState database) idValue database"

definition FindByID :: "db_env \<Rightarrow> Table \<Rightarrow> gval \<Rightarrow> gval option tx_op" where
  "FindByID env table idValue s =
     (if \<not> active (fst s) then (Err NotActiveTransactionError, s)
      else
        bindD (modifyTx (touchTable (tb_name table))) (\<lambda>_ s.
          let cs = GetTableChanges (tb_name table) (fst s) in
          if Cleared cs then (Ok (map_of (Inserts cs) idValue), s)
          else if idValue \<in> set (Deletes cs) then (Ok None, s)
          else case map_of (Inserts cs) idValue of
            Some record \<Rightarrow> (Ok (Some record), s)
          | None \<Rightarrow>
              (case map_of (Updates cs) idValue of
                 Some record \<Rightarrow> (Ok (Some record), s)
               | None \<Rightarrow> inDatabase (findCommitted env table (tx_committedState (fst s)) idValue) s)) s)"

section \<open>Writing\<close>

text \<open>\<^verbatim>\<open>primaryKeyValue.(ID)\<close> on the primary key of a record.\<close>

definition typedKey :: "Table \<Rightarrow> gval \<Rightarrow> gval res" where
  "typedKey table record =
     (let primaryKeyValue = getPrimaryKey record in
      if primaryKeyValue = VNil then Err (Errorf ''primary key ID cannot be nil'')
      else if typeOf primaryKeyValue \<noteq> tb_IdType table then Panic TypeAssertion
      else Ok primaryKeyValue)"

definition table_insert :: "db_env \<Rightarrow> Table \<Rightarrow> gval \<Rightarrow> unit tx_op" where
  "table_insert env table record s =
     (if \<not> active (fst s) then (Err NotActiveTransactionError, s)
      else
        bindD (liftD (typedKey table record)) (\<lambda>primaryKey.
          bindD (modifyTx (touchTable (tb_name table))) (\<lambda>_.
            bindD (keyExists env (tb_name table) primaryKey) (\<lambda>exists.
              if exists then liftD (Err (Errorf ''record already exists''))
              else modifyTx (stageInsert (tb_name table) primaryKey record)))) s)"

text \<open>The record a transaction sees under a key before it changes it; an error of the lookup in the index
  counts as absent, an error of reading the record is returned.\<close>

definition visibleRecord :: "db_env \<Rightarrow> Table \<Rightarrow> gval \<Rightarrow> gval option tx_op" where
  "visibleRecord env table key s =
     (let cs = GetTableChanges (tb_name table) (fst s) in
      case map_of (Inserts cs) key of
        Some record \<Rightarrow> (Ok (Some record), s)
      | None \<Rightarrow>
          (case map_of (Updates cs) key of
             Some record \<Rightarrow> (Ok (Some record), s)
           | None \<Rightarrow>
               if Cleared cs \<or> key \<in> set (Deletes cs) then (Ok None, s)
               else
                 inDatabase (bindD (committedPointer env (tx_committedState (fst s)) (tb_name table) key) (\<lambda>found.
                   case found of
                     None \<Rightarrow> returnD None
                   | Some recordPointer \<Rightarrow>
                       bindD (readFromStorage env table recordPointer) (\<lambda>record. returnD (Some record)))) s))"

definition replaceIndexChanges :: "db_env \<Rightarrow> string \<Rightarrow> gval \<Rightarrow> gval \<Rightarrow> gval \<Rightarrow> Transaction \<Rightarrow> Transaction" where
  "replaceIndexChanges env tableName key oldRecord record tx =
     (case tableStateOf (tx_committedState tx) tableName of
        None \<Rightarrow> tx
      | Some tableState \<Rightarrow> foldl (\<lambda>tx indexMetadata.
          let oldIndexValue = getFieldValue oldRecord (FieldName indexMetadata);
              newIndexValue = getFieldValue record (FieldName indexMetadata)
          in if valuesEqual (fmtOf env) oldIndexValue newIndexValue then tx
             else
               onIndexChanges (IndexChangeSet_Add tableName (IndexName indexMetadata) newIndexValue key)
                 (if oldIndexValue \<noteq> VNil
                  then onIndexChanges (IndexChangeSet_Remove tableName (IndexName indexMetadata) oldIndexValue key) tx
                  else tx))
          tx (IndexMetadataList tableState))"

definition stageUpdate :: "db_env \<Rightarrow> string \<Rightarrow> gval \<Rightarrow> gval \<Rightarrow> gval \<Rightarrow> Transaction \<Rightarrow> Transaction" where
  "stageUpdate env tableName key oldRecord record tx =
     (let cs = GetTableChanges tableName tx;
          cs' = (if map_of (Inserts cs) key \<noteq> None then cs\<lparr>Inserts := AList.update key record (Inserts cs)\<rparr>
                 else cs\<lparr>Updates := AList.update key record (Updates cs)\<rparr>)
      in replaceIndexChanges env tableName key oldRecord record (putTableChanges tableName cs' tx))"

definition table_update :: "db_env \<Rightarrow> Table \<Rightarrow> gval \<Rightarrow> unit tx_op" where
  "table_update env table record s =
     (if \<not> active (fst s) then (Err NotActiveTransactionError, s)
      else
        bindD (liftD (typedKey table record)) (\<lambda>primaryKey.
          bindD (modifyTx (touchTable (tb_name table))) (\<lambda>_.
            bindD (visibleRecord env table primaryKey) (\<lambda>found.
              case found of
                None \<Rightarrow> liftD (Err (Errorf ''record does not exist''))
              | Some oldRecord \<Rightarrow> modifyTx (stageUpdate env (tb_name table) primaryKey oldRecord record)))) s)"

text \<open>\<^verbatim>\<open>upsert\<close> does not test whether the transaction is active; what it calls does.\<close>

definition table_upsert :: "db_env \<Rightarrow> Table \<Rightarrow> gval \<Rightarrow> unit tx_op" where
  "table_upsert env table record =
     bindD (liftD (typedKey table record)) (\<lambda>primaryKey.
       bindD (modifyTx (touchTable (tb_name table))) (\<lambda>_.
         bindD (keyExists env (tb_name table) primaryKey) (\<lambda>exists.
           if exists then table_update env table record else table_insert env table record)))"

definition removeIndexChanges :: "string \<Rightarrow> gval \<Rightarrow> gval \<Rightarrow> Transaction \<Rightarrow> Transaction" where
  "removeIndexChanges tableName key oldRecord tx =
     (case tableStateOf (tx_committedState tx) tableName of
        None \<Rightarrow> tx
      | Some tableState \<Rightarrow> foldl (\<lambda>tx indexMetadata.
          let indexValue = getFieldValue oldRecord (FieldName indexMetadata) in
          if indexValue \<noteq> VNil
          then onIndexChanges (IndexChangeSet_Remove tableName (IndexName indexMetadata) indexValue key) tx else tx)
          tx (IndexMetadataList tableState))"

definition stageDelete :: "string \<Rightarrow> gval \<Rightarrow> gval \<Rightarrow> Transaction \<Rightarrow> Transaction" where
  "stageDelete tableName key oldRecord tx =
     (let cs = GetTableChanges tableName tx;
          cs' = (if map_of (Inserts cs) key \<noteq> None then cs\<lparr>Inserts := AList.delete key (Inserts cs)\<rparr>
                 else cs\<lparr>Updates := AList.delete key (Updates cs), Deletes := List.insert key (Deletes cs)\<rparr>)
      in removeIndexChanges tableName key oldRecord (putTableChanges tableName cs' tx))"

definition table_deleteByID :: "db_env \<Rightarrow> Table \<Rightarrow> gval \<Rightarrow> bool tx_op" where
  "table_deleteByID env table idValue s =
     (if \<not> active (fst s) then (Err NotActiveTransactionError, s)
      else
        bindD (modifyTx (touchTable (tb_name table))) (\<lambda>_.
          bindD (visibleRecord env table idValue) (\<lambda>found.
            case found of
              None \<Rightarrow> returnD False
            | Some oldRecord \<Rightarrow>
                bindD (modifyTx (stageDelete (tb_name table) idValue oldRecord)) (\<lambda>_. returnD True))) s)"

definition stageClear :: "string \<Rightarrow> Transaction \<Rightarrow> Transaction" where
  "stageClear tableName tx =
     onIndexChanges (\<lambda>ics. ics\<lparr>Added := filter (\<lambda>c. ic_TableName c \<noteq> tableName) (Added ics),
                              Removed := filter (\<lambda>c. ic_TableName c \<noteq> tableName) (Removed ics)\<rparr>)
       (putTableChanges tableName \<lparr>Cleared = True, Inserts = [], Updates = [], Deletes = []\<rparr> tx)"

definition table_clear :: "Table \<Rightarrow> unit tx_op" where
  "table_clear table s =
     (if \<not> active (fst s) then (Err NotActiveTransactionError, s)
      else modifyTx (stageClear (tb_name table)) s)"

section \<open>Without a transaction\<close>

definition Table_Insert :: "db_env \<Rightarrow> 64 word \<Rightarrow> Table \<Rightarrow> gval \<Rightarrow> unit db_op" where
  "Table_Insert env ident table record = runCallback env ident (table_insert env table record)"

definition Table_Update :: "db_env \<Rightarrow> 64 word \<Rightarrow> Table \<Rightarrow> gval \<Rightarrow> unit db_op" where
  "Table_Update env ident table record = runCallback env ident (table_update env table record)"

definition Table_Upsert :: "db_env \<Rightarrow> 64 word \<Rightarrow> Table \<Rightarrow> gval \<Rightarrow> unit db_op" where
  "Table_Upsert env ident table record = runCallback env ident (table_upsert env table record)"

definition Table_DeleteByID :: "db_env \<Rightarrow> 64 word \<Rightarrow> Table \<Rightarrow> gval \<Rightarrow> unit db_op" where
  "Table_DeleteByID env ident table idValue =
     runCallback env ident (bindD (table_deleteByID env table idValue) (\<lambda>_. returnD ()))"

definition Table_Clear :: "db_env \<Rightarrow> 64 word \<Rightarrow> Table \<Rightarrow> unit db_op" where
  "Table_Clear env ident table = runCallback env ident (table_clear table)"

end
