(* ===== verification/TableLaws.thy ===== *)
theory TableLaws
  imports Tables
begin

text \<open>
  What a transaction sees of a table: the committed rows under its own changes. The operations of
  \<^verbatim>\<open>src/table.go\<close> act on this view as the operations of a finite map do; the one exception is
  \<open>FindByID\<close> on a key that was deleted and inserted again.
\<close>

section \<open>The view of a change set\<close>

definition view :: "TableChangeSet \<Rightarrow> (gval \<rightharpoonup> gval) \<Rightarrow> gval \<rightharpoonup> gval" where
  "view cs R k =
     (case map_of (Inserts cs) k of
        Some r \<Rightarrow> Some r
      | None \<Rightarrow> (case map_of (Updates cs) k of
          Some r \<Rightarrow> Some r
        | None \<Rightarrow> if Cleared cs \<or> k \<in> set (Deletes cs) then None else R k))"

definition txView :: "Table \<Rightarrow> (gval \<rightharpoonup> gval) \<Rightarrow> Transaction \<Rightarrow> gval \<rightharpoonup> gval" where
  "txView table R tx = view (GetTableChanges (tb_name table) tx) R"

text \<open>The invariant of a change set over the committed rows: a cleared table has no updates, no key is updated
  and inserted or updated and deleted, and an inserted key was not there before or is gone.\<close>

definition csOk :: "(gval \<rightharpoonup> gval) \<Rightarrow> TableChangeSet \<Rightarrow> bool" where
  "csOk R cs = ((Cleared cs \<longrightarrow> Updates cs = []) \<and> dom (map_of (Updates cs)) \<inter> set (Deletes cs) = {}
     \<and> dom (map_of (Updates cs)) \<inter> dom (map_of (Inserts cs)) = {}
     \<and> dom (map_of (Inserts cs)) \<inter> dom R \<subseteq> {k. Cleared cs \<or> k \<in> set (Deletes cs)})"

lemma NewTableChangeSet_ok [simp]: "csOk R NewTableChangeSet" "view NewTableChangeSet R = R"
  by (auto simp: csOk_def NewTableChangeSet_def view_def fun_eq_iff)

lemma view_insert:
  assumes "csOk R cs" "view cs R k = None"
  shows "view (cs\<lparr>Inserts := AList.update k r (Inserts cs)\<rparr>) R = (view cs R)(k \<mapsto> r)"
    and "csOk R (cs\<lparr>Inserts := AList.update k r (Inserts cs)\<rparr>)"
  using assms by (auto simp: view_def csOk_def fun_eq_iff update_conv' split: option.splits if_splits)

lemma view_update:
  assumes "csOk R cs" "view cs R k \<noteq> None"
  shows "view (if map_of (Inserts cs) k \<noteq> None then cs\<lparr>Inserts := AList.update k r (Inserts cs)\<rparr>
               else cs\<lparr>Updates := AList.update k r (Updates cs)\<rparr>) R = (view cs R)(k \<mapsto> r)" (is ?v)
    and "csOk R (if map_of (Inserts cs) k \<noteq> None then cs\<lparr>Inserts := AList.update k r (Inserts cs)\<rparr>
               else cs\<lparr>Updates := AList.update k r (Updates cs)\<rparr>)" (is ?c)
proof -
  show ?v by (auto simp: view_def fun_eq_iff update_conv' split: option.splits)
  show ?c
  proof (cases "map_of (Inserts cs) k")
    case None
    then have "map_of (Updates cs) k \<noteq> None \<or> (\<not> Cleared cs \<and> k \<notin> set (Deletes cs))"
      using assms(2) by (auto simp: view_def split: option.splits if_splits)
    then show ?thesis using None assms(1) by (auto simp: csOk_def update_conv')
  qed (use assms(1) in \<open>auto simp: csOk_def update_conv'\<close>)
qed

lemma view_delete:
  assumes "csOk R cs"
  shows "view (if map_of (Inserts cs) k \<noteq> None then cs\<lparr>Inserts := AList.delete k (Inserts cs)\<rparr>
     else cs\<lparr>Updates := AList.delete k (Updates cs), Deletes := List.insert k (Deletes cs)\<rparr>) R = (view cs R)(k := None)"
    and "csOk R (if map_of (Inserts cs) k \<noteq> None then cs\<lparr>Inserts := AList.delete k (Inserts cs)\<rparr>
     else cs\<lparr>Updates := AList.delete k (Updates cs), Deletes := List.insert k (Deletes cs)\<rparr>)"
  using assms by (auto simp: view_def csOk_def fun_eq_iff delete_conv' split: option.splits)

lemma view_clear:
  "view \<lparr>Cleared = True, Inserts = [], Updates = [], Deletes = []\<rparr> R = Map.empty"
  "csOk R \<lparr>Cleared = True, Inserts = [], Updates = [], Deletes = []\<rparr>"
  by (auto simp: view_def csOk_def fun_eq_iff)

text \<open>What the table operations look at in a transaction; the index changes are not among it.\<close>

definition core :: "Transaction \<Rightarrow> (string \<times> TableChangeSet) list \<times> bool \<times> DatabaseState" where
  "core tx = (TableChanges (changeSet tx), active tx, tx_committedState tx)"

lemma foldl_observe: "(\<And>x m. h (f x m) = h x) \<Longrightarrow> h (foldl f x ms) = h x"
  by (induction ms arbitrary: x) simp_all

lemma core_onIndexChanges [simp]: "core (onIndexChanges f tx) = core tx"
  by (simp add: core_def onIndexChanges_def)

lemma core_indexChanges [simp]:
  "core (addIndexChanges n k r tx) = core tx"
  "core (replaceIndexChanges env n k old r tx) = core tx"
  "core (removeIndexChanges n k old tx) = core tx"
  by (auto simp: addIndexChanges_def replaceIndexChanges_def removeIndexChanges_def Let_def split: option.split
      intro!: foldl_observe)

lemma GetTableChanges_core: "core tx' = core tx \<Longrightarrow> GetTableChanges n tx' = GetTableChanges n tx"
  by (simp add: core_def GetTableChanges_def)

lemma GetTableChanges_put [simp]: "GetTableChanges n (putTableChanges n cs tx) = cs"
  by (simp add: GetTableChanges_def putTableChanges_def update_conv')

lemma GetTableChanges_touch [simp]: "GetTableChanges n (touchTable n tx) = GetTableChanges n tx"
  by (simp add: touchTable_def)

text \<open>An active transaction on a committed state whose changes of the table keep the invariant.\<close>

definition txOk :: "Table \<Rightarrow> DatabaseState \<Rightarrow> (gval \<rightharpoonup> gval) \<Rightarrow> Transaction \<Rightarrow> bool" where
  "txOk table state R tx = (active tx \<and> tx_committedState tx = state \<and> csOk R (GetTableChanges (tb_name table) tx))"

lemma txOk_NewTransaction: "txOk table state R (NewTransaction ident state)" "txView table R (NewTransaction ident state) = R"
  by (simp_all add: txOk_def txView_def NewTransaction_def NewTransactionChangeSet_def GetTableChanges_def)

lemma txOkD:
  assumes "txOk table state R tx"
  shows "active tx" "tx_committedState tx = state" "csOk R (GetTableChanges (tb_name table) tx)"
  using assms by (simp_all add: txOk_def)

lemma txOk_touch [simp]:
  "txOk table state R (touchTable (tb_name table) tx) = txOk table state R tx"
  "txView table R (touchTable (tb_name table) tx) = txView table R tx"
  by (simp_all add: txOk_def txView_def) (simp add: touchTable_def putTableChanges_def)

lemma staged:
  assumes "core tx' = core (putTableChanges (tb_name table) cs tx)" "txOk table state R tx" "csOk R cs"
  shows "txOk table state R tx'" "txView table R tx' = view cs R"
  using assms GetTableChanges_core [OF assms(1), of "tb_name table"]
  by (simp_all add: txOk_def txView_def) (simp add: core_def putTableChanges_def)

lemma stage_view:
  assumes "txOk table state R tx"
  shows "txView table R tx k = None \<Longrightarrow> txOk table state R (stageInsert (tb_name table) k r tx)
      \<and> txView table R (stageInsert (tb_name table) k r tx) = (txView table R tx)(k \<mapsto> r)"
    and "txView table R tx k \<noteq> None \<Longrightarrow> txOk table state R (stageUpdate env (tb_name table) k old r tx)
      \<and> txView table R (stageUpdate env (tb_name table) k old r tx) = (txView table R tx)(k \<mapsto> r)"
    and "txOk table state R (stageDelete (tb_name table) k old tx)
      \<and> txView table R (stageDelete (tb_name table) k old tx) = (txView table R tx)(k := None)"
    and "txOk table state R (stageClear (tb_name table) tx)
      \<and> txView table R (stageClear (tb_name table) tx) = Map.empty"
proof -
  let ?n = "tb_name table"
  let ?cs = "GetTableChanges ?n tx"
  have ok: "csOk R ?cs" using assms by (simp add: txOk_def)
  note v = txView_def [of table R tx]
  show "txView table R tx k = None \<Longrightarrow> txOk table state R (stageInsert ?n k r tx)
      \<and> txView table R (stageInsert ?n k r tx) = (txView table R tx)(k \<mapsto> r)"
    using staged [OF _ assms view_insert(2) [OF ok], of "stageInsert ?n k r tx" k r] view_insert(1) [OF ok, of k r]
    by (simp add: v stageInsert_def Let_def)
  show "txView table R tx k \<noteq> None \<Longrightarrow> txOk table state R (stageUpdate env ?n k old r tx)
      \<and> txView table R (stageUpdate env ?n k old r tx) = (txView table R tx)(k \<mapsto> r)"
    using staged [OF _ assms view_update(2) [OF ok], of "stageUpdate env ?n k old r tx" k r] view_update(1) [OF ok, of k r]
    by (simp only: v stageUpdate_def Let_def core_indexChanges simp_thms)
  show "txOk table state R (stageDelete ?n k old tx)
      \<and> txView table R (stageDelete ?n k old tx) = (txView table R tx)(k := None)"
    using staged [OF _ assms view_delete(2) [OF ok], of "stageDelete ?n k old tx" k] view_delete(1) [OF ok, of k]
    by (simp only: v stageDelete_def Let_def core_indexChanges simp_thms)
  show "txOk table state R (stageClear ?n tx) \<and> txView table R (stageClear ?n tx) = Map.empty"
    using staged [OF _ assms view_clear(2), of "stageClear ?n tx"] view_clear(1) [of R] by (simp add: stageClear_def)
qed

section \<open>Calls on a table and on a map\<close>

datatype tableCall = CallInsert gval | CallUpdate gval | CallUpsert gval | CallDelete gval | CallClear

definition callTable :: "db_env \<Rightarrow> Table \<Rightarrow> tableCall \<Rightarrow> bool tx_op" where
  "callTable env table c =
     (case c of
        CallInsert r \<Rightarrow> bindD (table_insert env table r) (\<lambda>_. returnD True)
      | CallUpdate r \<Rightarrow> bindD (table_update env table r) (\<lambda>_. returnD True)
      | CallUpsert r \<Rightarrow> bindD (table_upsert env table r) (\<lambda>_. returnD True)
      | CallDelete k \<Rightarrow> table_deleteByID env table k
      | CallClear \<Rightarrow> bindD (table_clear table) (\<lambda>_. returnD True))"

text \<open>The same calls on a finite map: insertion refuses a key that is there, update one that is not.\<close>

definition callMap :: "tableCall \<Rightarrow> (gval \<rightharpoonup> gval) \<Rightarrow> bool res \<times> (gval \<rightharpoonup> gval)" where
  "callMap c m =
     (case c of
        CallInsert r \<Rightarrow> if m (getPrimaryKey r) = None then (Ok True, m(getPrimaryKey r \<mapsto> r))
                        else (Err (Errorf ''record already exists''), m)
      | CallUpdate r \<Rightarrow> if m (getPrimaryKey r) = None then (Err (Errorf ''record does not exist''), m)
                        else (Ok True, m(getPrimaryKey r \<mapsto> r))
      | CallUpsert r \<Rightarrow> (Ok True, m(getPrimaryKey r \<mapsto> r))
      | CallDelete k \<Rightarrow> (Ok (m k \<noteq> None), m(k := None))
      | CallClear \<Rightarrow> (Ok True, Map.empty))"

text \<open>A sequence of calls with all their results; the program may go on after an error.\<close>

fun runCalls :: "('c \<Rightarrow> 's \<Rightarrow> 'r \<times> 's) \<Rightarrow> 'c list \<Rightarrow> 's \<Rightarrow> 'r list \<times> 's" where
  "runCalls f [] s = ([], s)"
| "runCalls f (c # cs) s = (case f c s of (r, s1) \<Rightarrow> (case runCalls f cs s1 of (rs, s2) \<Rightarrow> (r # rs, s2)))"

text \<open>Well-typed calls: records of the table's key type, whose keys are among \<open>keys\<close>.\<close>

definition callOk :: "Table \<Rightarrow> gval set \<Rightarrow> tableCall \<Rightarrow> bool" where
  "callOk table keys c =
     (let recordOk = (\<lambda>r. typedKey table r = Ok (getPrimaryKey r) \<and> getPrimaryKey r \<in> keys) in
      case c of CallInsert r \<Rightarrow> recordOk r | CallUpdate r \<Rightarrow> recordOk r | CallUpsert r \<Rightarrow> recordOk r
      | CallDelete k \<Rightarrow> k \<in> keys | CallClear \<Rightarrow> True)"

section \<open>The interface of the committed rows\<close>

text \<open>The database, in a state that is \<open>good\<close>, answers lookups of the \<open>keys\<close> as the map \<open>R\<close> of rows.\<close>

locale committed_rows =
  fixes env :: db_env and table :: Table and state :: DatabaseState
    and good :: "Database \<Rightarrow> bool" and keys :: "gval set" and R :: "gval \<rightharpoonup> gval"
  assumes find_row: "good db \<Longrightarrow> k \<in> keys \<Longrightarrow> \<exists>db'. findCommitted env table state k db = (Ok (R k), db') \<and> good db'"
    and absent_row: "good db \<Longrightarrow> k \<in> keys \<Longrightarrow> R k = None \<Longrightarrow>
      \<exists>db'. committedPointer env state (tb_name table) k db = (Ok None, db') \<and> good db'"
    and present_row: "good db \<Longrightarrow> k \<in> keys \<Longrightarrow> R k = Some r \<Longrightarrow>
      \<exists>p db' db''. committedPointer env state (tb_name table) k db = (Ok (Some p), db') \<and> good db' \<and>
        readFromStorage env table p db' = (Ok r, db'') \<and> good db''"
begin

lemma keyExists_run:
  assumes "good db" "k \<in> keys" "txOk table state R tx"
  shows "\<exists>db'. keyExists env (tb_name table) k (tx, db) = (Ok (txView table R tx k \<noteq> None), (tx, db')) \<and> good db'"
proof -
  let ?cs = "GetTableChanges (tb_name table) tx"
  have st: "tx_committedState tx = state" using assms(3) by (simp add: txOk_def)
  consider "map_of (Inserts ?cs) k \<noteq> None \<or> map_of (Updates ?cs) k \<noteq> None \<or> Cleared ?cs \<or> k \<in> set (Deletes ?cs)"
    | "map_of (Inserts ?cs) k = None" "map_of (Updates ?cs) k = None" "\<not> Cleared ?cs" "k \<notin> set (Deletes ?cs)" by blast
  then show ?thesis
  proof cases
    case 1
    then show ?thesis using assms(1) by (auto simp: keyExists_def Let_def txView_def view_def split: option.splits)
  next
    case 2
    then have v: "txView table R tx k = R k" by (simp add: txView_def view_def)
    obtain p db' where "committedPointer env state (tb_name table) k db = (Ok p, db')" "good db'" "p \<noteq> None \<longleftrightarrow> R k \<noteq> None"
      using absent_row [OF assms(1,2)] present_row [OF assms(1,2)] by (cases "R k") fastforce+
    then show ?thesis using 2 v by (simp add: keyExists_def Let_def st inDatabase_def)
  qed
qed

lemma visibleRecord_run:
  assumes "good db" "k \<in> keys" "txOk table state R tx"
  shows "\<exists>db'. visibleRecord env table k (tx, db) = (Ok (txView table R tx k), (tx, db')) \<and> good db'"
proof -
  let ?cs = "GetTableChanges (tb_name table) tx"
  have st: "tx_committedState tx = state" using assms(3) by (simp add: txOk_def)
  consider "map_of (Inserts ?cs) k \<noteq> None \<or> map_of (Updates ?cs) k \<noteq> None \<or> Cleared ?cs \<or> k \<in> set (Deletes ?cs)"
    | "map_of (Inserts ?cs) k = None" "map_of (Updates ?cs) k = None" "\<not> Cleared ?cs" "k \<notin> set (Deletes ?cs)" by blast
  then show ?thesis
  proof cases
    case 1
    then show ?thesis using assms(1) by (auto simp: visibleRecord_def Let_def txView_def view_def split: option.splits)
  next
    case 2
    then have v: "txView table R tx k = R k" by (simp add: txView_def view_def)
    show ?thesis
    proof (cases "R k")
      case None
      then show ?thesis using absent_row [OF assms(1,2)] 2 v by (auto simp: visibleRecord_def Let_def st inDatabase_def)
    next
      case (Some r)
      obtain p db' db'' where "committedPointer env state (tb_name table) k db = (Ok (Some p), db')"
        "readFromStorage env table p db' = (Ok r, db'')" "good db''" using present_row [OF assms(1,2) Some] by blast
      then show ?thesis using 2 v Some by (simp add: visibleRecord_def Let_def st inDatabase_def)
    qed
  qed
qed

lemma insert_run:
  assumes "good db" "getPrimaryKey r \<in> keys" "typedKey table r = Ok (getPrimaryKey r)" "txOk table state R tx"
  shows "\<exists>tx' db'. callTable env table (CallInsert r) (tx, db) = (fst (callMap (CallInsert r) (txView table R tx)), (tx', db'))
    \<and> txView table R tx' = snd (callMap (CallInsert r) (txView table R tx)) \<and> txOk table state R tx' \<and> good db'"
proof -
  let ?k = "getPrimaryKey r" and ?tx = "touchTable (tb_name table) tx"
  have ok: "txOk table state R ?tx" and a: "active tx" using assms(4) txOkD(1) by simp_all
  obtain db' where db': "keyExists env (tb_name table) ?k (?tx, db) = (Ok (txView table R ?tx ?k \<noteq> None), (?tx, db'))" "good db'"
    using keyExists_run [OF assms(1,2) ok] by blast
  show ?thesis
    using db' ok a assms(3) stage_view(1) [OF ok, of ?k r]
    by (cases "txView table R tx ?k = None") (auto simp: callTable_def callMap_def table_insert_def modifyTx_def bindD_def)
qed

lemma update_run:
  assumes "good db" "getPrimaryKey r \<in> keys" "typedKey table r = Ok (getPrimaryKey r)" "txOk table state R tx"
  shows "\<exists>tx' db'. callTable env table (CallUpdate r) (tx, db) = (fst (callMap (CallUpdate r) (txView table R tx)), (tx', db'))
    \<and> txView table R tx' = snd (callMap (CallUpdate r) (txView table R tx)) \<and> txOk table state R tx' \<and> good db'"
proof -
  let ?k = "getPrimaryKey r" and ?tx = "touchTable (tb_name table) tx"
  have ok: "txOk table state R ?tx" and a: "active tx" using assms(4) txOkD(1) by simp_all
  obtain db' where db': "visibleRecord env table ?k (?tx, db) = (Ok (txView table R ?tx ?k), (?tx, db'))" "good db'"
    using visibleRecord_run [OF assms(1,2) ok] by blast
  show ?thesis
    using db' ok a assms(3) stage_view(2) [OF ok, of ?k env _ r]
    by (cases "txView table R tx ?k") (auto simp: callTable_def callMap_def table_update_def modifyTx_def bindD_def)
qed

lemma upsert_run:
  assumes "good db" "getPrimaryKey r \<in> keys" "typedKey table r = Ok (getPrimaryKey r)" "txOk table state R tx"
  shows "\<exists>tx' db'. callTable env table (CallUpsert r) (tx, db) = (fst (callMap (CallUpsert r) (txView table R tx)), (tx', db'))
    \<and> txView table R tx' = snd (callMap (CallUpsert r) (txView table R tx)) \<and> txOk table state R tx' \<and> good db'"
proof -
  let ?k = "getPrimaryKey r" and ?tx = "touchTable (tb_name table) tx"
  have ok: "txOk table state R ?tx" using assms(4) by simp
  obtain db' where db': "keyExists env (tb_name table) ?k (?tx, db) = (Ok (txView table R ?tx ?k \<noteq> None), (?tx, db'))" "good db'"
    using keyExists_run [OF assms(1,2) ok] by blast
  show ?thesis
  proof (cases "txView table R tx ?k = None")
    case True
    then have "callTable env table (CallUpsert r) (tx, db) = callTable env table (CallInsert r) (?tx, db')"
      using db'(1) assms(3) by (simp add: callTable_def table_upsert_def modifyTx_def bindD_def)
    then show ?thesis using insert_run [OF db'(2) assms(2,3) ok] True by (simp add: callMap_def)
  next
    case False
    then have "callTable env table (CallUpsert r) (tx, db) = callTable env table (CallUpdate r) (?tx, db')"
      using db'(1) assms(3) by (simp add: callTable_def table_upsert_def modifyTx_def bindD_def)
    then show ?thesis using update_run [OF db'(2) assms(2,3) ok] False by (auto simp: callMap_def)
  qed
qed

lemma delete_run:
  assumes "good db" "k \<in> keys" "txOk table state R tx"
  shows "\<exists>tx' db'. callTable env table (CallDelete k) (tx, db) = (fst (callMap (CallDelete k) (txView table R tx)), (tx', db'))
    \<and> txView table R tx' = snd (callMap (CallDelete k) (txView table R tx)) \<and> txOk table state R tx' \<and> good db'"
proof -
  let ?tx = "touchTable (tb_name table) tx"
  have ok: "txOk table state R ?tx" and a: "active tx" using assms(3) txOkD(1) by simp_all
  obtain db' where db': "visibleRecord env table k (?tx, db) = (Ok (txView table R ?tx k), (?tx, db'))" "good db'"
    using visibleRecord_run [OF assms(1,2) ok] by blast
  show ?thesis
    using db' ok a stage_view(3) [OF ok, of k]
    by (cases "txView table R tx k") (auto simp: callTable_def callMap_def table_deleteByID_def modifyTx_def bindD_def fun_eq_iff)
qed

lemma call_run:
  assumes "good db" "callOk table keys c" "txOk table state R tx"
  shows "\<exists>tx' db'. callTable env table c (tx, db) = (fst (callMap c (txView table R tx)), (tx', db'))
    \<and> txView table R tx' = snd (callMap c (txView table R tx)) \<and> txOk table state R tx' \<and> good db'"
proof (cases c)
  case CallClear
  then show ?thesis using assms stage_view(4) [OF assms(3)]
    by (auto simp: callTable_def callMap_def table_clear_def modifyTx_def bindD_def txOk_def)
qed (use insert_run update_run upsert_run delete_run assms in \<open>simp_all add: callOk_def Let_def\<close>)

lemma calls_run:
  assumes "good db" "list_all (callOk table keys) cs" "txOk table state R tx"
  shows "\<exists>tx' db'. runCalls (callTable env table) cs (tx, db) = (fst (runCalls callMap cs (txView table R tx)), (tx', db'))
    \<and> txView table R tx' = snd (runCalls callMap cs (txView table R tx)) \<and> txOk table state R tx' \<and> good db'"
  using assms
proof (induction cs arbitrary: tx db)
  case (Cons c cs)
  obtain tx1 db1 where one: "callTable env table c (tx, db) = (fst (callMap c (txView table R tx)), (tx1, db1))"
    "txView table R tx1 = snd (callMap c (txView table R tx))" "txOk table state R tx1" "good db1"
    using call_run [OF Cons.prems(1) _ Cons.prems(3), of c] Cons.prems(2) by auto
  obtain tx' db' where "runCalls (callTable env table) cs (tx1, db1) = (fst (runCalls callMap cs (txView table R tx1)), (tx', db'))"
    "txView table R tx' = snd (runCalls callMap cs (txView table R tx1))" "txOk table state R tx'" "good db'"
    using Cons.IH [OF one(4) _ one(3)] Cons.prems(2) by auto
  then show ?case using one by (auto split: prod.split)
qed auto

text \<open>A lookup by key does not look at the insertions behind a deletion.\<close>

lemma FindByID_run:
  assumes "good db" "k \<in> keys" "txOk table state R tx"
  shows "\<exists>tx' db'. FindByID env table k (tx, db) =
      (Ok (if \<not> Cleared (GetTableChanges (tb_name table) tx) \<and> k \<in> set (Deletes (GetTableChanges (tb_name table) tx)) then None
           else txView table R tx k), (tx', db')) \<and> txView table R tx' = txView table R tx \<and> txOk table state R tx' \<and> good db'"
proof -
  let ?tx = "touchTable (tb_name table) tx" and ?cs = "GetTableChanges (tb_name table) tx"
  have ok: "txOk table state R ?tx" and a: "active tx" and cs: "csOk R ?cs" using assms(3) txOkD by simp_all
  have st: "tx_committedState ?tx = state" using txOkD(2) [OF ok] .
  have up: "map_of (Updates ?cs) k = None" if "Cleared ?cs" using cs that by (simp add: csOk_def)
  obtain db' where db': "findCommitted env table state k db = (Ok (R k), db')" "good db'" using find_row [OF assms(1,2)] by blast
  show ?thesis
    using a db' assms(1) up ok assms(3)
    by (auto simp: FindByID_def modifyTx_def bindD_def Let_def st inDatabase_def txView_def view_def
        split: option.split)
qed

lemma reinsert_run:
  assumes g: "good db" and k: "k \<in> keys" "R k = Some old" and r: "getPrimaryKey r = k" "typedKey table r = Ok k"
    and tx: "txOk table state R tx" "GetTableChanges (tb_name table) tx = NewTableChangeSet"
  shows "\<exists>tx' tx'' db' db''. runCalls (callTable env table) [CallDelete k, CallInsert r] (tx, db) = ([Ok True, Ok True], (tx', db'))
    \<and> txView table R tx' k = Some r \<and> FindByID env table k (tx', db') = (Ok None, (tx'', db''))"
proof -
  let ?n = "tb_name table"
  let ?t = "touchTable ?n tx"
  let ?u = "stageDelete ?n k old ?t"
  let ?v = "stageInsert ?n k r (touchTable ?n ?u)"
  have ok: "txOk table state R ?t" "active tx" using tx(1) txOkD by simp_all
  have vw: "txView table R ?t k = Some old" using tx(2) k(2) by (simp add: txView_def)
  obtain db1 where db1: "visibleRecord env table k (?t, db) = (Ok (Some old), (?t, db1))" "good db1"
    using visibleRecord_run [OF g k(1) ok(1)] vw by auto
  have u: "txOk table state R ?u" "txView table R ?u k = None" using stage_view(3) [OF ok(1), of k old] by simp_all
  have cu: "Deletes (GetTableChanges ?n ?u) = [k]" "\<not> Cleared (GetTableChanges ?n ?u)"
    using GetTableChanges_core [of ?u "putTableChanges ?n _ ?t"] tx(2)
    by (simp_all add: stageDelete_def Let_def NewTableChangeSet_def)
  have tu: "txOk table state R (touchTable ?n ?u)" "txView table R (touchTable ?n ?u) k = None" using u by simp_all
  obtain db2 where db2: "keyExists env ?n k (touchTable ?n ?u, db1) = (Ok False, (touchTable ?n ?u, db2))" "good db2"
    using keyExists_run [OF db1(2) k(1) tu(1)] tu(2) by auto
  have v: "txOk table state R ?v" "txView table R ?v k = Some r" using stage_view(1) [OF tu(1), of k r] tu(2) by simp_all
  have cv: "Deletes (GetTableChanges ?n ?v) = [k]" "\<not> Cleared (GetTableChanges ?n ?v)"
    using GetTableChanges_core [of ?v "putTableChanges ?n _ (touchTable ?n ?u)"] cu by (simp_all add: stageInsert_def Let_def)
  have "callTable env table (CallDelete k) (tx, db) = (Ok True, (?u, db1))"
    using db1(1) ok(2) by (simp add: callTable_def table_deleteByID_def modifyTx_def bindD_def)
  moreover have "callTable env table (CallInsert r) (?u, db1) = (Ok True, (?v, db2))"
    using db2(1) txOkD(1) [OF u(1)] r by (simp add: callTable_def table_insert_def modifyTx_def bindD_def)
  ultimately have "runCalls (callTable env table) [CallDelete k, CallInsert r] (tx, db) = ([Ok True, Ok True], (?v, db2))" by simp
  then show ?thesis using FindByID_run [OF db2(2) k(1) v(1)] v(2) cv by auto
qed

end

end
