(* ===== verification/WalLaws.thy ===== *)
theory WalLaws
  imports Wal
begin

text \<open>
  The laws of the log: records are self-delimiting and read back in order, reading accepts
  nothing that was not written, a log cut in the middle of its last record loses that record
  only, and a batch of tasks puts a commit marker behind exactly the tasks whose mutations and
  table appends are complete.
\<close>

section \<open>Reading what was written\<close>

lemma bit_foldl_be_step:
  fixes a :: "'a::len word"
  shows "8 * length bs + i < LENGTH('a) \<Longrightarrow> bit (foldl be_step a bs) (8 * length bs + i) = bit a i"
proof (induction bs arbitrary: a i)
  case (Cons b bs)
  have "bit (foldl be_step (be_step a b) bs) (8 * length bs + (i + 8)) = bit (be_step a b) (i + 8)"
    using Cons.prems by (intro Cons.IH) simp
  also have "\<dots> = bit a i"
    using Cons.prems bit_imp_le_length [of b "i + 8"] by (auto simp: be_step_def bit_simps)
  finally show ?case by (simp add: algebra_simps)
qed simp

lemma be_put_foldl:
  fixes a :: "'a::len word"
  shows "8 * length bs \<le> LENGTH('a) \<Longrightarrow> be_put (length bs) (foldl be_step a bs) = bs"
proof (induction bs arbitrary: a)
  case (Cons b bs)
  let ?w = "foldl be_step (be_step a b) bs"
  have "ucast (drop_bit (8 * length bs) ?w) = b"
  proof (rule bit_word_eqI)
    fix i assume i: "i < LENGTH(8)"
    then have "bit ?w (8 * length bs + i) = bit (be_step a b) i"
      using Cons.prems by (intro bit_foldl_be_step) simp
    then show "bit (ucast (drop_bit (8 * length bs) ?w) :: byte) i = bit b i"
      using i Cons.prems by (auto simp: bit_simps be_step_def)
  qed
  then show ?case using Cons by simp
qed simp

lemma be_put_get: "8 * length bs = LENGTH('a) \<Longrightarrow> be_put (length bs) (be_get bs :: 'a::len word) = bs"
  by (simp add: be_get_def be_put_foldl)

lemma readInt32_put: "readInt32 r = Ok (w, r') \<Longrightarrow> r = PutUint32 w @ r'"
proof -
  assume "readInt32 r = Ok (w, r')"
  then have "length (take 4 r) = 4" "w = Uint32 (take 4 r)" "r' = drop 4 r"
    by (auto simp: readInt32_def readFull_def split: if_splits)
  then show ?thesis using be_put_get [of "take 4 r", where 'a = 32] by (simp add: append_take_drop_id)
qed

lemma readInt64_put: "readInt64 r = Ok (w, r') \<Longrightarrow> r = PutUint64 w @ r'"
proof -
  assume "readInt64 r = Ok (w, r')"
  then have "length (take 8 r) = 8" "w = Uint64 (take 8 r)" "r' = drop 8 r"
    by (auto simp: readInt64_def readFull_def split: if_splits)
  then show ?thesis using be_put_get [of "take 8 r", where 'a = 64] by (simp add: append_take_drop_id)
qed

lemma readByte_put: "readByte r = Ok (b, r') \<Longrightarrow> r = b # r'"
  by (auto simp: readByte_def split: list.splits)

definition validRecord :: "WalRecord \<Rightarrow> bool" where
  "validRecord rec = (int (length (wr_Payload rec)) \<le> maxPayload)"

lemma opByte_le: "opByte op \<le> 11"
  by (cases op) (simp_all add: opByte_def)

lemma opOfByte_opByte [simp]: "opOfByte (opByte op) = op"
  by (cases op) (simp_all add: opByte_def opOfByte_def)

lemma opByte_opOfByte: "b \<le> 11 \<Longrightarrow> opByte (opOfByte b) = b"
proof -
  assume "b \<le> 11"
  then have "unat b \<in> set [0..<12]" by (simp add: word_le_nat_alt)
  moreover have "list_all (\<lambda>n. opByte (opOfByte (of_nat n)) = of_nat n) [0..<12]" by code_simp
  ultimately have "opByte (opOfByte (of_nat (unat b))) = of_nat (unat b)" unfolding list_all_iff by blast
  then show ?thesis by simp
qed

lemma readRecord_write:
  assumes "validRecord rec"
  shows "readRecord fileSize (writeRecordToBuffer rec @ rest) = Next rec rest"
proof -
  have len: "sint (of_nat (length (wr_Payload rec)) :: 32 word) = int (length (wr_Payload rec))"
    using assms by (intro sint_of_nat32) (simp add: validRecord_def maxPayload_def)
  have "readPayload fileSize (opByte (wr_Type rec)) (wr_TransactionID rec) (wr_Generation rec)
      (of_nat (length (wr_Payload rec))) (walChecksum (opByte (wr_Type rec)) (wr_TransactionID rec)
        (wr_Generation rec) (wr_Payload rec)) (wr_Payload rec @ rest) = Next rec rest"
    using assms len by (simp add: readPayload_def validRecord_def)
  then show ?thesis
    using opByte_le [of "wr_Type rec"]
    by (simp add: readRecord_def writeRecordToBuffer_def Let_def linorder_not_less [symmetric])
qed

lemma readRecord_sound:
  assumes "readRecord fileSize r = Next rec rest"
  shows "r = writeRecordToBuffer rec @ rest" "validRecord rec"
proof -
  from assms obtain r1 t r2 tx r3 gn r4 pl r5 cs r6
    where r: "readInt32 r = Ok (WalMagic, r1)" "readByte r1 = Ok (t, r2)" "\<not> t > 11"
      "readInt64 r2 = Ok (tx, r3)" "readInt64 r3 = Ok (gn, r4)" "readInt32 r4 = Ok (pl, r5)"
      "readInt32 r5 = Ok (cs, r6)" "readPayload fileSize t tx gn pl cs r6 = Next rec rest"
    by (auto simp: readRecord_def split: res.splits if_splits prod.splits)
  from r(8) have p: "0 \<le> sint pl" "sint pl \<le> maxPayload" "sint pl \<le> int (length r6)"
    and c: "walChecksum t tx gn (take (nat (sint pl)) r6) = cs"
    and rec: "rec = \<lparr>wr_Type = opOfByte t, wr_TransactionID = tx, wr_Generation = gn,
                     wr_Payload = take (nat (sint pl)) r6\<rparr>"
    and rest: "rest = drop (nat (sint pl)) r6"
    by (auto simp: readPayload_def Let_def split: if_splits)
  have len: "length (take (nat (sint pl)) r6) = nat (sint pl)" using p by simp
  have pl: "of_nat (nat (sint pl)) = pl" using p by simp
  have min: "min (length r6) (nat (sint pl)) = nat (sint pl)" using p by simp
  show "validRecord rec" using p len by (simp add: rec validRecord_def)
  have "opByte (opOfByte t) = t" using r(3) by (intro opByte_opOfByte) simp
  then show "r = writeRecordToBuffer rec @ rest"
    using readInt32_put [OF r(1)] readByte_put [OF r(2)] readInt64_put [OF r(4)] readInt64_put [OF r(5)]
      readInt32_put [OF r(6)] readInt32_put [OF r(7)]
    unfolding writeRecordToBuffer_def Let_def rec
    by (simp add: c pl rest min pl del: of_nat_nat)
qed


text \<open>A log record is self-delimiting.\<close>

definition walGet :: "bytes \<Rightarrow> (WalRecord \<times> bytes) res" where
  "walGet bs = (case readRecord (length bs) bs of Next rec rest \<Rightarrow> Ok (rec, rest) | Fail e p \<Rightarrow> Err e | Stop p \<Rightarrow> Err IoEOF)"

interpretation wal_codec: stream_codec writeRecordToBuffer walGet validRecord
  by unfold_locales (simp add: walGet_def readRecord_write)

definition walBytes :: "WalRecord list \<Rightarrow> bytes" where
  "walBytes recs = concat (map writeRecordToBuffer recs)"

lemma walBytes_simps [simp]:
  "walBytes [] = []" "walBytes (rec # recs) = writeRecordToBuffer rec @ walBytes recs"
  "walBytes (xs @ ys) = walBytes xs @ walBytes ys"
  by (simp_all add: walBytes_def)

lemma readRecords_write:
  "list_all validRecord recs \<Longrightarrow>
   readRecords fileSize (walBytes recs @ tail) acc = readRecords fileSize tail (acc @ recs)"
proof (induction recs arbitrary: acc)
  case (Cons rec recs)
  then show ?case by (subst readRecords.simps) (simp add: readRecord_write)
qed simp

lemma readRecords_sound:
  "readRecords fileSize r acc = (Ok recs, pos) \<Longrightarrow>
   \<exists>new rest. recs = acc @ new \<and> r = walBytes new @ rest \<and> list_all validRecord new"
proof (induction fileSize r acc rule: readRecords.induct)
  case (1 fileSize r acc)
  show ?case
  proof (cases "readRecord fileSize r")
    case (Next rec r')
    then have "readRecords fileSize r' (acc @ [rec]) = (Ok recs, pos)"
      using "1.prems" by (subst (asm) readRecords.simps) simp
    then obtain new rest where "recs = (acc @ [rec]) @ new" "r' = walBytes new @ rest" "list_all validRecord new"
      using "1.IH" [OF Next] by blast
    then show ?thesis using readRecord_sound [OF Next] by (intro exI [of _ "rec # new"] exI [of _ rest]) simp
  qed (use "1.prems" in \<open>subst (asm) readRecords.simps, auto\<close>)+
qed

section \<open>Torn tails\<close>

lemma readFull_take:
  "readFull k (take n bs) = (if k \<le> min n (length bs) then Ok (take k bs, take (n - k) (drop k bs))
     else Err (if min n (length bs) = 0 then IoEOF else IoErrUnexpectedEOF))"
  by (auto simp: readFull_def min_def drop_take)

lemma readInt32_take:
  "readInt32 (take n (PutUint32 w @ r)) = (if 4 \<le> n then Ok (w, take (n - 4) r)
     else Err (if n = 0 then IoEOF else IoErrUnexpectedEOF))"
  by (auto simp: readInt32_def readFull_take)

lemma readInt64_take:
  "readInt64 (take n (PutUint64 w @ r)) = (if 8 \<le> n then Ok (w, take (n - 8) r)
     else Err (if n = 0 then IoEOF else IoErrUnexpectedEOF))"
  by (auto simp: readInt64_def readFull_take)

lemma readByte_take: "readByte (take n (b # r)) = (if n = 0 then Err IoEOF else Ok (b, take (n - 1) r))"
  by (cases n) (auto simp: readByte_def)

lemma readRecord_torn:
  assumes "validRecord rec" "n < length (writeRecordToBuffer rec)"
  shows "if 1 \<le> n \<and> n \<le> 3 then readRecord fileSize (take n (writeRecordToBuffer rec)) = Fail IoErrUnexpectedEOF fileSize
     else \<exists>pos. readRecord fileSize (take n (writeRecordToBuffer rec)) = Stop pos"
proof -
  have len: "sint (of_nat (length (wr_Payload rec)) :: 32 word) = int (length (wr_Payload rec))"
    using assms by (intro sint_of_nat32) (simp add: validRecord_def maxPayload_def)
  have "n < 29 + length (wr_Payload rec)" using assms(2) by (simp add: writeRecordToBuffer_def Let_def)
  then have pay: "readPayload fs t tx gn (of_nat (length (wr_Payload rec))) cs (take (n - 29) (wr_Payload rec))
     = Stop (fs - length (take (n - 29) (wr_Payload rec)))" if "29 \<le> n" for fs t tx gn cs
    using assms(1) len that by (auto simp: readPayload_def validRecord_def)
  show ?thesis
    using opByte_le [of "wr_Type rec"] pay
    by (auto simp: readRecord_def writeRecordToBuffer_def Let_def readInt32_take readInt64_take readByte_take
        linorder_not_less [symmetric] simp del: take_append)
qed


section \<open>The resolver's contract\<close>

text \<open>What \<open>processTasks\<close> relies on: the storage handed out is the open one of that table, the
  others are left alone, and a storage opened on the way is a usable file of less than 2^62
  bytes.\<close>

definition freshStorage :: "TableStorage \<Rightarrow> bool" where
  "freshStorage ts = (storage_ok ts \<and> sint (currentSize ts) \<le> 2 ^ 62)"

text \<open>\<open>storesOK used st\<close>: every open storage is usable and has grown by at most \<open>used\<close> bytes
  beyond 2^62, so that batches of together less than 2^62 bytes fit.\<close>

definition storesOK :: "int \<Rightarrow> stores \<Rightarrow> bool" where
  "storesOK used st = (\<forall>m t. st m = Some t \<longrightarrow> storage_ok t \<and> sint (currentSize t) \<le> 2 ^ 62 + used)"

definition appendSize :: "(string \<times> bytes list) list \<Rightarrow> int" where
  "appendSize as = sum_list (map (\<lambda>a. int (length (concat (snd a)))) as)"

definition readableAppends :: "(string \<times> bytes list) list \<Rightarrow> bool" where
  "readableAppends as = list_all (\<lambda>a. list_all (\<lambda>b. int (length b) \<le> maxRecordSize) (snd a)) as"

text \<open>\<open>inStores st a p\<close>: the pointers \<open>p\<close> of a table's batch \<open>a\<close> read back as its records.\<close>

definition inStores :: "stores \<Rightarrow> string \<times> bytes list \<Rightarrow> string \<times> RecordPointer list \<Rightarrow> bool" where
  "inStores st a p = (fst p = fst a \<and> (\<exists>ts. st (fst a) = Some ts \<and> list_all2 (stored ts) (snd p) (snd a)))"

definition keepsStored :: "stores \<Rightarrow> stores \<Rightarrow> bool" where
  "keepsStored st st' = (\<forall>m ts p b. st m = Some ts \<longrightarrow> stored ts p b \<longrightarrow> (\<exists>ts'. st' m = Some ts' \<and> stored ts' p b))"

lemma keepsStored_refl [simp]: "keepsStored st st"
  by (auto simp: keepsStored_def)

lemma keepsStored_trans: "keepsStored a b \<Longrightarrow> keepsStored b c \<Longrightarrow> keepsStored a c"
  unfolding keepsStored_def by meson

lemma inStores_keeps:
  assumes "inStores st a p" "keepsStored st st'" "\<And>m ts. st m = Some ts \<Longrightarrow> st' m \<noteq> None"
  shows "inStores st' a p"
proof -
  obtain ts where ts: "st (fst a) = Some ts" "list_all2 (stored ts) (snd p) (snd a)" "fst p = fst a"
    using assms(1) by (auto simp: inStores_def)
  obtain ts' where ts': "st' (fst a) = Some ts'" using assms(3) [OF ts(1)] by auto
  have "stored ts' q b" if "stored ts q b" for q b
    using assms(2) ts(1) that ts' by (fastforce simp: keepsStored_def)
  then have "list_all2 (stored ts') (snd p) (snd a)" using ts(2) by (rule list_all2_mono [rotated])
  then show ?thesis using ts ts' by (auto simp: inStores_def)
qed

lemma storesOK_mono: "storesOK u st \<Longrightarrow> u \<le> v \<Longrightarrow> storesOK v st"
  by (fastforce simp: storesOK_def)

lemma appendSize_nonneg: "0 \<le> appendSize as"
  by (induction as) (auto simp: appendSize_def)

lemma appendSize_Cons [simp]: "appendSize (a # as) = int (length (concat (snd a))) + appendSize as"
  by (simp add: appendSize_def)

definition tasksSize :: "WriteTask list \<Rightarrow> int" where
  "tasksSize tasks = sum_list (map (\<lambda>t. appendSize (TableAppends t)) tasks)"

lemma tasksSize_Cons [simp]: "tasksSize (t # tasks) = appendSize (TableAppends t) + tasksSize tasks"
  by (simp add: tasksSize_def)

lemma tasksSize_nonneg: "0 \<le> tasksSize tasks"
  by (induction tasks) (auto simp: tasksSize_def intro: add_nonneg_nonneg appendSize_nonneg)

definition extends :: "stores \<Rightarrow> stores \<Rightarrow> bool" where
  "extends st st' = (keepsStored st st' \<and> dom st \<subseteq> dom st')"

lemma extends_refl [simp]: "extends st st"
  by (simp add: extends_def)

lemma extends_trans: "extends a b \<Longrightarrow> extends b c \<Longrightarrow> extends a c"
  by (auto simp: extends_def intro: keepsStored_trans)

lemma inStores_extends: "inStores st a p \<Longrightarrow> extends st st' \<Longrightarrow> inStores st' a p"
  by (rule inStores_keeps) (auto simp: extends_def)

locale table_resolver =
  fixes tableStorage :: resolver
  assumes resolves: "tableStorage n st = Inr (ts, st') \<Longrightarrow> st' n = Some ts"
    and keeps_others: "tableStorage n st = Inr (ts, st') \<Longrightarrow> st m = Some t \<Longrightarrow> st' m = Some t"
    and opens_fresh: "tableStorage n st = Inr (ts, st') \<Longrightarrow> st' m = Some t \<Longrightarrow> st m = Some t \<or> freshStorage t"
begin

text \<open>One append through the resolver.\<close>

lemma append_step:
  assumes ok: "storesOK used st" and r: "tableStorage n st = Inr (ts, st1)"
    and size: "0 \<le> used" "used + int (length (concat recs)) < 2 ^ 62" "list_all (\<lambda>b. int (length b) \<le> maxRecordSize) recs"
    and a: "AppendRecords recs out ts = (res, ts')"
  shows "storesOK (used + int (length (concat recs))) (st1(n \<mapsto> ts'))"
    and "keepsStored st (st1(n \<mapsto> ts'))"
    and "res = Ok ps \<Longrightarrow> list_all2 (stored ts') ps recs"
    and "dom st \<subseteq> dom (st1(n \<mapsto> ts'))"
proof -
  have st1: "storage_ok t \<and> sint (currentSize t) \<le> 2 ^ 62 + used" if "st1 m = Some t" for m t
    using opens_fresh [OF r that] ok size(1) by (auto simp: storesOK_def freshStorage_def)
  have ts: "storage_ok ts" "sint (currentSize ts) \<le> 2 ^ 62 + used" using st1 resolves [OF r] by auto
  have fit: "fits ts recs" using ts size by (simp add: fits_def)
  note c = AppendRecords_cases [OF ts(1) fit, of out, unfolded a snd_conv fst_conv]
  have grow: "sint (currentSize ts') \<le> sint (currentSize ts) + int (length (concat recs))"
  proof (cases res)
    case (Ok ps)
    then show ?thesis using c(4) [of ps] by simp
  qed (use a ts(1) in \<open>auto simp: AppendRecords_def Let_def storage_ok_def split: prod.splits res.splits if_splits\<close>)
  show "storesOK (used + int (length (concat recs))) (st1(n \<mapsto> ts'))"
    unfolding storesOK_def
  proof (intro allI impI)
    fix m t assume "(st1(n \<mapsto> ts')) m = Some t"
    then show "storage_ok t \<and> sint (currentSize t) \<le> 2 ^ 62 + (used + int (length (concat recs)))"
      using st1 [of m t] c(1) grow ts(2) by (auto split: if_splits)
  qed
  show "keepsStored st (st1(n \<mapsto> ts'))"
    unfolding keepsStored_def
  proof (intro allI impI)
    fix m t p b assume m: "st m = Some t" "stored t p b"
    have m1: "st1 m = Some t" using keeps_others [OF r m(1)] .
    show "\<exists>u. (st1(n \<mapsto> ts')) m = Some u \<and> stored u p b"
    proof (cases "m = n")
      case True
      then have "stored ts p b" using m m1 resolves [OF r] by simp
      then have "stored ts' p b" using table_store.append_keeps [OF _ fit, of p b out] a by simp
      then show ?thesis using True by simp
    qed (use m m1 in auto)
  qed
  show "list_all2 (stored ts') ps recs" if "res = Ok ps"
    using table_store.append_holds [OF ts(1) fit] a that by simp
  show "dom st \<subseteq> dom (st1(n \<mapsto> ts'))" using keeps_others [OF r] by fastforce
qed

lemma appendTables_spec:
  assumes "appendTables tableStorage out as pm modified st = (res, modified', st')"
    and "storesOK used st" "0 \<le> used" "used + appendSize as < 2 ^ 62" "readableAppends as"
  shows "storesOK (used + appendSize as) st' \<and> extends st st' \<and>
    (\<forall>pm'. res = Ok pm' \<longrightarrow> (\<exists>ps. pm' = pm @ ps \<and> list_all2 (inStores st') as ps))"
  using assms
proof (induction as arbitrary: pm modified st used)
  case (Cons a as)
  obtain n recs where a: "a = (n, recs)" by (cases a)
  have sizes: "used + int (length (concat recs)) < 2 ^ 62" "list_all (\<lambda>b. int (length b) \<le> maxRecordSize) recs"
    using Cons.prems(4,5) appendSize_nonneg [of as] a by (auto simp: readableAppends_def)
  show ?case
  proof (cases "tableStorage n st")
    case (Inl e)
    then show ?thesis using Cons.prems a storesOK_mono [OF Cons.prems(2)] appendSize_nonneg [of as] by auto
  next
    case (Inr x)
    obtain ts st1 where x: "x = (ts, st1)" by (cases x)
    obtain r ts' where ap: "AppendRecords recs (out n) ts = (r, ts')" by (cases "AppendRecords recs (out n) ts")
    note r = Inr [unfolded x]
    note step = append_step [OF Cons.prems(2) r Cons.prems(3) sizes ap]
    have ext: "extends st (st1(n \<mapsto> ts'))" using step(2,4) by (simp add: extends_def)
    show ?thesis
    proof (cases r)
      case (Ok ps0)
      then have rest: "appendTables tableStorage out as (pm @ [(n, ps0)]) (List.insert n modified) (st1(n \<mapsto> ts'))
          = (res, modified', st')"
        using Cons.prems(1) a r ap by simp
      have IH: "storesOK (used + int (length (concat recs)) + appendSize as) st' \<and> extends (st1(n \<mapsto> ts')) st' \<and>
          (\<forall>pm'. res = Ok pm' \<longrightarrow> (\<exists>ps. pm' = (pm @ [(n, ps0)]) @ ps \<and> list_all2 (inStores st') as ps))"
        using Cons.prems(3-5) a by (intro Cons.IH [OF rest step(1)]) (auto simp: readableAppends_def)
      have "inStores (st1(n \<mapsto> ts')) a (n, ps0)" using step(3) [OF Ok] a by (simp add: inStores_def)
      then have "inStores st' a (n, ps0)" using IH inStores_extends by blast
      then show ?thesis using IH extends_trans [OF ext] a by (auto simp: algebra_simps)
    qed (use Cons.prems(1) a r ap ext step(1) appendSize_nonneg [of as] in
        \<open>auto intro: storesOK_mono\<close>)
  qed
qed (auto simp: appendSize_def)

lemma appendTasks_spec:
  assumes "appendTasks tableStorage out index tasks modified st = (rs, modified', st')"
    and "storesOK used st" "0 \<le> used" "used + tasksSize tasks < 2 ^ 62"
    and "list_all (\<lambda>t. readableAppends (TableAppends t)) tasks"
  shows "extends st st' \<and>
    list_all2 (\<lambda>t r. \<forall>pm. r = Ok pm \<longrightarrow> list_all2 (inStores st') (TableAppends t) pm) tasks rs"
  using assms
proof (induction tasks arbitrary: index modified st used rs)
  case (Cons t tasks)
  note nonneg = tasksSize_nonneg [of tasks]
  obtain r modified1 st1 where one: "appendTables tableStorage (out index) (TableAppends t) [] modified st = (r, modified1, st1)"
    by (cases "appendTables tableStorage (out index) (TableAppends t) [] modified st") auto
  obtain rs1 where rest: "appendTasks tableStorage out (Suc index) tasks modified1 st1 = (rs1, modified', st')" "rs = r # rs1"
    using Cons.prems(1) one by (auto split: prod.splits)
  have s: "storesOK (used + appendSize (TableAppends t)) st1 \<and> extends st st1 \<and>
      (\<forall>pm'. r = Ok pm' \<longrightarrow> (\<exists>ps. pm' = [] @ ps \<and> list_all2 (inStores st1) (TableAppends t) ps))"
    using Cons.prems nonneg by (intro appendTables_spec [OF one]) auto
  have IH: "extends st1 st' \<and>
      list_all2 (\<lambda>t r. \<forall>pm. r = Ok pm \<longrightarrow> list_all2 (inStores st') (TableAppends t) pm) tasks rs1"
    using Cons.prems s appendSize_nonneg [of "TableAppends t"]
    by (intro Cons.IH [OF rest(1), of "used + appendSize (TableAppends t)"]) auto
  have "list_all2 (inStores st') (TableAppends t) pm" if "r = Ok pm" for pm
    using s that IH by (auto elim!: list_all2_mono intro: inStores_extends)
  then show ?case using IH s rest(2) by (auto intro: extends_trans)
qed simp

end

text \<open>The database's resolver keeps the contract, on table files of at most 2^62 bytes.\<close>

lemma NewTableStorage_fresh:
  assumes "NewTableStorage directory n f io = Ok ts" "\<forall>b. f = Some b \<longrightarrow> int (length b) \<le> 2 ^ 62"
  shows "freshStorage ts"
proof -
  have s: "sint (of_nat (length b) :: 64 word) = int (length b)" if "int (length b) \<le> 2 ^ 62" for b :: bytes
    using sint64_add_nat [of 0 "length b"] that by simp
  show ?thesis
    using assms s by (auto simp: NewTableStorage_def Let_def freshStorage_def storage_ok_def
        split: if_splits option.splits)
qed

lemma getTableStorage_resolver:
  assumes "\<And>n b. files n = Some b \<Longrightarrow> int (length b) \<le> 2 ^ 62"
  shows "table_resolver (getTableStorage closed directory files io)"
proof
  fix n st ts st' m t
  assume r: "getTableStorage closed directory files io n st = Inr (ts, st')"
  show "st' n = Some ts"
    using r by (auto simp: getTableStorage_def split: if_splits option.splits res.splits)
  show "st' m = Some t" if "st m = Some t"
    using r that by (auto simp: getTableStorage_def split: if_splits option.splits res.splits)
  show "st m = Some t \<or> freshStorage t" if "st' m = Some t"
    using r that NewTableStorage_fresh [of directory n "files n" "io n"] assms
    by (auto simp: getTableStorage_def split: if_splits option.splits res.splits)
qed

text \<open>In particular on a directory with no table files yet.\<close>

interpretation new_tables: table_resolver "getTableStorage closed directory (\<lambda>n. None) io" for closed directory io
  by (rule getTableStorage_resolver) simp


section \<open>Processing a batch\<close>

text \<open>\<open>wal_ok\<close>: the log is open and written at its end.\<close>

definition wal_ok :: "WalManager \<Rightarrow> bool" where
  "wal_ok wm = (wal_file wm = OpenFile \<and> wal_pos wm = length (wal_disk wm))"

lemma writeAndSync_spec:
  assumes "wal_ok wm" "writeAndSync buffer wo so wm = (e, wm')"
  shows "wal_ok wm' \<and> durability wm' = durability wm \<and> (\<exists>k. wal_disk wm' = wal_disk wm @ take k buffer) \<and>
    (e = None \<longrightarrow> wal_disk wm' = wal_disk wm @ buffer)"
proof -
  have "\<exists>k. buffer = take k buffer" by (rule exI [of _ "length buffer"]) simp
  then show ?thesis
    using assms
    by (auto simp: writeAndSync_def walFile_Write_def wal_ok_def split: write_outcome.splits if_splits)
qed

lemma mutationBuffer_walBytes: "mutationBuffer tasks = walBytes (concat (map taskMutations tasks))"
  by (induction tasks) (simp_all add: mutationBuffer_def walBytes_def)

lemma length_appendTasks:
  "appendTasks tableStorage out index tasks modified st = (rs, modified', st') \<Longrightarrow> length rs = length tasks"
  by (induction tasks arbitrary: index modified st rs) (auto split: prod.splits)

lemma processTasks_unfold:
  assumes ok: "wal_ok wm" and p: "processTasks tableStorage io tasks (wm, st) = (results, wm', st')" "tasks \<noteq> []"
  obtains e1 wm1 rs modified e2 e3 where
    "writeAndSync (mutationBuffer tasks) (ti_write io) (ti_sync io) wm = (e1, wm1)"
    "(case e1 of Some e \<Rightarrow> (map (\<lambda>_. Err e) tasks, [], st)
        | None \<Rightarrow> appendTasks tableStorage (ti_append io) 0 tasks [] st) = (rs, modified, st')"
    "length rs = length tasks" "e1 \<noteq> None \<longrightarrow> e2 \<noteq> None"
    "writeAndSync (walBytes (map (taskMarker e2) (zip tasks rs))) (ti_write2 io) (ti_sync2 io) wm1 = (e3, wm')"
    "results = map (\<lambda>r. case e3 of Some e \<Rightarrow> Err e | None \<Rightarrow> (case e2 of Some e \<Rightarrow> Err e | None \<Rightarrow> r)) rs"
proof -
  obtain e1 wm1 where w1: "writeAndSync (mutationBuffer tasks) (ti_write io) (ti_sync io) wm = (e1, wm1)" by force
  obtain rs modified st1 where a: "(case e1 of Some e \<Rightarrow> (map (\<lambda>_. Err e) tasks, [], st)
        | None \<Rightarrow> appendTasks tableStorage (ti_append io) 0 tasks [] st) = (rs, modified, st1)"
    by (cases "case e1 of Some e \<Rightarrow> (map (\<lambda>_. Err e) tasks, [], st)
        | None \<Rightarrow> appendTasks tableStorage (ti_append io) 0 tasks [] st") auto
  define e2 where "e2 = (if e1 = None \<and> durability wm \<noteq> DurabilityAsync
     then syncTables (ti_tableSync io) (ti_order io modified) st1 else e1)"
  obtain e3 wm2 where w2: "writeAndSync (walBytes (map (taskMarker e2) (zip tasks rs))) (ti_write2 io) (ti_sync2 io) wm1 = (e3, wm2)"
    by force
  have len: "length rs = length tasks"
    using a length_appendTasks by (auto split: option.splits)
  have c: "concat (map (writeRecordToBuffer \<circ> taskMarker e2) (zip tasks rs)) = walBytes (map (taskMarker e2) (zip tasks rs))"
    by (simp add: walBytes_def)
  have "processTasks tableStorage io tasks (wm, st) =
     (map (\<lambda>r. case (case e3 of Some e \<Rightarrow> Some e | None \<Rightarrow> e2) of Some e \<Rightarrow> Err e | None \<Rightarrow> r) rs, wm2, st1)"
    using p(2) by (simp only: processTasks_def prod.case if_False Let_def w1 a e2_def [symmetric] c w2)
  then have "results = map (\<lambda>r. case e3 of Some e \<Rightarrow> Err e | None \<Rightarrow> (case e2 of Some e \<Rightarrow> Err e | None \<Rightarrow> r)) rs"
    "wm2 = wm'" "st1 = st'"
    using p(1) by (auto split: option.splits)
  moreover have "e1 \<noteq> None \<longrightarrow> e2 \<noteq> None" by (auto simp: e2_def)
  ultimately show ?thesis using w1 a len w2 by (intro that [of e1 wm1 rs modified e2 e3]) simp_all
qed

lemma taskMarker_cases:
  "taskMarker e (t, r) = marker OpRollbackTransaction t \<or>
   (taskMarker e (t, r) = marker OpCommitTransaction t \<and> e = None \<and> (\<exists>pm. r = Ok pm))"
  by (cases e; cases r) (simp_all add: taskMarker_def)


lemma processTasks_acknowledged:
  assumes ok: "wal_ok wm" and p: "processTasks tableStorage io tasks (wm, st) = (results, wm', st')"
    and i: "i < length tasks" "results ! i = Ok pm"
  shows "\<exists>markers. length markers = length tasks \<and> markers ! i = marker OpCommitTransaction (tasks ! i) \<and>
     list_all2 (\<lambda>t m. m = marker OpCommitTransaction t \<or> m = marker OpRollbackTransaction t) tasks markers \<and>
     wal_disk wm' = wal_disk wm @ mutationBuffer tasks @ walBytes markers \<and> wal_ok wm'"
proof -
  have ne: "tasks \<noteq> []" using i by auto
  obtain e1 wm1 rs modified e2 e3 where
    w1: "writeAndSync (mutationBuffer tasks) (ti_write io) (ti_sync io) wm = (e1, wm1)"
    and a: "(case e1 of Some e \<Rightarrow> (map (\<lambda>_. Err e) tasks, [], st)
        | None \<Rightarrow> appendTasks tableStorage (ti_append io) 0 tasks [] st) = (rs, modified, st')"
    and len: "length rs = length tasks" and e12: "e1 \<noteq> None \<longrightarrow> e2 \<noteq> None"
    and w2: "writeAndSync (walBytes (map (taskMarker e2) (zip tasks rs))) (ti_write2 io) (ti_sync2 io) wm1 = (e3, wm')"
    and res: "results = map (\<lambda>r. case e3 of Some e \<Rightarrow> Err e | None \<Rightarrow> (case e2 of Some e \<Rightarrow> Err e | None \<Rightarrow> r)) rs"
    by (rule processTasks_unfold [OF ok p ne])
  have e: "e3 = None" "e2 = None" and ri: "rs ! i = Ok pm"
    using i res len by (auto split: option.splits)
  then have "e1 = None" using e12 by auto
  then have d1: "wal_ok wm1" "wal_disk wm1 = wal_disk wm @ mutationBuffer tasks"
    using writeAndSync_spec [OF ok w1] by auto
  have d2: "wal_ok wm'" "wal_disk wm' = wal_disk wm1 @ walBytes (map (taskMarker e2) (zip tasks rs))"
    using writeAndSync_spec [OF d1(1) w2] e by auto
  have "list_all2 (\<lambda>t m. m = marker OpCommitTransaction t \<or> m = marker OpRollbackTransaction t) tasks
      (map (taskMarker e2) (zip tasks rs))"
    using len taskMarker_cases by (fastforce simp: list_all2_conv_all_nth)
  moreover have "map (taskMarker e2) (zip tasks rs) ! i = marker OpCommitTransaction (tasks ! i)"
    using i len e ri by (simp add: taskMarker_def)
  ultimately show ?thesis
    using d1 d2 len by (intro exI [of _ "map (taskMarker e2) (zip tasks rs)"]) simp
qed

text \<open>The write-ahead rule: whatever the operating system answers, what reaches the log is a prefix
  of the mutations followed by a prefix of the markers, and a task is given a commit marker
  only when all mutations are in the log and its records are in the table files.\<close>

lemma processTasks_write_ahead:
  assumes r: "table_resolver tableStorage" and ok: "wal_ok wm"
    and p: "processTasks tableStorage io tasks (wm, st) = (results, wm', st')"
    and st: "storesOK 0 st" "tasksSize tasks < 2 ^ 62" "list_all (\<lambda>t. readableAppends (TableAppends t)) tasks"
  shows "\<exists>k j markers. wal_disk wm' = wal_disk wm @ take k (mutationBuffer tasks) @ take j (walBytes markers) \<and>
    list_all2 (\<lambda>t m. m = marker OpRollbackTransaction t \<or>
      (m = marker OpCommitTransaction t \<and> length (mutationBuffer tasks) \<le> k \<and>
       (\<exists>pm. list_all2 (inStores st') (TableAppends t) pm))) tasks markers"
proof (cases "tasks = []")
  case True
  then show ?thesis using p by (auto simp: processTasks_def mutationBuffer_def)
next
  case False
  obtain e1 wm1 rs modified e2 e3 where
    w1: "writeAndSync (mutationBuffer tasks) (ti_write io) (ti_sync io) wm = (e1, wm1)"
    and a: "(case e1 of Some e \<Rightarrow> (map (\<lambda>_. Err e) tasks, [], st)
        | None \<Rightarrow> appendTasks tableStorage (ti_append io) 0 tasks [] st) = (rs, modified, st')"
    and len: "length rs = length tasks" and e12: "e1 \<noteq> None \<longrightarrow> e2 \<noteq> None"
    and w2: "writeAndSync (walBytes (map (taskMarker e2) (zip tasks rs))) (ti_write2 io) (ti_sync2 io) wm1 = (e3, wm')"
    and res: "results = map (\<lambda>r. case e3 of Some e \<Rightarrow> Err e | None \<Rightarrow> (case e2 of Some e \<Rightarrow> Err e | None \<Rightarrow> r)) rs"
    by (rule processTasks_unfold [OF ok p False])
  let ?ms = "map (taskMarker e2) (zip tasks rs)"
  obtain k where k: "wal_disk wm1 = wal_disk wm @ take k (mutationBuffer tasks)"
      "e1 = None \<longrightarrow> length (mutationBuffer tasks) \<le> k" and ok1: "wal_ok wm1"
  proof (cases e1)
    case None
    then show ?thesis using writeAndSync_spec [OF ok w1] by (intro that [of "length (mutationBuffer tasks)"]) auto
  next
    case (Some e)
    then show ?thesis using writeAndSync_spec [OF ok w1] that by auto
  qed
  obtain j where j: "wal_disk wm' = wal_disk wm1 @ take j (walBytes ?ms)"
    using writeAndSync_spec [OF ok1 w2] by blast
  have data: "list_all2 (inStores st') (TableAppends (tasks ! i)) pm"
    if "e1 = None" "i < length tasks" "rs ! i = Ok pm" for i pm
    using table_resolver.appendTasks_spec [OF r, of "ti_append io" 0 tasks "[]" st rs modified st' 0] a st that
    by (auto simp: list_all2_conv_all_nth)
  have "list_all2 (\<lambda>t m. m = marker OpRollbackTransaction t \<or>
      (m = marker OpCommitTransaction t \<and> length (mutationBuffer tasks) \<le> k \<and>
       (\<exists>pm. list_all2 (inStores st') (TableAppends t) pm))) tasks ?ms"
  proof (rule list_all2_all_nthI)
    fix i assume i: "i < length tasks"
    then show "?ms ! i = marker OpRollbackTransaction (tasks ! i) \<or>
      (?ms ! i = marker OpCommitTransaction (tasks ! i) \<and> length (mutationBuffer tasks) \<le> k \<and>
       (\<exists>pm. list_all2 (inStores st') (TableAppends (tasks ! i)) pm))"
      using taskMarker_cases [of e2 "tasks ! i" "rs ! i"] len data [of i] k(2) e12 by auto
  qed (use len in simp)
  then show ?thesis using k(1) j by (intro exI [of _ k] exI [of _ j] exI [of _ ?ms]) simp
qed

lemma ReadAllRecords_write:
  assumes "list_all validRecord recs" "wal_file wm = OpenFile" "wal_disk wm = walBytes recs"
  shows "fst (ReadAllRecords None wm) = Ok recs \<and> wal_ok (snd (ReadAllRecords None wm))"
proof -
  have "readRecords (length (wal_disk wm)) (wal_disk wm) [] = readRecords (length (wal_disk wm)) [] recs"
    using readRecords_write [OF assms(1), of "length (wal_disk wm)" "[]" "[]"] assms(3) by simp
  also have "\<dots> = (Ok recs, length (wal_disk wm))"
    by (subst readRecords.simps) (simp add: readRecord_def readInt32_def readFull_def)
  finally show ?thesis using assms(2) by (simp add: ReadAllRecords_def wal_ok_def)
qed

section \<open>Properties of the log\<close>

text \<open>C27: a log holding any sequence of records (payloads up to 64 MiB) is read back as exactly that
  sequence, in order.\<close>

theorem log_roundtrip:
  assumes "list_all validRecord recs" "wal_file wm = OpenFile" "wal_disk wm = walBytes recs"
  shows "fst (ReadAllRecords None wm) = Ok recs \<and> wal_ok (snd (ReadAllRecords None wm))"
  using ReadAllRecords_write [OF assms] .

definition exampleLog :: "WalRecord list" where
  "exampleLog = [\<lparr>wr_Type = OpBeginTransaction, wr_TransactionID = 1, wr_Generation = 1, wr_Payload = []\<rparr>,
     \<lparr>wr_Type = OpInsert, wr_TransactionID = 1, wr_Generation = 1, wr_Payload = [1, 2, 3]\<rparr>,
     \<lparr>wr_Type = OpCommitTransaction, wr_TransactionID = 1, wr_Generation = 1, wr_Payload = []\<rparr>]"

definition exampleWal :: "bytes \<Rightarrow> WalManager" where
  "exampleWal disk = \<lparr>wal_file = OpenFile, wal_disk = disk, wal_pos = length disk, durability = DurabilitySync\<rparr>"

lemma exampleLog_valid: "list_all validRecord exampleLog"
  by (simp add: exampleLog_def validRecord_def maxPayload_def)

theorem log_roundtrip_witness:
  "fst (ReadAllRecords None (exampleWal (walBytes exampleLog))) = Ok exampleLog"
  using log_roundtrip [OF exampleLog_valid, of "exampleWal (walBytes exampleLog)"] by (simp add: exampleWal_def)



text \<open>C31: a log whose last record was cut short by a crash gives back all complete records, when at
  least the four bytes of the magic number, or nothing at all, of the torn record remain; a
  stub of one to three bytes makes the whole read fail.\<close>

theorem torn_log_tail:
  assumes "list_all validRecord recs" "validRecord rec" "n < length (writeRecordToBuffer rec)"
    and "wal_file wm = OpenFile" "wal_disk wm = walBytes recs @ take n (writeRecordToBuffer rec)"
  shows "fst (ReadAllRecords None wm) = (if 1 \<le> n \<and> n \<le> 3 then Err IoErrUnexpectedEOF else Ok recs)"
proof -
  let ?s = "length (wal_disk wm)"
  have "readRecords ?s (wal_disk wm) [] = readRecords ?s (take n (writeRecordToBuffer rec)) recs"
    using readRecords_write [OF assms(1), of ?s _ "[]"] assms(5) by simp
  also have "fst \<dots> = (if 1 \<le> n \<and> n \<le> 3 then Err IoErrUnexpectedEOF else Ok recs)"
    using readRecord_torn [OF assms(2,3), of ?s]
    by (subst readRecords.simps) (auto split: if_splits)
  finally show ?thesis using assms(4) by (cases "readRecords ?s (wal_disk wm) []") (simp add: ReadAllRecords_def)
qed

theorem torn_log_tail_witness:
  "fst (ReadAllRecords None (exampleWal (walBytes exampleLog @ take 7 (writeRecordToBuffer (hd exampleLog))))) = Ok exampleLog \<and>
   fst (ReadAllRecords None (exampleWal (walBytes exampleLog @ take 2 (writeRecordToBuffer (hd exampleLog))))) = Err IoErrUnexpectedEOF"
proof -
  have v: "validRecord (hd exampleLog)" "length (writeRecordToBuffer (hd exampleLog)) = 29"
    by (simp_all add: exampleLog_def validRecord_def maxPayload_def writeRecordToBuffer_def Let_def)
  show ?thesis
    using torn_log_tail [OF exampleLog_valid v(1), of 7] torn_log_tail [OF exampleLog_valid v(1), of 2] v(2)
    by (simp add: exampleWal_def)
qed


text \<open>C14: a task that is reported as written has its begin record, its mutations and its commit
  marker in the log, in this order, behind everything that was there, and reading the log
  back finds them all.\<close>

theorem acknowledged_task_is_logged:
  assumes "wal_ok wm" "wal_disk wm = walBytes recs" "list_all validRecord recs"
    and "list_all (\<lambda>t. list_all validRecord (WalRecords t)) tasks"
    and "processTasks tableStorage io tasks (wm, st) = (results, wm', st')"
    and "i < length tasks" "results ! i = Ok pm"
  shows "\<exists>markers. length markers = length tasks \<and> markers ! i = marker OpCommitTransaction (tasks ! i) \<and>
     fst (ReadAllRecords None wm') = Ok (recs @ concat (map taskMutations tasks) @ markers)"
proof -
  obtain ms where ms: "length ms = length tasks" "ms ! i = marker OpCommitTransaction (tasks ! i)"
    "list_all2 (\<lambda>t m. m = marker OpCommitTransaction t \<or> m = marker OpRollbackTransaction t) tasks ms"
    "wal_disk wm' = wal_disk wm @ mutationBuffer tasks @ walBytes ms" "wal_ok wm'"
    using processTasks_acknowledged [OF assms(1,5,6,7)] by blast
  have "validRecord m" if "m \<in> set ms" for m
  proof -
    from that obtain j where "j < length ms" "m = ms ! j" by (metis in_set_conv_nth)
    then have "m = marker OpCommitTransaction (tasks ! j) \<or> m = marker OpRollbackTransaction (tasks ! j)"
      using ms(1,3) by (simp add: list_all2_conv_all_nth)
    then show ?thesis by (auto simp: marker_def validRecord_def maxPayload_def)
  qed
  then have v: "list_all validRecord (recs @ concat (map taskMutations tasks) @ ms)"
    using assms(3,4) by (auto simp: list_all_iff taskMutations_def marker_def validRecord_def maxPayload_def)
  have "wal_file wm' = OpenFile" "wal_disk wm' = walBytes (recs @ concat (map taskMutations tasks) @ ms)"
    using ms(4,5) assms(2) by (simp_all add: wal_ok_def mutationBuffer_walBytes)
  then show ?thesis using ReadAllRecords_write [OF v] ms(1,2) by blast
qed

definition exampleTask :: WriteTask where
  "exampleTask = \<lparr>TxID = 1, wt_Generation = 1, WalRecords = [exampleLog ! 1], TableAppends = [(''users'', [[1, 2]])]\<rparr>"

definition exampleOutcomes :: "write_outcome \<Rightarrow> task_io" where
  "exampleOutcomes w = \<lparr>ti_write = w, ti_sync = None, ti_append = (\<lambda>i n. WOk), ti_tableSync = (\<lambda>n. None),
     ti_order = (\<lambda>ns. ns), ti_write2 = WOk, ti_sync2 = None\<rparr>"

definition exampleResolver :: resolver where
  "exampleResolver = getTableStorage False ''data'' (\<lambda>n. None) (\<lambda>n. \<lparr>oi_mkdir = None, oi_open = None, oi_stat = None\<rparr>)"

lemma exampleTask_result:
  "\<exists>pm wm' st'. processTasks exampleResolver (exampleOutcomes WOk) [exampleTask] (exampleWal [], Map.empty) = ([Ok pm], wm', st')"
  by (simp add: processTasks_def writeAndSync_def walFile_Write_def walFile_Sync_def exampleOutcomes_def exampleWal_def
      exampleTask_def exampleResolver_def getTableStorage_def NewTableStorage_def AppendRecords_def file_WriteAt_def
      isValidTableName_def isTableNameChar_def syncTables_def Let_def)

theorem acknowledged_task_is_logged_witness:
  "\<exists>wm' st' pm. processTasks exampleResolver (exampleOutcomes WOk) [exampleTask] (exampleWal [], Map.empty) = ([Ok pm], wm', st') \<and>
     fst (ReadAllRecords None wm') = Ok (taskMutations exampleTask @ [marker OpCommitTransaction exampleTask])"
proof -
  obtain pm wm' st' where p: "processTasks exampleResolver (exampleOutcomes WOk) [exampleTask] (exampleWal [], Map.empty) = ([Ok pm], wm', st')"
    using exampleTask_result by blast
  have "\<exists>markers. length markers = length [exampleTask] \<and> markers ! 0 = marker OpCommitTransaction ([exampleTask] ! 0) \<and>
     fst (ReadAllRecords None wm') = Ok ([] @ concat (map taskMutations [exampleTask]) @ markers)"
    by (rule acknowledged_task_is_logged [OF _ _ _ _ p])
       (simp_all add: wal_ok_def exampleWal_def exampleTask_def exampleLog_def validRecord_def maxPayload_def)
  then show ?thesis using p by (auto simp: length_Suc_conv)
qed

text \<open>C3: the write-ahead rule holds whatever fails: the log grows by a prefix of the mutations and
  a prefix of the markers, and a task has a commit marker only if every mutation is in the log
  and its records can be read back from the table files.\<close>

theorem commit_marker_is_last:
  assumes "wal_ok wm" "processTasks (getTableStorage closed directory files fio) io tasks (wm, st) = (results, wm', st')"
    and "\<forall>n b. files n = Some b \<longrightarrow> int (length b) \<le> 2 ^ 62" "storesOK 0 st"
    and "tasksSize tasks < 2 ^ 62" "list_all (\<lambda>t. readableAppends (TableAppends t)) tasks"
  shows "\<exists>k j markers. wal_disk wm' = wal_disk wm @ take k (mutationBuffer tasks) @ take j (walBytes markers) \<and>
    list_all2 (\<lambda>t m. m = marker OpRollbackTransaction t \<or>
      (m = marker OpCommitTransaction t \<and> length (mutationBuffer tasks) \<le> k \<and>
       (\<exists>pm. list_all2 (inStores st') (TableAppends t) pm))) tasks markers"
  by (rule processTasks_write_ahead [OF getTableStorage_resolver assms(1,2,4-6)]) (use assms(3) in blast)

theorem commit_marker_is_last_witness:
  "\<exists>results wm' st' k j markers. processTasks exampleResolver (exampleOutcomes WOk) [exampleTask] (exampleWal [], Map.empty) = (results, wm', st') \<and>
    wal_disk wm' = take k (mutationBuffer [exampleTask]) @ take j (walBytes markers) \<and>
    list_all2 (\<lambda>t m. m = marker OpRollbackTransaction t \<or>
      (m = marker OpCommitTransaction t \<and> length (mutationBuffer [exampleTask]) \<le> k \<and>
       (\<exists>pm. list_all2 (inStores st') (TableAppends t) pm))) [exampleTask] markers"
proof -
  obtain results wm' st' where p: "processTasks exampleResolver (exampleOutcomes WOk) [exampleTask] (exampleWal [], Map.empty) = (results, wm', st')"
    using exampleTask_result by blast
  have "wal_ok (exampleWal [])" "storesOK 0 Map.empty" "tasksSize [exampleTask] < 2 ^ 62"
    "list_all (\<lambda>t. readableAppends (TableAppends t)) [exampleTask]" and d: "wal_disk (exampleWal []) = []"
    by (simp_all add: wal_ok_def exampleWal_def storesOK_def tasksSize_def appendSize_def exampleTask_def
        readableAppends_def maxRecordSize_def)
  then have "\<exists>k j markers. wal_disk wm' = wal_disk (exampleWal []) @ take k (mutationBuffer [exampleTask]) @ take j (walBytes markers) \<and>
    list_all2 (\<lambda>t m. m = marker OpRollbackTransaction t \<or>
      (m = marker OpCommitTransaction t \<and> length (mutationBuffer [exampleTask]) \<le> k \<and>
       (\<exists>pm. list_all2 (inStores st') (TableAppends t) pm))) [exampleTask] markers"
    by (intro commit_marker_is_last [OF _ p [unfolded exampleResolver_def]]) simp_all
  then show ?thesis using p unfolding d append_Nil by blast
qed

text \<open>When the write of the mutations fails half-way, the rollback marker is written behind the
  torn bytes, and the next start cannot read the log any more.\<close>

theorem torn_batch_breaks_log:
  "fst (ReadAllRecords None (fst (snd (processTasks exampleResolver
      (exampleOutcomes (WFail 5 (OsError ''disk full''))) [exampleTask] (exampleWal [], Map.empty)))))
   = Err WalChecksumMismatch"
proof -
  have torn: "take 5 (mutationBuffer [exampleTask]) = [0x52, 0x4d, 0x57, 0x4c, 0]"
    by (simp add: mutationBuffer_def taskMutations_def exampleTask_def marker_def writeRecordToBuffer_def Let_def
        Put_bytes WalMagic_def opByte_def)
  have p: "wal_disk (fst (snd (processTasks exampleResolver (exampleOutcomes (WFail 5 (OsError ''disk full'')))
      [exampleTask] (exampleWal [], Map.empty)))) = [0x52, 0x4d, 0x57, 0x4c, 0] @ writeRecordToBuffer (marker OpRollbackTransaction exampleTask)
     \<and> wal_file (fst (snd (processTasks exampleResolver (exampleOutcomes (WFail 5 (OsError ''disk full'')))
      [exampleTask] (exampleWal [], Map.empty)))) = OpenFile"
    by (simp add: processTasks_def writeAndSync_def walFile_Write_def walFile_Sync_def exampleOutcomes_def exampleWal_def
      taskMarker_def torn Let_def writeAt_def)
  have m: "writeRecordToBuffer (marker OpRollbackTransaction exampleTask) =
      [0x52, 0x4d, 0x57, 0x4c, 11, 0, 0, 0, 0, 0, 0, 0, 1, 0, 0, 0, 0, 0, 0, 0, 1, 0, 0, 0, 0]
      @ PutUint32 (walChecksum 11 1 1 [])"
    by (simp add: marker_def exampleTask_def writeRecordToBuffer_def Let_def Put_bytes(2) [of "0x524d574c"]
        Put_bytes(2) [of 0] Put_bytes(3) WalMagic_def opByte_def)
  have l: "[0] @ (PutUint64 0x524d574c0b000000 @ PutUint64 0x0000000001000000) @ []
       = [0, 0x52, 0x4d, 0x57, 0x4c, 11, 0, 0, 0, 0, 0, 0, 0, 1, 0, 0, 0]"
    by (simp add: Put_bytes)
  have v: "crc32c [0, 0x52, 0x4d, 0x57, 0x4c, 11, 0, 0, 0, 0, 0, 0, 0, 1, 0, 0, 0] = 3590926442"
    by (simp add: crc_eval)
  have c: "walChecksum 0 0x524d574c0b000000 0x0000000001000000 [] = 3590926442"
    unfolding walChecksum_def l v ..
  have "readRecord n (([0x52, 0x4d, 0x57, 0x4c, 0] @ [0x52, 0x4d, 0x57, 0x4c, 11, 0, 0, 0, 0, 0, 0, 0, 1, 0, 0, 0, 0, 0, 0, 0, 1, 0, 0, 0, 0]) @ r)
      = Fail WalChecksumMismatch (n - length (0 # r))" for n r
    using c by (simp add: readRecord_def readInt32_def readInt64_def readFull_def be_get_def be_step_def WalMagic_def
        readPayload_def maxPayload_def)
  then show ?thesis using p unfolding m append_assoc [symmetric]
    by (simp only: ReadAllRecords_def osFile.case option.case) (simp add: readRecords.simps)
qed

end
