(* ===== verification/TableStore.thy ===== *)
theory TableStore
  imports TableLaws TreeIndex WalLaws
begin

text \<open>
  A table in its files. \<open>holdsRows\<close> says that the open index, the table file and the log of a database
  stand for a map of rows; lookups return these rows, and an insertion with its own transaction
  (\<^verbatim>\<open>Table.Insert\<close>, through the change set, the log, the table file and the index commit) extends the
  map. The table has no secondary indexes, and the operating system reports no errors.
\<close>

section \<open>Rows in the files\<close>

definition keyBytes :: "gval \<Rightarrow> bytes" where
  "keyBytes k = (case serializeKey k of Ok b \<Rightarrow> b | _ \<Rightarrow> [])"

text \<open>Identifiers whose encodings are keys of the index of at most \<open>L\<close> bytes and differ from each other.\<close>

definition keySpace :: "bytes set \<Rightarrow> nat \<Rightarrow> gval set \<Rightarrow> bool" where
  "keySpace K L keys = ((\<forall>k \<in> keys. serializeKey k = Ok (keyBytes k) \<and> keyBytes k \<in> K \<and> length (keyBytes k) \<le> L)
     \<and> inj_on keyBytes keys)"

definition rowAt :: "db_env \<Rightarrow> Table \<Rightarrow> TableStorage \<Rightarrow> RecordPointer option \<Rightarrow> gval option \<Rightarrow> bool" where
  "rowAt env table ts p r =
     (case (p, r) of
        (None, None) \<Rightarrow> True
      | (Some q, Some record) \<Rightarrow> (\<exists>b. stored ts q b \<and> Unmarshal (de_go env) b (tb_Type table) = Ok record)
      | _ \<Rightarrow> False)"

text \<open>No errors of the operating system, and orders of iteration that lose nothing.\<close>

definition quietTask :: "task_io \<Rightarrow> bool" where
  "quietTask io = (ti_write io = WOk \<and> ti_sync io = None \<and> (\<forall>i n. ti_append io i n = WOk) \<and> (\<forall>n. ti_tableSync io n = None)
     \<and> ti_write2 io = WOk \<and> ti_sync2 io = None \<and> (\<forall>xs. set (ti_order io xs) = set xs))"

definition quietEnv :: "db_env \<Rightarrow> string \<Rightarrow> bool" where
  "quietEnv env n = (wf_env (de_go env) \<and> (\<forall>p. de_read env n p = None) \<and> quietTask (de_task env) \<and> de_rollback env = (WOk, None)
     \<and> (\<forall>xs. set (mo_dirty (de_order env) xs) = set xs) \<and> (\<forall>xs. mset (mo_roots (de_order env) xs) = mset xs))"

text \<open>An index file that can take \<open>n\<close> more generations, from \<open>g\<close> on: it holds at most the primary index.\<close>

definition savedTree :: "nat \<Rightarrow> 64 word \<Rightarrow> nat \<Rightarrow> DiskBPlusTree \<Rightarrow> bool" where
  "savedTree fuel g n t = (bt_file t = OpenFile \<and> bt_io t = [] \<and> set (map fst (bt_catalog t)) \<subseteq> {''primary''}
     \<and> olderSlots g (bt_disk t) \<and> unat (nextPageID t) + n * (2 * fuel + 4) + 1 < 2 ^ 49)"

definition plainTable :: "Table \<Rightarrow> DatabaseState \<Rightarrow> bool" where
  "plainTable table state = ((case tableStateOf state (tb_name table) of None \<Rightarrow> False
       | Some ts \<Rightarrow> IndexMetadataList ts = [] \<and> EntityType ts = tb_Type table)
     \<and> (case structFields (tb_Type table) of None \<Rightarrow> False | Some fs \<Rightarrow> indexMetadataOf (tb_name table) fs = []))"

text \<open>\<open>holdsAt\<close>: the database \<open>db\<close> in state \<open>state\<close>, with the index tree \<open>t\<close> (which stands for the maps \<open>M\<close>)
  and the table file \<open>ts\<close>, holds the rows \<open>R\<close> and has room for \<open>n\<close> more steps.\<close>

definition holdsAt ::
  "db_env \<Rightarrow> bytes set \<Rightarrow> nat \<Rightarrow> gval set \<Rightarrow> nat \<Rightarrow> Table \<Rightarrow> DatabaseState \<Rightarrow> (gval \<rightharpoonup> gval) \<Rightarrow> DiskBPlusTree \<Rightarrow> TableStorage \<Rightarrow>
   (string \<Rightarrow> bytes \<rightharpoonup> RecordPointer) \<Rightarrow> Database \<Rightarrow> bool"
where
  "holdsAt env K L keys n table state R t ts M db =
     (tree_keys (fmtOf env) K L \<and> L \<le> fitLimit \<and> keySpace K L keys \<and> quietEnv env (tb_name table) \<and> plainTable table state
      \<and> committedState db = state \<and> \<not> db_closed db \<and> \<not> walClosed db \<and> wal_ok (walManager db)
      \<and> unat (Generation state) + n + 1 < 2 ^ 64
      \<and> shadowIndexes db (tb_name table) = Some t \<and> tree_keys.indexes (fmtOf env) K L n (de_fuel env) t M
      \<and> savedTree (de_fuel env) (Generation state + 1) n t
      \<and> tableStorageMap db (tb_name table) = Some ts \<and> storage_ok ts
      \<and> sint (currentSize ts) + int n * maxRecordSize < 2 ^ 63
      \<and> (\<forall>k \<in> keys. rowAt env table ts (M ''primary'' (keyBytes k)) (R k)))"

lemma holdsAtD:
  assumes "holdsAt env K L keys n table state R t ts M db"
  shows "tree_keys (fmtOf env) K L" "L \<le> fitLimit" "keySpace K L keys" "quietEnv env (tb_name table)" "plainTable table state"
    "committedState db = state" "\<not> db_closed db" "\<not> walClosed db" "wal_ok (walManager db)" "unat (Generation state) + n + 1 < 2 ^ 64"
    "shadowIndexes db (tb_name table) = Some t" "tree_keys.indexes (fmtOf env) K L n (de_fuel env) t M"
    "savedTree (de_fuel env) (Generation state + 1) n t" "tableStorageMap db (tb_name table) = Some ts" "storage_ok ts"
    "sint (currentSize ts) + int n * maxRecordSize < 2 ^ 63"
    "k \<in> keys \<Longrightarrow> rowAt env table ts (M ''primary'' (keyBytes k)) (R k)"
  using assms unfolding holdsAt_def by blast+

definition holdsRows ::
  "db_env \<Rightarrow> bytes set \<Rightarrow> nat \<Rightarrow> gval set \<Rightarrow> nat \<Rightarrow> Table \<Rightarrow> DatabaseState \<Rightarrow> (gval \<rightharpoonup> gval) \<Rightarrow> Database \<Rightarrow> bool"
where
  "holdsRows env K L keys n table state R db = (\<exists>t ts M. holdsAt env K L keys n table state R t ts M db)"

lemma savedTree_sameView: "sameView t t' \<Longrightarrow> savedTree f g n t \<Longrightarrow> savedTree f g n t'"
  by (simp add: savedTree_def sameView_def effect_def)

lemma tableStorage_run:
  "\<not> db_closed db \<Longrightarrow> tableStorageMap db n = Some ts \<Longrightarrow> tableStorage env n db = (Ok ts, db)"
  by (simp add: tableStorage_def getTableStorage_def)

lemma getShadowNamedIndex_run: "shadowIndexes db n = Some t \<Longrightarrow> getShadowNamedIndex env n db = (Ok (), db)"
  by (simp add: getShadowNamedIndex_def)

lemma onTree_run: "shadowIndexes db n = Some t \<Longrightarrow> f t = (r, t') \<Longrightarrow>
    onTree n f db = (r, db\<lparr>shadowIndexes := (shadowIndexes db)(n \<mapsto> t')\<rparr>)"
  by (simp add: onTree_def)

section \<open>Lookup\<close>

lemma findPrimary_run:
  assumes h: "holdsAt env K L keys n table state R t ts M db" and k: "k \<in> keys"
  shows "\<exists>t'. findPrimary env (tb_name table) k db
      = (Ok (M ''primary'' (keyBytes k)), db\<lparr>shadowIndexes := (shadowIndexes db)(tb_name table \<mapsto> t')\<rparr>)
    \<and> holdsAt env K L keys n table state R t' ts M (db\<lparr>shadowIndexes := (shadowIndexes db)(tb_name table \<mapsto> t')\<rparr>)"
proof -
  note p = holdsAtD [OF h]
  have kb: "serializeKey k = Ok (keyBytes k)" "keyBytes k \<in> K" using p(3) k by (auto simp: keySpace_def)
  obtain t' where t': "FindNamed (fmtOf env) (de_fuel env) ''primary'' (keyBytes k) t = (Ok (M ''primary'' (keyBytes k)), t')"
    "tree_keys.indexes (fmtOf env) K L n (de_fuel env) t' M" "sameView t t'"
    using tree_keys.FindNamed_same [OF p(1,12) kb(2)] by blast
  let ?db = "db\<lparr>shadowIndexes := (shadowIndexes db)(tb_name table \<mapsto> t')\<rparr>"
  have "findPrimary env (tb_name table) k db = (Ok (M ''primary'' (keyBytes k)), ?db)"
    using kb(1) t'(1) p(11) by (simp add: findPrimary_def getShadowNamedIndex_run onTree_run NamedIndex_Find_def)
  moreover have "holdsAt env K L keys n table state R t' ts M ?db"
    using h t'(2) savedTree_sameView [OF t'(3) p(13)] by (simp add: holdsAt_def)
  ultimately show ?thesis by blast
qed

lemma readFromStorage_run:
  assumes "holdsAt env K L keys n table state R t ts M db" "rowAt env table ts (Some p) (Some r)"
  shows "readFromStorage env table p db = (Ok r, db)"
  using assms(2) tableStorage_run [OF holdsAtD(7,14) [OF assms(1)]] holdsAtD(4) [OF assms(1)]
  by (auto simp: rowAt_def readFromStorage_def readRecordAs_def stored_ReadRecord quietEnv_def)

interpretation disk_rows: committed_rows env table state "holdsRows env K L keys n table state R" keys R
  for env table state K L keys n R
proof
  fix db k assume a: "holdsRows env K L keys n table state R db" "k \<in> keys"
  obtain t ts M where h: "holdsAt env K L keys n table state R t ts M db" using a(1) by (auto simp: holdsRows_def)
  obtain x where st: "tableStateOf state (tb_name table) = Some x"
    using holdsAtD(5) [OF h] by (auto simp: plainTable_def split: option.splits)
  let ?p = "M ''primary'' (keyBytes k)"
  obtain t' db' where f: "findPrimary env (tb_name table) k db = (Ok ?p, db')" "holdsAt env K L keys n table state R t' ts M db'"
    using findPrimary_run [OF h a(2)] by blast
  have good: "holdsRows env K L keys n table state R db'" using f(2) by (auto simp: holdsRows_def)
  note row = holdsAtD(17) [OF h a(2)]
  note read = readFromStorage_run [OF f(2)]
  show "\<exists>db'. findCommitted env table state k db = (Ok (R k), db') \<and> holdsRows env K L keys n table state R db'"
    using f(1) good st row read by (cases ?p; cases "R k") (auto simp: findCommitted_def rowAt_def)
  show "R k = None \<Longrightarrow> \<exists>db'. committedPointer env state (tb_name table) k db = (Ok None, db') \<and> holdsRows env K L keys n table state R db'"
    using f(1) good st row by (cases ?p) (auto simp: committedPointer_def rowAt_def)
  show "R k = Some r \<Longrightarrow> \<exists>p db' db''. committedPointer env state (tb_name table) k db = (Ok (Some p), db') \<and>
      holdsRows env K L keys n table state R db' \<and> readFromStorage env table p db' = (Ok r, db'') \<and>
      holdsRows env K L keys n table state R db''" for r
    using f(1) good st row read by (cases ?p) (auto simp: committedPointer_def rowAt_def)
qed

section \<open>Insertion\<close>

lemma writeAndSync_quiet:
  assumes "wal_ok wm"
  shows "\<exists>wm'. writeAndSync buffer WOk None wm = (None, wm') \<and> wal_ok wm' \<and> wal_disk wm' = wal_disk wm @ buffer"
proof -
  obtain e wm' where w: "writeAndSync buffer WOk None wm = (e, wm')" by force
  moreover have "e = None"
    using assms w by (auto simp: writeAndSync_def walFile_Write_def walFile_Sync_def wal_ok_def split: if_splits)
  ultimately show ?thesis using writeAndSync_spec [OF assms w] by simp
qed

lemma syncTables_quiet:
  assumes "\<And>m. m \<in> set ms \<Longrightarrow> st m = Some ts" "ts_file ts = OpenFile" "\<And>m. io m = None"
  shows "syncTables io ms st = None"
  using assms(1) unfolding syncTables_def by (induction ms) (simp_all add: assms(2,3))

lemma AppendRecords_one:
  assumes "storage_ok ts" "int (length b) \<le> maxRecordSize" "sint (currentSize ts) + maxRecordSize < 2 ^ 63"
  shows "\<exists>p ts'. AppendRecords [b] WOk ts = (Ok [p], ts') \<and> storage_ok ts' \<and> stored ts' p b
    \<and> (\<forall>q c. stored ts q c \<longrightarrow> stored ts' q c) \<and> sint (currentSize ts') \<le> sint (currentSize ts) + maxRecordSize"
proof -
  obtain ps ts' where a: "AppendRecords [b] WOk ts = (Ok ps, ts')" using AppendRecords_WOk [OF assms(1)] by blast
  have fit: "fits ts [b]" using assms by (simp add: fits_def)
  have "list_all2 (stored ts') ps [b]" using table_store.append_holds [OF assms(1) fit a] .
  then obtain p where "ps = [p]" "stored ts' p b" by (auto simp: list_all2_Cons2)
  moreover have "stored ts' q c" if "stored ts q c" for q c using table_store.append_keeps [OF that fit, of WOk] a by simp
  moreover have "storage_ok ts'" using table_store.append_ok [OF assms(1) fit, of WOk] a by simp
  moreover have "sint (currentSize ts') = sint (currentSize ts) + int (length b)"
    using AppendRecords_cases(4) [OF assms(1) fit, of WOk ps] a by simp
  ultimately show ?thesis using a assms(2) by auto
qed

text \<open>The task of a transaction that appends one record.\<close>

lemma submitTask_run:
  assumes h: "holdsAt env K L keys (Suc n) table state R t ts M db"
    and b: "int (length b) \<le> maxRecordSize" "TableAppends task = [(tb_name table, [b])]"
  shows "\<exists>p ts' wm. submitTask env task db = (Ok [(tb_name table, [p])],
      db\<lparr>walManager := wm, tableStorageMap := (tableStorageMap db)(tb_name table \<mapsto> ts')\<rparr>) \<and> wal_ok wm
    \<and> wal_disk wm = wal_disk (walManager db) @ mutationBuffer [task] @ walBytes [marker OpCommitTransaction task]
    \<and> storage_ok ts' \<and> stored ts' p b \<and> (\<forall>q c. stored ts q c \<longrightarrow> stored ts' q c)
    \<and> sint (currentSize ts') \<le> sint (currentSize ts) + maxRecordSize"
proof -
  note p = holdsAtD [OF h]
  let ?n = "tb_name table" and ?io = "de_task env" and ?wm = "walManager db"
  let ?r = "getTableStorage (db_closed db) (directory db) (tableFiles db) (de_tableOpen env)"
  have q: "quietTask ?io" using p(4) by (simp add: quietEnv_def)
  have "0 \<le> int n * maxRecordSize" by (simp add: maxRecordSize_def)
  then have "sint (currentSize ts) + maxRecordSize < 2 ^ 63" using p(16) by (simp add: algebra_simps)
  then obtain ptr ts' where a: "AppendRecords [b] WOk ts = (Ok [ptr], ts')" "storage_ok ts'" "stored ts' ptr b"
    "\<forall>q c. stored ts q c \<longrightarrow> stored ts' q c" "sint (currentSize ts') \<le> sint (currentSize ts) + maxRecordSize"
    using AppendRecords_one [OF p(15) b(1)] by blast
  let ?st = "(tableStorageMap db)(?n \<mapsto> ts')"
  have app: "appendTasks ?r (ti_append ?io) 0 [task] [] (tableStorageMap db) = ([Ok [(?n, [ptr])]], [?n], ?st)"
    using a(1) b(2) p(7,14) q by (simp add: getTableStorage_def quietTask_def)
  obtain wm1 where w1: "writeAndSync (mutationBuffer [task]) WOk None ?wm = (None, wm1)" "wal_ok wm1"
    "wal_disk wm1 = wal_disk ?wm @ mutationBuffer [task]" using writeAndSync_quiet [OF p(9)] by blast
  let ?c = "writeRecordToBuffer (marker OpCommitTransaction task)"
  obtain wm2 where w2: "writeAndSync ?c WOk None wm1 = (None, wm2)" "wal_ok wm2" "wal_disk wm2 = wal_disk wm1 @ ?c"
    using writeAndSync_quiet [OF w1(2)] by blast
  have "syncTables (ti_tableSync ?io) (ti_order ?io [?n]) ?st = None"
    using q a(2) by (intro syncTables_quiet [of _ _ ts']) (auto simp: quietTask_def storage_ok_def)
  then have "processTasks ?r ?io [task] (?wm, tableStorageMap db) = ([Ok [(?n, [ptr])]], wm2, ?st)"
    using q w1(1) w2(1) app by (simp add: processTasks_def quietTask_def taskMarker_def)
  then have "submitTask env task db = (Ok [(?n, [ptr])], db\<lparr>walManager := wm2, tableStorageMap := ?st\<rparr>)"
    using p(8) by (simp add: submitTask_def)
  then show ?thesis using a(2-5) w1(3) w2(2,3) by (intro exI [of _ ptr] exI [of _ ts'] exI [of _ wm2]) (simp add: walBytes_def)
qed

text \<open>The index entry and the commit of the index.\<close>

lemma savedTree_commit:
  assumes t: "tree_keys.indexes fmt K L m fuel t M" "tree_keys fmt K L" and s: "savedTree fuel g n t"
    and o: "\<forall>xs. set (mo_dirty order xs) = set xs" "\<forall>xs. mset (mo_roots order xs) = mset xs"
  shows "committable order g t"
proof -
  have d: "distinct (map fst (bt_catalog t))" "\<forall>(name, r) \<in> set (bt_catalog t). ir_Name r = name"
    using t(1) unfolding tree_keys.indexes_def [OF t(2)] tree_keys.catalogOf_def [OF t(2)] by auto
  have sub: "set (map fst (bt_catalog t)) \<subseteq> {''primary''}" using s by (simp add: savedTree_def)
  have "bt_catalog t = [] \<or> (\<exists>r. bt_catalog t = [(''primary'', r)])"
  proof (cases "bt_catalog t")
    case (Cons e es)
    then have "es = []" using d(1) sub by (cases es) auto
    then show ?thesis using Cons sub by (cases e) auto
  qed simp
  then have "mo_roots order (map snd (bt_catalog t)) = map snd (bt_catalog t)"
    using o(2) [rule_format, of "map snd (bt_catalog t)"] by (auto simp: mset_single_iff)
  moreover have "catalogFits (map snd (bt_catalog t))"
    using \<open>bt_catalog t = [] \<or> _\<close> d(2) by (auto simp: catalogFits_def rootBytes_def)
  ultimately show ?thesis using s o by (simp add: committable_def savedTree_def)
qed

lemma savedTree_inCache:
  assumes "inCache ''primary'' (2 * fuel + 2) t t'" "savedTree fuel g (Suc n) t" shows "savedTree fuel g n t'"
proof -
  have "set (map fst (bt_catalog t')) \<subseteq> {''primary''}" using assms unfolding savedTree_def inCache_def by blast
  then show ?thesis using assms by (simp add: savedTree_def inCache_def)
qed

lemma savedTree_next:
  assumes "savedTree fuel g (Suc n) t" "bt_catalog t' = bt_catalog t" "unat (nextPageID t') \<le> unat (nextPageID t) + 1"
    "bt_file t' = OpenFile" "bt_io t' = []" "olderSlots g' (bt_disk t')"
  shows "savedTree fuel g' n t'"
  using assms by (simp add: savedTree_def)

lemma index_insert_run:
  assumes t: "tree_keys fmt K L" "tree_keys.indexes fmt K L (Suc (Suc n)) fuel t M" "savedTree fuel g (Suc (Suc n)) t" "L \<le> fitLimit"
    and o: "\<forall>xs. set (mo_dirty order xs) = set xs" "\<forall>xs. mset (mo_roots order xs) = mset xs" and g: "g < g'"
    and k: "k \<in> K" "length k \<le> L"
  shows "\<exists>r t1 t2. NamedIndex_InsertNoCommit fmt fuel ''primary'' k p g t = (Ok r, t1) \<and> NamedIndex_Commit order g t1 = (Ok (), t2)
    \<and> tree_keys.indexes fmt K L n fuel t2 (M(''primary'' := (M ''primary'')(k \<mapsto> p))) \<and> savedTree fuel g' n t2"
proof -
  obtain r t1 where t1: "InsertNamedNoCommit fmt fuel ''primary'' k p g t = (Ok r, t1)"
    "tree_keys.indexes fmt K L (Suc n) fuel t1 (M(''primary'' := (M ''primary'')(k \<mapsto> p)))" "inCache ''primary'' (2 * fuel + 2) t t1"
    using tree_keys.InsertNamedNoCommit_inCache [OF t(1,2) k, of "''primary''" p g] by blast
  note s1 = savedTree_inCache [OF t1(3) t(3)]
  obtain t2 where t2: "NamedIndex_Commit order g t1 = (Ok (), t2)"
    "tree_keys.indexes fmt K L n fuel t2 (M(''primary'' := (M ''primary'')(k \<mapsto> p)))" "bt_catalog t2 = bt_catalog t1"
    "unat (nextPageID t2) \<le> unat (nextPageID t1) + 1" "bt_file t2 = OpenFile" "bt_io t2 = []"
    "\<forall>g'. g < g' \<longrightarrow> olderSlots g' (bt_disk t2)"
    using tree_keys.commit_reopen_saved [OF t(1) t1(2) t(4) savedTree_commit [OF t1(2) t(1) s1 o], of "[]"]
    by (elim exE conjE) (rule that)
  have "savedTree fuel g' n t2" using savedTree_next [OF s1 t2(3-6)] t2(7) g by blast
  then show ?thesis using t1(1) t2(1,2) by (auto simp: NamedIndex_InsertNoCommit_def)
qed

text \<open>Records that can be stored in the table.\<close>

definition rowOk :: "Table \<Rightarrow> gval set \<Rightarrow> gval \<Rightarrow> bool" where
  "rowOk table keys r = (storable r (tb_Type table) \<and> encodable r \<and> typedKey table r = Ok (getPrimaryKey r) \<and> getPrimaryKey r \<in> keys
     \<and> (case r of VStruct n fs vs \<Rightarrow> True | _ \<Rightarrow> False)
     \<and> (case Marshal r of Ok b \<Rightarrow> int (length b) \<le> maxRecordSize | _ \<Rightarrow> False))"

lemma rowOk_bytes:
  assumes "rowOk table keys r" "wf_env env"
  obtains b where "Marshal r = Ok b" "Unmarshal env b (tb_Type table) = Ok r" "int (length b) \<le> maxRecordSize"
proof -
  obtain n fs vs where r: "r = VStruct n fs vs" using assms(1) by (auto simp: rowOk_def split: gval.splits)
  obtain b where "Marshal r = Ok b" "Unmarshal env b (tb_Type table) = Ok r"
    using Unmarshal_Marshal_struct [OF assms(2), of n fs vs "tb_Type table"] assms(1) unfolding r rowOk_def by auto
  then show ?thesis using that assms(1) by (auto simp: rowOk_def)
qed

lemma rowOk_key:
  assumes "rowOk table keys r"
  shows "getPrimaryKey r \<noteq> VNil" "getPrimaryKey r \<in> keys" "typedKey table r = Ok (getPrimaryKey r)" "typeOf r = tb_Type table"
proof -
  show k: "getPrimaryKey r \<in> keys" "typedKey table r = Ok (getPrimaryKey r)" using assms by (auto simp: rowOk_def)
  show "getPrimaryKey r \<noteq> VNil" using k(2) by (auto simp: typedKey_def Let_def)
  show "typeOf r = tb_Type table" using assms by (cases r) (auto simp: rowOk_def Let_def)
qed

lemma shadowInsert_plain:
  assumes "rowOk table keys r" "plainTable table state" "keySpace K L keys" "shadowIndexes db (tb_name table) = Some t"
    and "NamedIndex_InsertNoCommit (fmtOf env) (de_fuel env) ''primary'' (keyBytes (getPrimaryKey r)) p g t = (Ok x, t')"
  shows "shadowInsertNoCommit env (tb_name table) r p g db = (Ok (), db\<lparr>shadowIndexes := (shadowIndexes db)(tb_name table \<mapsto> t')\<rparr>)"
proof -
  note k = rowOk_key [OF assms(1)]
  have "serializeKey (getPrimaryKey r) = Ok (keyBytes (getPrimaryKey r))" using assms(3) k(2) by (auto simp: keySpace_def)
  moreover have "extractIndexMetadataList (tb_name table) r = []"
    using assms(2) k(4) by (auto simp: plainTable_def extractIndexMetadataList_def split: option.splits)
  ultimately show ?thesis
    using assms(4,5) k(1) by (simp add: shadowInsertNoCommit_def Let_def getShadowNamedIndex_run onTree_run)
qed

lemma shadowCommit_run:
  assumes "shadowIndexes db n = Some t" "NamedIndex_Commit (de_order env) g t = (Ok (), t')"
  shows "shadowCommit env n g db = (Ok (), db\<lparr>shadowIndexes := (shadowIndexes db)(n \<mapsto> t')\<rparr>)"
  using assms by (simp add: shadowCommit_def withIndex_def getShadowNamedIndex_run onTree_run)

lemma rowAt_mono: "rowAt env table ts p r \<Longrightarrow> (\<forall>q c. stored ts q c \<longrightarrow> stored ts' q c) \<Longrightarrow> rowAt env table ts' p r"
  by (auto simp: rowAt_def split: option.splits)

lemma tableStateOf_Copy: "tableStateOf (DatabaseState_Copy state g) n = map_option TableState_Copy (tableStateOf state n)"
proof -
  have "map_of (map (\<lambda>(n, t). (n, TableState_Copy t)) xs) n = map_option TableState_Copy (map_of xs n)" for xs
    by (induction xs) auto
  then show ?thesis by (simp add: DatabaseState_Copy_def tableStateOf_def)
qed

lemma plainTable_Copy: "plainTable table (DatabaseState_Copy state g) = plainTable table state"
  by (cases "tableStateOf state (tb_name table)") (simp_all add: plainTable_def tableStateOf_Copy TableState_Copy_def)

lemma Generation_Copy [simp]: "Generation (DatabaseState_Copy state g) = g"
  by (simp add: DatabaseState_Copy_def)

text \<open>The write and the index step of a transaction that inserts one record.\<close>

lemma olderSlots_mono: "olderSlots g d \<Longrightarrow> g \<le> g' \<Longrightarrow> olderSlots g' d"
  unfolding olderSlots_def by (meson order.strict_trans2)

lemma savedTree_later: "savedTree f g n t \<Longrightarrow> g \<le> g' \<Longrightarrow> savedTree f g' n t"
  unfolding savedTree_def using olderSlots_mono by blast

text \<open>The last steps of a committed insertion and of its replay: a record that was appended is entered in the
  primary index, and the index is committed.\<close>

definition readyTable :: "Table \<Rightarrow> DatabaseState \<Rightarrow> DiskBPlusTree \<Rightarrow> TableStorage \<Rightarrow> Database \<Rightarrow> bool" where
  "readyTable table state t ts db =
     (plainTable table state \<and> committedState db = state \<and> \<not> db_closed db \<and> \<not> walClosed db \<and> wal_ok (walManager db)
      \<and> shadowIndexes db (tb_name table) = Some t \<and> tableStorageMap db (tb_name table) = Some ts)"

lemma enter_row:
  assumes h: "holdsAt env K L keys (Suc (Suc n)) table state R t ts M db0" and r: "rowOk table keys r" "Marshal r = Ok b"
    and a: "storage_ok ts'" "stored ts' ptr b" "\<forall>q c. stored ts q c \<longrightarrow> stored ts' q c"
      "sint (currentSize ts') \<le> sint (currentSize ts) + maxRecordSize"
    and g: "Generation state + 1 \<le> g" "unat g + n + 1 < 2 ^ 64" and db: "shadowIndexes db (tb_name table) = Some t"
  shows "\<exists>t1 t2. shadowInsertNoCommit env (tb_name table) r ptr g db = (Ok (), db\<lparr>shadowIndexes := (shadowIndexes db)(tb_name table \<mapsto> t1)\<rparr>)
    \<and> shadowCommit env (tb_name table) g (db\<lparr>shadowIndexes := (shadowIndexes db)(tb_name table \<mapsto> t1)\<rparr>)
        = (Ok (), db\<lparr>shadowIndexes := (shadowIndexes db)(tb_name table \<mapsto> t2)\<rparr>)
    \<and> (\<forall>state' db'. Generation state' = g \<longrightarrow> readyTable table state' t2 ts' db' \<longrightarrow> holdsRows env K L keys n table state' (R(getPrimaryKey r \<mapsto> r)) db')"
proof -
  note p = holdsAtD [OF h]
  let ?n = "tb_name table" and ?k = "keyBytes (getPrimaryKey r)"
  let ?M = "M(''primary'' := (M ''primary'')(?k \<mapsto> ptr))"
  have env: "wf_env (de_go env)" "\<forall>xs. set (mo_dirty (de_order env) xs) = set xs" "\<forall>xs. mset (mo_roots (de_order env) xs) = mset xs"
    using p(4) by (auto simp: quietEnv_def)
  have kk: "?k \<in> K" "length ?k \<le> L" using p(3) rowOk_key(2) [OF r(1)] by (auto simp: keySpace_def)
  have "unat (g + 1) = unat g + 1" using g(2) by (simp add: unat_word_ariths)
  then have lt: "g < g + 1" by (simp add: word_less_nat_alt)
  obtain x t1 t2 where t2: "NamedIndex_InsertNoCommit (fmtOf env) (de_fuel env) ''primary'' ?k ptr g t = (Ok x, t1)"
    "NamedIndex_Commit (de_order env) g t1 = (Ok (), t2)"
    "tree_keys.indexes (fmtOf env) K L n (de_fuel env) t2 ?M" "savedTree (de_fuel env) (g + 1) n t2"
    using index_insert_run [OF p(1,12) savedTree_later [OF p(13) g(1)] p(2) env(2,3) lt kk] by blast
  have rows: "rowAt env table ts' (?M ''primary'' (keyBytes k)) ((R(getPrimaryKey r \<mapsto> r)) k)" if k: "k \<in> keys" for k
  proof (cases "k = getPrimaryKey r")
    case True
    then show ?thesis using a(2) rowOk_bytes [OF r(1) env(1)] r(2) by (auto simp: rowAt_def)
  next
    case False
    then have "keyBytes k \<noteq> ?k" using p(3) k rowOk_key(2) [OF r(1)] by (auto simp: keySpace_def inj_on_def)
    then show ?thesis using False rowAt_mono [OF p(17) [OF k] a(3)] by simp
  qed
  have size: "sint (currentSize ts') + int n * maxRecordSize < 2 ^ 63" using a(4) p(16) by (simp add: algebra_simps maxRecordSize_def)
  have "holdsAt env K L keys n table state' (R(getPrimaryKey r \<mapsto> r)) t2 ts' ?M db'" if "Generation state' = g" "readyTable table state' t2 ts' db'" for state' db'
    unfolding holdsAt_def using that p(1-4) a(1) t2(3,4) size g(2) rows by (simp add: readyTable_def)
  then have "\<forall>state' db'. Generation state' = g \<longrightarrow> readyTable table state' t2 ts' db' \<longrightarrow> holdsRows env K L keys n table state' (R(getPrimaryKey r \<mapsto> r)) db'"
    unfolding holdsRows_def by blast
  moreover have "shadowCommit env ?n g (db\<lparr>shadowIndexes := (shadowIndexes db)(?n \<mapsto> t1)\<rparr>) = (Ok (), db\<lparr>shadowIndexes := (shadowIndexes db)(?n \<mapsto> t2)\<rparr>)"
    using shadowCommit_run [OF _ t2(2)] by simp
  ultimately show ?thesis using shadowInsert_plain [OF r(1) p(5,3) db t2(1)] by blast
qed

lemma writeAndApply_run:
  assumes h: "holdsAt env K L keys (Suc (Suc n)) table state R t ts M db" and r: "rowOk table keys r" "Marshal r = Ok b"
    and tx: "tx_committedState tx = state" "TableChanges (changeSet tx) = [(tb_name table, NewTableChangeSet\<lparr>Inserts := [(getPrimaryKey r, r)]\<rparr>)]"
  shows "\<exists>db'. writeAndApply env tx (Generation state + 1) walRecords [(tb_name table, [b])] db = (Ok (), db')
    \<and> holdsRows env K L keys n table (DatabaseState_Copy state (Generation state + 1)) (R(getPrimaryKey r \<mapsto> r)) db'
    \<and> wal_disk (walManager db') = wal_disk (walManager db)
        @ mutationBuffer [transactionTask tx (Generation state + 1) walRecords [(tb_name table, [b])]]
        @ walBytes [marker OpCommitTransaction (transactionTask tx (Generation state + 1) walRecords [(tb_name table, [b])])]"
proof -
  note p = holdsAtD [OF h]
  let ?n = "tb_name table" and ?g = "Generation state + 1" and ?k = "keyBytes (getPrimaryKey r)"
  let ?task = "transactionTask tx ?g walRecords [(?n, [b])]"
  have "wf_env (de_go env)" using p(4) by (simp add: quietEnv_def)
  then have b: "int (length b) \<le> maxRecordSize" using rowOk_bytes [OF r(1)] r(2) by auto
  have ta: "TableAppends ?task = [(?n, [b])]" by (simp add: transactionTask_def)
  obtain ptr ts' wm where sub: "submitTask env ?task db = (Ok [(?n, [ptr])], db\<lparr>walManager := wm, tableStorageMap := (tableStorageMap db)(?n \<mapsto> ts')\<rparr>)"
    "wal_ok wm" "wal_disk wm = wal_disk (walManager db) @ mutationBuffer [?task] @ walBytes [marker OpCommitTransaction ?task]"
    "storage_ok ts'" "stored ts' ptr b" "\<forall>q c. stored ts q c \<longrightarrow> stored ts' q c"
    "sint (currentSize ts') \<le> sint (currentSize ts) + maxRecordSize"
    using submitTask_run [OF h b ta] by (elim exE conjE) (rule that)
  let ?db1 = "db\<lparr>walManager := wm, tableStorageMap := (tableStorageMap db)(?n \<mapsto> ts')\<rparr>"
  have "unat ?g = unat (Generation state) + 1" using p(10) by (simp add: unat_word_ariths)
  then have g: "unat ?g + n + 1 < 2 ^ 64" using p(10) by simp
  obtain t1 t2 where e: "shadowInsertNoCommit env ?n r ptr ?g ?db1 = (Ok (), ?db1\<lparr>shadowIndexes := (shadowIndexes ?db1)(?n \<mapsto> t1)\<rparr>)"
    "shadowCommit env ?n ?g (?db1\<lparr>shadowIndexes := (shadowIndexes ?db1)(?n \<mapsto> t1)\<rparr>) = (Ok (), ?db1\<lparr>shadowIndexes := (shadowIndexes ?db1)(?n \<mapsto> t2)\<rparr>)"
    "\<forall>state' db'. Generation state' = ?g \<longrightarrow> readyTable table state' t2 ts' db' \<longrightarrow> holdsRows env K L keys n table state' (R(getPrimaryKey r \<mapsto> r)) db'"
    using enter_row [OF h r sub(4-7) order_refl g, of ?db1] p(11) by auto
  let ?db3 = "?db1\<lparr>shadowIndexes := (shadowIndexes ?db1)(?n \<mapsto> t2)\<rparr>"
  obtain st where "tableStateOf state ?n = Some st" using p(5) by (auto simp: plainTable_def split: option.splits)
  then have "applyTable env state ?g [(?n, [ptr])] (?n, NewTableChangeSet\<lparr>Inserts := [(getPrimaryKey r, r)]\<rparr>) ?db1 = (Ok (), ?db3)"
    using e(1,2) by (simp add: applyTable_def NewTableChangeSet_def applyInsert_def)
  then have run: "writeAndApply env tx ?g walRecords [(?n, [b])] db = (Ok (), publish (DatabaseState_Copy state ?g) ?db3)"
    using sub(1) tx by (simp add: writeAndApply_def)
  have "readyTable table (DatabaseState_Copy state ?g) t2 ts' (publish (DatabaseState_Copy state ?g) ?db3)"
    using p(5,7,8) sub(2) by (simp add: readyTable_def publish_def plainTable_Copy)
  then show ?thesis using run sub(3) e(3) Generation_Copy by (auto simp: publish_def)
qed

lemma holdsRows_mono:
  assumes "holdsRows env K L keys n table state R db" "m \<le> n"
  shows "holdsRows env K L keys m table state R db"
proof -
  obtain t ts M where h: "holdsAt env K L keys n table state R t ts M db" using assms(1) by (auto simp: holdsRows_def)
  note p = holdsAtD [OF h]
  obtain h' F where F: "tree_keys.forest (fmtOf env) K L h' t F" "tree_keys.catalogOf t F" "h' + n < de_fuel env"
    "unat (nextPageID t) + n * (2 * de_fuel env + 4) < 2 ^ 64" "M = tree_keys.mapsOf F"
    using p(12) unfolding tree_keys.indexes_def [OF p(1)] by blast
  have le: "m * (2 * de_fuel env + 4) \<le> n * (2 * de_fuel env + 4)" using assms(2) by (rule mult_le_mono1)
  have "tree_keys.indexes (fmtOf env) K L m (de_fuel env) t M"
    unfolding tree_keys.indexes_def [OF p(1)] using F le assms(2) by (intro exI [of _ h'] exI [of _ F]) linarith
  moreover have "savedTree (de_fuel env) (Generation state + 1) m t"
    using p(13) order.strict_trans1 [OF add_left_mono [OF le, of "unat (nextPageID t)"]] by (simp add: savedTree_def)
  moreover have "int m * maxRecordSize \<le> int n * maxRecordSize" using assms(2) by (simp add: maxRecordSize_def)
  then have "sint (currentSize ts) + int m * maxRecordSize < 2 ^ 63" using p(16) by linarith
  ultimately have "holdsAt env K L keys m table state R t ts M db" using h assms(2) by (simp add: holdsAt_def)
  then show ?thesis by (auto simp: holdsRows_def)
qed

lemma holdsRows_log:
  "holdsRows env K L keys n table state R db \<Longrightarrow> wal_ok wm \<Longrightarrow> holdsRows env K L keys n table state R (db\<lparr>walManager := wm\<rparr>)"
  by (auto simp: holdsRows_def holdsAt_def)

lemma Rollback_run:
  assumes "holdsRows env K L keys n table state R db" "active tx"
  shows "\<exists>db'. Rollback env (tx, db) = (Ok (), (tx\<lparr>active := False\<rparr>, db')) \<and> holdsRows env K L keys n table state R db'"
proof -
  have ok: "wal_ok (walManager db)" and q: "de_rollback env = (WOk, None)" using assms(1) by (auto simp: holdsRows_def holdsAt_def quietEnv_def)
  obtain wm where "AppendRollbackMarker (transactionID tx) (currentGeneration db + 1) (RollbackReason (changeSet tx)) WOk None (walManager db)
      = (Ok (), wm)" "wal_ok wm"
    using ok by (auto simp: AppendRollbackMarker_def walFile_Write_def walFile_Sync_def wal_ok_def Let_def)
  then show ?thesis using assms q holdsRows_log [OF assms(1)] by (auto simp: Rollback_def)
qed

text \<open>The change set of a new transaction after one insertion.\<close>

lemma stageInsert_new:
  fixes k r :: gval and ident :: "64 word"
  assumes "plainTable table state"
  defines "tx \<equiv> stageInsert (tb_name table) k r (touchTable (tb_name table) (NewTransaction ident state))"
  shows "active tx" "tx_committedState tx = state" "\<not> RollbackOnly (changeSet tx)" "transactionID tx = ident"
    "TableChanges (changeSet tx) = [(tb_name table, NewTableChangeSet\<lparr>Inserts := [(k, r)]\<rparr>)]"
  using assms(1)
  by (auto simp: tx_def stageInsert_def touchTable_def NewTransaction_def NewTransactionChangeSet_def GetTableChanges_def putTableChanges_def
      addIndexChanges_def plainTable_def NewTableChangeSet_def Let_def split: option.splits)

lemma Commit_insert_run:
  assumes h: "holdsRows env K L keys (Suc (Suc n)) table state R db" and r: "rowOk table keys r"
    and tx: "active tx" "tx_committedState tx = state" "\<not> RollbackOnly (changeSet tx)"
      "TableChanges (changeSet tx) = [(tb_name table, NewTableChangeSet\<lparr>Inserts := [(getPrimaryKey r, r)]\<rparr>)]"
  shows "\<exists>tx' db'. Commit env (tx, db) = (Ok (), (tx', db'))
    \<and> holdsRows env K L keys n table (committedState db') (R(getPrimaryKey r \<mapsto> r)) db'"
proof -
  obtain t ts M where at: "holdsAt env K L keys (Suc (Suc n)) table state R t ts M db" using h by (auto simp: holdsRows_def)
  note p = holdsAtD [OF at]
  obtain st where st: "tableStateOf state (tb_name table) = Some st" "IndexMetadataList st = []"
    using p(5) by (auto simp: plainTable_def split: option.splits)
  have "wf_env (de_go env)" using p(4) by (simp add: quietEnv_def)
  then obtain b where b: "Marshal r = Ok b" by (rule rowOk_bytes [OF r])
  let ?tx = "tx\<lparr>active := False\<rparr>"
  have val: "validateUniqueIndexes env ?tx db = (Ok (), db)"
    using tx(2,4) st by (simp add: validateUniqueIndexes_def validateTable_def NewTableChangeSet_def IsEmpty_def)
  obtain w where log: "transactionLog ?tx (Generation state + 1) (TableChanges (changeSet ?tx)) = Ok ([w], [(tb_name table, [b])])"
    using tx(2,4) b by (simp add: tableLog_def NewTableChangeSet_def IsEmpty_def Let_def)
  obtain db' where db': "writeAndApply env ?tx (Generation state + 1) [w] [(tb_name table, [b])] db = (Ok (), db')"
    "holdsRows env K L keys n table (DatabaseState_Copy state (Generation state + 1)) (R(getPrimaryKey r \<mapsto> r)) db'"
    using writeAndApply_run [OF at r b, of ?tx] tx(2,4) by auto
  have "committedState db' = DatabaseState_Copy state (Generation state + 1)" using db'(2) by (auto simp: holdsRows_def holdsAt_def)
  moreover have "commitBody env ?tx db = (Ok (), db')"
    using val log db'(1) p(6) by (simp add: commitBody_def currentGeneration_def)
  ultimately show ?thesis using db'(2) tx(1,3) by (simp add: Commit_def)
qed

text \<open>\<^verbatim>\<open>Table.Insert\<close> without a transaction.\<close>

definition insertMap :: "gval \<Rightarrow> (gval \<rightharpoonup> gval) \<Rightarrow> unit res \<times> (gval \<rightharpoonup> gval)" where
  "insertMap r m = (if m (getPrimaryKey r) = None then (Ok (), m(getPrimaryKey r \<mapsto> r))
     else (Err (Errorf ''record already exists''), m))"

lemma Table_Insert_run:
  assumes h: "holdsRows env K L keys (Suc (Suc n)) table (committedState db) R db" and r: "rowOk table keys r"
  shows "\<exists>db'. Table_Insert env ident table r db = (fst (insertMap r R), db')
    \<and> holdsRows env K L keys n table (committedState db') (snd (insertMap r R)) db'"
proof -
  let ?state = "committedState db" and ?k = "getPrimaryKey r"
  let ?new = "NewTransaction ident ?state" and ?n = "tb_name table"
  let ?tx = "touchTable ?n ?new"
  have pl: "plainTable table ?state" and open_db: "\<not> db_closed db" using h by (auto simp: holdsRows_def holdsAt_def)
  note k = rowOk_key [OF r]
  have ok: "txOk table ?state R ?tx" "txView table R ?tx = R" using txOk_NewTransaction by simp_all
  obtain db1 where db1: "keyExists env ?n ?k (?tx, db) = (Ok (R ?k \<noteq> None), (?tx, db1))"
    "holdsRows env K L keys (Suc (Suc n)) table ?state R db1"
    using disk_rows.keyExists_run [OF h k(2) ok(1)] ok(2) by auto
  have a0: "active ?new" by (simp add: NewTransaction_def)
  show ?thesis
  proof (cases "R ?k = None")
    case True
    let ?staged = "stageInsert ?n ?k r ?tx"
    have ins: "table_insert env table r (?new, db) = (Ok (), (?staged, db1))"
      using a0 db1(1) True k(3) by (simp add: table_insert_def modifyTx_def bindD_def)
    note s = stageInsert_new [OF pl, of ?k r ident]
    obtain tx' db' where "Commit env (?staged, db1) = (Ok (), (tx', db'))"
      "holdsRows env K L keys n table (committedState db') (R(?k \<mapsto> r)) db'"
      using Commit_insert_run [OF db1(2) r s(1-3,5)] by blast
    then show ?thesis
      using ins open_db True s(1) by (simp add: Table_Insert_def runCallback_def insertMap_def)
  next
    case False
    then have ins: "table_insert env table r (?new, db) = (Err (Errorf ''record already exists''), (?tx, db1))"
      using a0 db1(1) k(3) by (simp add: table_insert_def modifyTx_def bindD_def)
    obtain tx' db' where rb: "Rollback env (?tx, db1) = (Ok (), (tx', db'))" "holdsRows env K L keys (Suc (Suc n)) table ?state R db'"
      using Rollback_run [OF db1(2) txOkD(1) [OF ok(1)]] by blast
    have "committedState db' = ?state" using rb(2) by (auto simp: holdsRows_def holdsAt_def)
    then have "holdsRows env K L keys n table (committedState db') R db'" using holdsRows_mono [OF rb(2), of n] by simp
    then show ?thesis
      using ins rb(1) open_db False by (auto simp: Table_Insert_def runCallback_def insertMap_def)
  qed
qed

lemma inserts_run:
  assumes "holdsRows env K L keys (2 * length calls + n) table (committedState db) R db" "list_all (\<lambda>c. rowOk table keys (snd c)) calls"
  shows "\<exists>db'. runCalls (\<lambda>(ident, r). Table_Insert env ident table r) calls db = (fst (runCalls insertMap (map snd calls) R), db')
    \<and> holdsRows env K L keys n table (committedState db') (snd (runCalls insertMap (map snd calls) R)) db'"
  using assms
proof (induction calls arbitrary: db R)
  case (Cons c calls)
  obtain ident r where c: "c = (ident, r)" by (cases c)
  have "holdsRows env K L keys (Suc (Suc (2 * length calls + n))) table (committedState db) R db" using Cons.prems(1) by simp
  then obtain db1 where one: "Table_Insert env ident table r db = (fst (insertMap r R), db1)"
    "holdsRows env K L keys (2 * length calls + n) table (committedState db1) (snd (insertMap r R)) db1"
    using Table_Insert_run [of env K L keys "2 * length calls + n" table db R r ident] Cons.prems(2) c by auto
  obtain db' where "runCalls (\<lambda>(ident, r). Table_Insert env ident table r) calls db1 = (fst (runCalls insertMap (map snd calls) (snd (insertMap r R))), db')"
    "holdsRows env K L keys n table (committedState db') (snd (runCalls insertMap (map snd calls) (snd (insertMap r R)))) db'"
    using Cons.IH [OF one(2)] Cons.prems(2) by auto
  then show ?case using one(1) c by (auto split: prod.split)
qed simp

section \<open>An example\<close>

text \<open>A table of users with string identifiers, on new files.\<close>

definition shortIDs :: "gval set" where
  "shortIDs = {VString s | s. length s \<le> 250}"

definition userFields :: "gfield list" where
  "userFields = [GField ''ID'' [] ''id'' TString, GField ''Name'' [] [] TString]"

definition user :: "string \<Rightarrow> string \<Rightarrow> gval" where
  "user ident name = VStruct ''main.User'' userFields [VString ident, VString name]"

definition users :: Table where
  "users = \<lparr>tb_name = ''users'', tb_IdType = TString, tb_Type = TStruct ''main.User'' userFields\<rparr>"

definition usersState :: DatabaseState where
  "usersState = \<lparr>Generation = 1, Tables = [(''users'', NewTableState ''users'' TString (TStruct ''main.User'' userFields) [])]\<rparr>"

text \<open>An environment without errors; \<open>fmt\<close> prints values.\<close>

definition quietWith :: "(gval \<Rightarrow> string) \<Rightarrow> db_env" where
  "quietWith fmt = \<lparr>de_go = exampleEnv\<lparr>Sprintf := fmt\<rparr>, de_fuel = 20, de_leafFuel = 20, de_order = \<lparr>mo_roots = \<lambda>xs. xs, mo_dirty = \<lambda>xs. xs\<rparr>,
     de_tableOpen = (\<lambda>n. \<lparr>oi_mkdir = None, oi_open = None, oi_stat = None\<rparr>), de_indexOpen = (\<lambda>n. None), de_indexStat = (\<lambda>n. None),
     de_indexIo = (\<lambda>n. []), de_truncate = (\<lambda>n. None), de_read = (\<lambda>n p. None),
     de_task = \<lparr>ti_write = WOk, ti_sync = None, ti_append = (\<lambda>i n. WOk), ti_tableSync = (\<lambda>n. None), ti_order = (\<lambda>ns. ns),
       ti_write2 = WOk, ti_sync2 = None\<rparr>,
     de_rollback = (WOk, None), de_append = (\<lambda>n. WOk), de_reset = (\<lambda>n. \<lparr>ri_truncate = None, ri_seek = None, ri_sync = None\<rparr>),
     de_compact = (\<lambda>n. \<lparr>ci_open = None, ci_read = (\<lambda>i. None), ci_write = (\<lambda>i. WOk), ci_sync = None, ci_close = None, ci_rename = None,
       ci_reopen = None\<rparr>), de_snapshot = None\<rparr>"

abbreviation quiet :: db_env where
  "quiet \<equiv> quietWith (\<lambda>v. [])"

definition usersDb :: Database where
  "usersDb = \<lparr>directory = ''/data'', walManager = \<lparr>wal_file = OpenFile, wal_disk = [], wal_pos = 0, durability = DurabilitySync\<rparr>,
     walClosed = False, committedState = usersState, tableMetadataMap = [''users'' \<mapsto> \<lparr>tm_IdType = TString, tm_Type = tb_Type users\<rparr>],
     tableStorageMap = [''users'' \<mapsto> \<lparr>ts_file = OpenFile, ts_path = ''/data/users.tbl'', currentSize = 0, ts_disk = []\<rparr>],
     db_closed = False, databaseID = 5, shadowIndexes = [''users'' \<mapsto> freshTree],
     typeRegistry = [(''main.User'', tb_Type users), (''User'', tb_Type users), (''string'', TString)],
     tableFiles = Map.empty, indexFiles = Map.empty, snapshotFiles = []\<rparr>"

lemma shortIDs_keySpace: "keySpace stringKeys 256 shortIDs"
proof -
  have kb: "serializeKey (VString s) = Ok (encoding (VString s))" for s by (simp add: serializeKey_def)
  have "keyBytes (VString s) = encoding (VString s)" for s by (simp add: keyBytes_def kb)
  moreover have "encoding (VString s) \<in> stringKeys" if "length s \<le> 250" for s
    using that unfolding stringKeys_def by (intro imageI) (simp add: encodableName_def maxStringLength_def)
  ultimately show ?thesis
    by (auto simp: keySpace_def shortIDs_def kb inj_on_def writeString_def)
qed

lemma quiet_run: "quietEnv (quietWith fmt) n" "fmtOf (quietWith fmt) = fmt" "de_fuel (quietWith fmt) = 20"
  by (simp_all add: quietEnv_def quietTask_def quietWith_def wf_env_def exampleEnv_def)

lemma users_plain: "plainTable users usersState"
  by code_simp

lemma usersDb_rows:
  assumes "n \<le> 15"
  shows "holdsRows (quietWith fmt) stringKeys 256 shortIDs n users usersState Map.empty usersDb"
proof -
  have tk: "tree_keys fmt stringKeys 256" by (rule tree_keys_string) simp
  have ix: "tree_keys.indexes (fmtOf (quietWith fmt)) stringKeys 256 n (de_fuel (quietWith fmt)) freshTree (\<lambda>_. Map.empty)"
    unfolding quiet_run using assms by (intro tree_keys.fresh_indexes [OF tk]) simp_all
  have sv: "savedTree (de_fuel (quietWith fmt)) (Generation usersState + 1) n freshTree"
    using assms by (simp add: savedTree_def fresh_run usersState_def quiet_run)
  have "holdsAt (quietWith fmt) stringKeys 256 shortIDs n users usersState Map.empty freshTree
      \<lparr>ts_file = OpenFile, ts_path = ''/data/users.tbl'', currentSize = 0, ts_disk = []\<rparr> (\<lambda>_. Map.empty) usersDb"
    unfolding holdsAt_def
    using ix sv tk shortIDs_keySpace quiet_run(1) users_plain assms
    by (simp add: quiet_run(2) fitLimit_def usersDb_def users_def wal_ok_def storage_ok_def rowAt_def usersState_def maxRecordSize_def)
  then show ?thesis by (auto simp: holdsRows_def)
qed

lemma user_key: "getPrimaryKey (user ident name) = VString ident"
proof -
  have "case getStructMetadata (TStruct ''main.User'' userFields) of None \<Rightarrow> False
      | Some md \<Rightarrow> sf_name (idField md) = ''ID'' \<and> sf_index (idField md) = 0" by code_simp
  then show ?thesis by (auto simp: user_def getPrimaryKey_def fieldAt_def derefOrNil_def split: option.splits)
qed

lemma user_rowOk: "rowOk users shortIDs (user ''7'' ''Ada'')" "rowOk users shortIDs (user ''8'' ''Bob'')"
proof -
  have "storable (user ''7'' ''Ada'') (tb_Type users)" "storable (user ''8'' ''Bob'') (tb_Type users)"
    "encodable (user ''7'' ''Ada'')" "encodable (user ''8'' ''Bob'')"
    "case Marshal (user ''7'' ''Ada'') of Ok b \<Rightarrow> int (length b) \<le> maxRecordSize | _ \<Rightarrow> False"
    "case Marshal (user ''8'' ''Bob'') of Ok b \<Rightarrow> int (length b) \<le> maxRecordSize | _ \<Rightarrow> False" by code_simp+
  then show "rowOk users shortIDs (user ''7'' ''Ada'')" "rowOk users shortIDs (user ''8'' ''Bob'')"
    by (simp_all add: rowOk_def typedKey_def user_key shortIDs_def users_def Let_def) (simp_all add: user_def)
qed

section \<open>Properties\<close>

text \<open>C4: whatever sequence of insert, update, upsert, delete and clear calls a transaction makes on a
  table, with errors in between or not, each call returns what the same call on a finite map
  returns, and what the transaction sees of the table afterwards is that map.\<close>

theorem table_calls_refine_map:
  assumes "holdsRows env K L keys n table state R db" "list_all (callOk table keys) calls" "txOk table state R tx"
  shows "\<exists>tx' db'. runCalls (callTable env table) calls (tx, db) = (fst (runCalls callMap calls (txView table R tx)), (tx', db'))
    \<and> txView table R tx' = snd (runCalls callMap calls (txView table R tx)) \<and> txOk table state R tx'
    \<and> holdsRows env K L keys n table state R db'"
  using disk_rows.calls_run [OF assms] .

theorem table_calls_refine_map_witness:
  "\<exists>tx' db'. runCalls (callTable quiet users) [CallInsert (user ''7'' ''Ada''), CallInsert (user ''7'' ''Eve''), CallDelete (VString ''7'')]
      (NewTransaction 9 usersState, usersDb)
    = ([Ok True, Err (Errorf ''record already exists''), Ok True], (tx', db')) \<and> txView users Map.empty tx' (VString ''7'') = None"
proof -
  have "list_all (callOk users shortIDs) [CallInsert (user ''7'' ''Ada''), CallInsert (user ''7'' ''Eve''), CallDelete (VString ''7'')]"
    by (simp add: callOk_def typedKey_def user_key shortIDs_def users_def)
  from table_calls_refine_map [OF usersDb_rows [of 0 "\<lambda>v. []", simplified] this txOk_NewTransaction(1), of 9]
  show ?thesis by (auto simp: callMap_def txOk_NewTransaction user_key)
qed

text \<open>C36: in a transaction that deletes a row and inserts a new one under the same key, both calls succeed, and
  yet the transaction does not find the row by its key.\<close>

theorem reinserted_row_not_found:
  assumes "holdsRows env K L keys n table state R db" "k \<in> keys" "R k = Some old" "getPrimaryKey r = k" "typedKey table r = Ok k"
  shows "\<exists>tx' tx'' db' db''. runCalls (callTable env table) [CallDelete k, CallInsert r] (NewTransaction ident state, db)
      = ([Ok True, Ok True], (tx', db'))
    \<and> txView table R tx' k = Some r \<and> FindByID env table k (tx', db') = (Ok None, (tx'', db''))"
proof -
  have "GetTableChanges (tb_name table) (NewTransaction ident state) = NewTableChangeSet"
    by (simp add: GetTableChanges_def NewTransaction_def NewTransactionChangeSet_def)
  then show ?thesis using disk_rows.reinsert_run [OF assms txOk_NewTransaction(1)] by blast
qed

text \<open>C1: a sequence of insertions, each in a transaction of its own, through change set, log, table file
  and index, answers as a map does (a key that is there is refused), and afterwards every lookup by
  key reads from the files exactly the row the map holds. The bound on the steps left allows two per
  insertion.\<close>

theorem inserted_rows_are_found:
  assumes "holdsRows env K L keys (2 * length calls + n) table (committedState db) R db"
    and "list_all (\<lambda>c. rowOk table keys (snd c)) calls" "k \<in> keys"
  shows "\<exists>db' db''. runCalls (\<lambda>(ident, r). Table_Insert env ident table r) calls db = (fst (runCalls insertMap (map snd calls) R), db')
    \<and> FindByID_committed env table k db' = (Ok (snd (runCalls insertMap (map snd calls) R) k), db'')"
  using inserts_run [OF assms(1,2)] disk_rows.find_row [OF _ assms(3)] unfolding FindByID_committed_def by blast

theorem inserted_rows_are_found_witness:
  "\<exists>db' db''. runCalls (\<lambda>(ident, r). Table_Insert quiet ident users r)
      [(1, user ''7'' ''Ada''), (2, user ''8'' ''Bob''), (3, user ''7'' ''Ada'')] usersDb
      = ([Ok (), Ok (), Err (Errorf ''record already exists'')], db')
    \<and> FindByID_committed quiet users (VString ''7'') db' = (Ok (Some (user ''7'' ''Ada'')), db'')"
proof -
  have s: "committedState usersDb = usersState" by (simp add: usersDb_def)
  have k: "VString ''7'' \<in> shortIDs" by (simp add: shortIDs_def)
  have h: "holdsRows quiet stringKeys 256 shortIDs (2 * length [(1 :: 64 word, user ''7'' ''Ada''), (2, user ''8'' ''Bob''), (3, user ''7'' ''Ada'')] + 0)
      users (committedState usersDb) Map.empty usersDb"
    unfolding s by (rule usersDb_rows) simp
  show ?thesis using inserted_rows_are_found [OF h _ k] user_rowOk by (auto simp: insertMap_def user_key)
qed

theorem reinserted_row_not_found_witness:
  "\<exists>db tx' tx'' db' db''. runCalls (callTable quiet users) [CallDelete (VString ''7''), CallInsert (user ''7'' ''Eve'')]
      (NewTransaction 9 (committedState db), db) = ([Ok True, Ok True], (tx', db'))
    \<and> FindByID quiet users (VString ''7'') (tx', db') = (Ok None, (tx'', db''))"
proof -
  have s: "committedState usersDb = usersState" by (simp add: usersDb_def)
  have h: "holdsRows quiet stringKeys 256 shortIDs (Suc (Suc 0)) users (committedState usersDb) Map.empty usersDb"
    unfolding s by (rule usersDb_rows) simp
  obtain db where db: "holdsRows quiet stringKeys 256 shortIDs 0 users (committedState db) [VString ''7'' \<mapsto> user ''7'' ''Ada''] db"
    using Table_Insert_run [OF h user_rowOk(1), of 1] by (auto simp: insertMap_def user_key)
  have k: "VString ''7'' \<in> shortIDs" "typedKey users (user ''7'' ''Eve'') = Ok (VString ''7'')"
    by (simp_all add: shortIDs_def typedKey_def user_key users_def)
  show ?thesis using reinserted_row_not_found [OF db k(1) fun_upd_same user_key k(2), of 9] by blast
qed

end
