(* ===== verification/TransactionLaws.thy ===== *)
theory TransactionLaws
  imports TableStore
begin

text \<open>
  Properties of \<open>Commit\<close>: what a successful commit leaves in the log, that unique indexes accept no two
  rows of one transaction with the same value, and where the order of the steps goes wrong (clearing
  a table whose index file does not exist, dropping a table whose index is open).
\<close>

section \<open>Frames\<close>

text \<open>\<open>leaves h m\<close>: the operation \<open>m\<close> does not change what \<open>h\<close> sees of the state.\<close>

definition leaves :: "('s \<Rightarrow> 'h) \<Rightarrow> ('s, 'a) op \<Rightarrow> bool" where
  "leaves h m = (\<forall>s. h (snd (m s)) = h s)"

named_theorems frame

lemma leaves_basic [frame]:
  "leaves h (returnD x)" "leaves h (liftD r)" "(\<And>s. h (f s) = h s) \<Longrightarrow> leaves h (modifyD f)"
  by (simp_all add: leaves_def)

lemma leaves_bindD [frame]: "leaves h m \<Longrightarrow> (\<And>x. leaves h (f x)) \<Longrightarrow> leaves h (bindD m f)"
  unfolding leaves_def bindD_def by (auto split: prod.split res.split) (metis snd_conv)+

lemma leaves_attemptD [frame]: "leaves h m \<Longrightarrow> leaves h (attemptD m)"
  unfolding leaves_def attemptD_def by (auto split: prod.split res.split) (metis snd_conv)+

lemma leaves_forD [frame]: "(\<And>b x. leaves h (f b x)) \<Longrightarrow> leaves h (forD bs f x)"
  by (induction bs arbitrary: x) (simp_all add: frame)

lemma leavesD: "leaves h m \<Longrightarrow> m s = (r, s') \<Longrightarrow> h s' = h s"
  unfolding leaves_def by (metis snd_conv)

text \<open>Reading and changing indexes and table files touches neither the log nor the committed state nor the
  snapshots.\<close>

definition logged :: "Database \<Rightarrow> WalManager \<times> DatabaseState \<times> (string \<times> bytes) list" where
  "logged db = (walManager db, committedState db, snapshotFiles db)"

lemma leaves_open [frame]:
  "leaves logged (tableStorage env n)" "leaves logged (getShadowNamedIndex env n)" "leaves logged (onTree n f)"
  by (auto simp: leaves_def logged_def tableStorage_def getShadowNamedIndex_def onTree_def Let_def split: sum.split option.split prod.split res.split)

lemma leaves_if [frame]: "leaves h a \<Longrightarrow> leaves h b \<Longrightarrow> leaves h (if c then a else b)"
  by simp

lemma leaves_option [frame]: "leaves h a \<Longrightarrow> (\<And>x. leaves h (b x)) \<Longrightarrow> leaves h (case y of None \<Rightarrow> a | Some x \<Rightarrow> b x)"
  by (cases y) simp_all

lemma leaves_sum [frame]: "(\<And>x. leaves h (a x)) \<Longrightarrow> (\<And>x. leaves h (b x)) \<Longrightarrow> leaves h (case y of Inl x \<Rightarrow> a x | Inr x \<Rightarrow> b x)"
  by (cases y) simp_all

lemma leaves_prod [frame]: "(\<And>x y. leaves h (a x y)) \<Longrightarrow> leaves h (case p of (x, y) \<Rightarrow> a x y)"
  by (cases p) simp_all

lemma leaves_read [frame]: "leaves logged (readRecordAs env n t p)"
  unfolding readRecordAs_def by (intro frame)

lemma leaves_readCommitted [frame]: "leaves logged (readCommittedRecord env state n k)"
  unfolding readCommittedRecord_def by (intro frame)

lemma leaves_shadow [frame]:
  "leaves logged (shadowInsertNoCommit env n r p g)" "leaves logged (shadowDeleteNoCommit env n k old g)" "leaves logged (shadowCommit env n g)"
  unfolding shadowInsertNoCommit_def shadowDeleteNoCommit_def shadowCommit_def withIndex_def Let_def by (intro frame)+

lemma leaves_shadowClear [frame]: "leaves logged (shadowClear env n)"
proof -
  have "walManager (snd (getShadowNamedIndex env n d)) = walManager d" "committedState (snd (getShadowNamedIndex env n d)) = committedState d"
    "snapshotFiles (snd (getShadowNamedIndex env n d)) = snapshotFiles d" for d
    using leaves_open(2) [of env n] by (simp_all add: leaves_def logged_def)
  then show ?thesis by (auto simp: leaves_def shadowClear_def logged_def Let_def split: option.split)
qed

lemma leaves_validate [frame]:
  "leaves logged (removedValues env state n cs f)" "leaves logged (committedHolder env n ts i v)"
  unfolding removedValues_def committedHolder_def Let_def by (intro frame)+

lemma leaves_validateTable [frame]: "leaves logged (validateTable env state change)"
  unfolding validateTable_def validateIndex_def checkConflict_def Let_def by (intro frame)

lemma leaves_validateUniqueIndexes [frame]: "leaves logged (validateUniqueIndexes env tx)"
  unfolding validateUniqueIndexes_def by (intro frame)

lemma leaves_applyTable [frame]: "leaves logged (applyTable env state g ps change)"
  unfolding applyTable_def applyDelete_def applyInsert_def applyUpdate_def Let_def by (intro frame)

section \<open>Committing\<close>

lemma forD_Ok_step: "forD bs f x s = (Ok y, s') \<Longrightarrow> b \<in> set bs \<Longrightarrow> \<exists>x1 s1 x2 s2. f b x1 s1 = (Ok x2, s2)"
  by (induction bs arbitrary: x s) (auto dest!: bindD_Ok)

lemma submitTask_logged:
  assumes "wal_ok (walManager db)" "submitTask env task db = (Ok ps, db')"
  shows "wal_disk (walManager db') = wal_disk (walManager db) @ walBytes (taskMutations task @ [marker OpCommitTransaction task])
    \<and> committedState db' = committedState db"
proof -
  obtain results wm st where r: "processTasks (getTableStorage (db_closed db) (directory db) (tableFiles db) (de_tableOpen env))
      (de_task env) [task] (walManager db, tableStorageMap db) = (results, wm, st)" (is "?p = _") by (cases ?p) auto
  have db': "hd results = Ok ps" "db' = db\<lparr>walManager := wm, tableStorageMap := st\<rparr>"
    using assms(2) r by (auto simp: submitTask_def split: if_splits)
  have "length results = 1" by (rule processTasks_unfold [OF assms(1) r]) simp_all
  then have "results ! 0 = Ok ps" using db'(1) by (cases results) auto
  then obtain markers where "length markers = 1" "markers ! 0 = marker OpCommitTransaction task"
    "wal_disk wm = wal_disk (walManager db) @ mutationBuffer [task] @ walBytes markers"
    using processTasks_acknowledged [OF assms(1) r, of 0 ps] by auto
  then have "wal_disk wm = wal_disk (walManager db) @ walBytes (taskMutations task @ [marker OpCommitTransaction task])"
    by (cases markers) (auto simp: mutationBuffer_walBytes walBytes_def)
  then show ?thesis using db'(2) by simp
qed

lemma writeAndApply_logged:
  assumes "wal_ok (walManager db)" "writeAndApply env tx g ws as db = (Ok (), db')"
  shows "wal_disk (walManager db') = wal_disk (walManager db)
      @ walBytes (taskMutations (transactionTask tx g ws as) @ [marker OpCommitTransaction (transactionTask tx g ws as)])
    \<and> committedState db' = DatabaseState_Copy (tx_committedState tx) g"
proof -
  obtain ps db1 db2 where s: "submitTask env (transactionTask tx g ws as) db = (Ok ps, db1)"
    and f: "forD (TableChanges (changeSet tx)) (\<lambda>change _. applyTable env (tx_committedState tx) g ps change) () db1 = (Ok (), db2)"
    and db': "db' = publish (DatabaseState_Copy (tx_committedState tx) g) db2"
    using assms(2) unfolding writeAndApply_def
    by (auto dest!: bindD_Ok simp: attemptD_def split: prod.splits res.splits sum.splits)
  have "leaves logged (forD (TableChanges (changeSet tx)) (\<lambda>change _. applyTable env (tx_committedState tx) g ps change) ())"
    by (intro frame)
  from leavesD [OF this f] have "walManager db2 = walManager db1" by (simp add: logged_def)
  then show ?thesis using submitTask_logged [OF assms(1) s] db' by (simp add: publish_def)
qed

lemma Commit_logged:
  assumes ok: "wal_ok (walManager db)" and c: "Commit env (tx, db) = (Ok (), (tx', db'))"
    and log: "transactionLog (tx\<lparr>active := False\<rparr>) (Generation (committedState db) + 1) (TableChanges (changeSet tx)) = Ok (ws, as)" "ws \<noteq> []"
  defines "task \<equiv> transactionTask tx (Generation (committedState db) + 1) ws as"
  shows "wal_disk (walManager db') = wal_disk (walManager db) @ walBytes (taskMutations task @ [marker OpCommitTransaction task])
    \<and> committedState db' = DatabaseState_Copy (tx_committedState tx) (Generation (committedState db) + 1) \<and> \<not> active tx'"
proof -
  let ?tx = "tx\<lparr>active := False\<rparr>"
  have body: "commitBody env ?tx db = (Ok (), db')" "tx' = ?tx" using c by (auto simp: Commit_def split: if_splits prod.splits)
  obtain db1 where v: "validateUniqueIndexes env ?tx db = (Ok (), db1)"
    and w: "(let generation = currentGeneration db1 + 1 in
       case transactionLog ?tx generation (TableChanges (changeSet ?tx)) of
         Ok (walRecords, tableAppends) \<Rightarrow>
           if walRecords \<noteq> [] \<or> tableAppends \<noteq> [] then writeAndApply env ?tx generation walRecords tableAppends db1
           else (Ok (), db1)
       | Err e \<Rightarrow> (Err e, db1) | Panic p \<Rightarrow> (Panic p, db1) | NoFuel \<Rightarrow> (NoFuel, db1)) = (Ok (), db')"
    using body(1) unfolding commitBody_def by (auto dest!: bindD_Ok)
  have same: "walManager db1 = walManager db" "committedState db1 = committedState db"
    using leavesD [OF leaves_validateUniqueIndexes v] by (simp_all add: logged_def)
  have "writeAndApply env ?tx (Generation (committedState db) + 1) ws as db1 = (Ok (), db')"
    using w log same(2) by (simp add: currentGeneration_def Let_def)
  then show ?thesis
    using writeAndApply_logged [of db1 env ?tx] ok same(1) body(2) by (simp add: task_def transactionTask_def)
qed

section \<open>Unique indexes\<close>

lemma checkConflict_loop:
  assumes "forD es (checkConflict env n ts cs m removed) added s = (Ok added', s')"
  shows "map_of added \<subseteq>\<^sub>m map_of added' \<and> (\<forall>(k, r) \<in> set es. getFieldValue r (FieldName m) \<noteq> VNil \<longrightarrow>
     map_of added' (canonicalizeKey (fmtOf env) (getFieldValue r (FieldName m))) = Some k)"
  using assms
proof (induction es arbitrary: added s)
  case (Cons e es)
  obtain k r where e: "e = (k, r)" by (cases e)
  let ?v = "canonicalizeKey (fmtOf env) (getFieldValue r (FieldName m))"
  obtain added1 s1 where one: "checkConflict env n ts cs m removed (k, r) added s = (Ok added1, s1)"
    and rest: "forD es (checkConflict env n ts cs m removed) added1 s1 = (Ok added', s')"
    using Cons.prems e by (auto dest!: bindD_Ok)
  have step: "map_of added \<subseteq>\<^sub>m map_of added1 \<and> (getFieldValue r (FieldName m) \<noteq> VNil \<longrightarrow> map_of added1 ?v = Some k)"
    using one by (auto simp: checkConflict_def Let_def map_le_def dom_def dest!: bindD_Ok split: if_splits option.splits)
  have IH: "map_of added1 \<subseteq>\<^sub>m map_of added' \<and> (\<forall>(k, r) \<in> set es. getFieldValue r (FieldName m) \<noteq> VNil \<longrightarrow>
     map_of added' (canonicalizeKey (fmtOf env) (getFieldValue r (FieldName m))) = Some k)" by (rule Cons.IH [OF rest])
  have "map_of added' ?v = Some k" if "getFieldValue r (FieldName m) \<noteq> VNil"
    using step IH that by (auto simp: map_le_def dom_def)
  then show ?case using step IH e map_le_trans by fastforce
qed simp

lemma duplicate_not_valid:
  assumes ch: "(n, cs) \<in> set (TableChanges (changeSet tx))" and st: "tableStateOf (tx_committedState tx) n = Some ts"
    and m: "m \<in> set (IndexMetadataList ts)" "Unique m"
    and e: "(k, r) \<in> set (Inserts cs @ Updates cs)" "(k', r') \<in> set (Inserts cs @ Updates cs)" "k \<noteq> k'"
    and v: "getFieldValue r (FieldName m) \<noteq> VNil" "getFieldValue r' (FieldName m) \<noteq> VNil"
      "canonicalizeKey (fmtOf env) (getFieldValue r (FieldName m)) = canonicalizeKey (fmtOf env) (getFieldValue r' (FieldName m))"
  shows "validateUniqueIndexes env tx db \<noteq> (Ok (), db')"
proof
  assume "validateUniqueIndexes env tx db = (Ok (), db')"
  then obtain s1 s2 where t: "validateTable env (tx_committedState tx) (n, cs) s1 = (Ok (), s2)"
    unfolding validateUniqueIndexes_def using forD_Ok_step [OF _ ch] by fastforce
  have "\<not> IsEmpty cs" using e(1) by (auto simp: IsEmpty_def)
  then have "forD (filter Unique (IndexMetadataList ts)) (\<lambda>m _. validateIndex env (tx_committedState tx) n ts cs m) () s1 = (Ok (), s2)"
    using t st by (simp add: validateTable_def)
  then obtain s3 s4 where "validateIndex env (tx_committedState tx) n ts cs m s3 = (Ok (), s4)"
    using forD_Ok_step [of "filter Unique (IndexMetadataList ts)" _ "()" s1 "()" s2 m] m by fastforce
  then obtain removed added s5 s6 where "forD (Inserts cs @ Updates cs) (checkConflict env n ts cs m removed) [] s5 = (Ok added, s6)"
    unfolding validateIndex_def by (auto dest!: bindD_Ok)
  note l = checkConflict_loop [OF this, THEN conjunct2]
  show False using bspec [OF l e(1)] bspec [OF l e(2)] v e(3) by simp
qed

section \<open>Tasks without records\<close>

lemma submitTask_plain:
  assumes "quietTask (de_task env)" "\<not> walClosed db" "wal_ok (walManager db)" "TableAppends task = []"
  shows "\<exists>wm. submitTask env task db = (Ok [], db\<lparr>walManager := wm\<rparr>)
    \<and> wal_disk wm = wal_disk (walManager db) @ walBytes (taskMutations task @ [marker OpCommitTransaction task])"
proof -
  let ?io = "de_task env" and ?wm = "walManager db"
  obtain wm1 where w1: "writeAndSync (mutationBuffer [task]) WOk None ?wm = (None, wm1)" "wal_ok wm1"
    "wal_disk wm1 = wal_disk ?wm @ mutationBuffer [task]" using writeAndSync_quiet [OF assms(3)] by blast
  let ?c = "writeRecordToBuffer (marker OpCommitTransaction task)"
  obtain wm2 where w2: "writeAndSync ?c WOk None wm1 = (None, wm2)" "wal_disk wm2 = wal_disk wm1 @ ?c"
    using writeAndSync_quiet [OF w1(2)] by blast
  have "ti_order ?io [] = []" using assms(1) by (metis quietTask_def set_empty2)
  then have "processTasks r ?io [task] (?wm, st) = ([Ok []], wm2, st)" for r st
    using assms(1,4) w1(1) w2(1) by (simp add: processTasks_def quietTask_def taskMarker_def syncTables_def)
  then have "submitTask env task db = (Ok [], db\<lparr>walManager := wm2\<rparr>)" using assms(2) by (simp add: submitTask_def)
  then show ?thesis using w1(3) w2(2) by (auto simp: mutationBuffer_walBytes walBytes_def)
qed

text \<open>The task that clearing one table writes.\<close>

definition clearTask :: "64 word \<Rightarrow> 64 word \<Rightarrow> string \<Rightarrow> WriteTask" where
  "clearTask ident g n = \<lparr>TxID = ident, wt_Generation = g,
     WalRecords = [\<lparr>wr_Type = OpClearTable, wr_TransactionID = ident, wr_Generation = g, wr_Payload = writeString n\<rparr>], TableAppends = []\<rparr>"

lemma Table_Clear_run:
  fixes ident :: "64 word"
  assumes st: "tableStateOf (committedState db) (tb_name table) = Some ts"
    and noindex: "shadowIndexes db (tb_name table) = None" "indexFiles db (tb_name table) = None"
    and db: "\<not> db_closed db" "\<not> walClosed db" "wal_ok (walManager db)" "quietTask (de_task env)"
  defines "task \<equiv> clearTask ident (Generation (committedState db) + 1) (tb_name table)"
  shows "\<exists>db'. Table_Clear env ident table db = (Err fileNotFound, db')
    \<and> wal_disk (walManager db') = wal_disk (walManager db) @ walBytes (taskMutations task @ [marker OpCommitTransaction task])"
proof -
  let ?n = "tb_name table" and ?s = "committedState db" and ?g = "Generation (committedState db) + 1"
  let ?cs = "\<lparr>Cleared = True, Inserts = [], Updates = [], Deletes = []\<rparr>"
  define tx where "tx = stageClear ?n (NewTransaction ident ?s)"
  have tx: "active tx" "tx_committedState tx = ?s" "\<not> RollbackOnly (changeSet tx)" "transactionID tx = ident"
    "TableChanges (changeSet tx) = [(?n, ?cs)]"
    by (simp_all add: tx_def stageClear_def onIndexChanges_def putTableChanges_def NewTransaction_def NewTransactionChangeSet_def)
  let ?tx = "tx\<lparr>active := False\<rparr>"
  have unit_loop: "forD xs (\<lambda>m _. validateIndex env ?s ?n ts ?cs m) () db = (Ok (), db)" for xs
    by (induction xs) (simp_all add: validateIndex_def removedValues_def)
  have val: "validateUniqueIndexes env ?tx db = (Ok (), db)"
    using tx st unit_loop by (simp add: validateUniqueIndexes_def validateTable_def IsEmpty_def)
  have log: "transactionLog ?tx ?g [(?n, ?cs)] = Ok (WalRecords task, [])"
    using tx by (simp add: tableLog_def IsEmpty_def Let_def txRecord_def task_def clearTask_def)
  have t: "transactionTask ?tx ?g (WalRecords task) [] = task" "TableAppends task = []"
    using tx by (simp_all add: transactionTask_def task_def clearTask_def)
  obtain wm where sub: "submitTask env task db = (Ok [], db\<lparr>walManager := wm\<rparr>)"
    "wal_disk wm = wal_disk (walManager db) @ walBytes (taskMutations task @ [marker OpCommitTransaction task])"
    using submitTask_plain [OF db(4,2,3) t(2)] by blast
  let ?db = "db\<lparr>walManager := wm\<rparr>"
  have "shadowClear env ?n ?db = (Err fileNotFound, ?db)" using noindex by (simp add: shadowClear_def)
  then have "applyTable env ?s ?g [] (?n, ?cs) ?db = (Err fileNotFound, ?db)" using st by (simp add: applyTable_def)
  then have "writeAndApply env ?tx ?g (WalRecords task) [] db = (Err fileNotFound, ?db)"
    using sub(1) tx t(1) by (simp add: writeAndApply_def)
  moreover have "WalRecords task \<noteq> []" by (simp add: task_def clearTask_def)
  ultimately have "commitBody env ?tx db = (Err fileNotFound, ?db)"
    using val log tx(5) by (simp add: commitBody_def currentGeneration_def)
  moreover have "table_clear table (NewTransaction ident ?s, db) = (Ok (), (tx, db))"
    by (simp add: table_clear_def modifyTx_def tx_def NewTransaction_def)
  ultimately have "Table_Clear env ident table db = (Err fileNotFound, ?db)"
    using tx(1,3) db(1) by (simp add: Table_Clear_def runCallback_def Commit_def)
  then show ?thesis using sub(2) by simp
qed

section \<open>Examples\<close>

definition insertTx :: Transaction where
  "insertTx = stageInsert ''users'' (VString ''7'') (user ''7'' ''Ada'') (touchTable ''users'' (NewTransaction 9 usersState))"

definition nameIndex :: IndexMetadata where
  "nameIndex = \<lparr>IndexName = ''users_Name_idx'', FieldName = ''Name'', Unique = True, Ordered = False\<rparr>"

definition duplicateTx :: Transaction where
  "duplicateTx = (NewTransaction 9 \<lparr>Generation = 1, Tables = [(''users'', NewTableState ''users'' TString (tb_Type users) [nameIndex])]\<rparr>)
     \<lparr>changeSet := NewTransactionChangeSet\<lparr>TableChanges := [(''users'', NewTableChangeSet\<lparr>Inserts :=
       [(VString ''7'', user ''7'' ''Ada''), (VString ''8'', user ''8'' ''Ada'')]\<rparr>)]\<rparr>\<rparr>"

section \<open>Properties\<close>

text \<open>C6: when a commit succeeds, the log has grown by exactly the begin record, the records of the change set and the
  commit marker of the transaction, the committed state is the next generation, and the transaction is over.\<close>

theorem commit_is_logged:
  assumes "wal_ok (walManager db)" "Commit env (tx, db) = (Ok (), (tx', db'))"
    and "transactionLog (tx\<lparr>active := False\<rparr>) (Generation (committedState db) + 1) (TableChanges (changeSet tx)) = Ok (ws, as)" "ws \<noteq> []"
  shows "wal_disk (walManager db') = wal_disk (walManager db)
      @ walBytes (taskMutations (transactionTask tx (Generation (committedState db) + 1) ws as)
        @ [marker OpCommitTransaction (transactionTask tx (Generation (committedState db) + 1) ws as)])
    \<and> committedState db' = DatabaseState_Copy (tx_committedState tx) (Generation (committedState db) + 1) \<and> \<not> active tx'"
  using Commit_logged [OF assms] .

theorem commit_is_logged_witness:
  "\<exists>tx' db'. Commit quiet (insertTx, usersDb) = (Ok (), (tx', db')) \<and> Generation (committedState db') = 2 \<and> \<not> active tx'
    \<and> wal_disk (walManager db') \<noteq> []"
proof -
  have n: "tb_name users = ''users''" and c: "committedState usersDb = usersState" by (simp_all add: users_def usersDb_def)
  note t = stageInsert_new [OF users_plain, of "VString ''7''" "user ''7'' ''Ada''" 9, unfolded n, folded insertTx_def]
  obtain tx' db' where run: "Commit quiet (insertTx, usersDb) = (Ok (), (tx', db'))"
    using Commit_insert_run [OF usersDb_rows [of "Suc (Suc 0)" "\<lambda>v. []"] user_rowOk(1) t(1-3)] t(5) by (auto simp: user_key n)
  have ok: "wal_ok (walManager usersDb)" by (simp add: wal_ok_def usersDb_def)
  have "\<exists>b. Marshal (user ''7'' ''Ada'') = Ok b" using user_rowOk(1) by (auto simp: rowOk_def split: res.splits)
  then have "\<exists>w as. transactionLog (insertTx\<lparr>active := False\<rparr>) (Generation (committedState usersDb) + 1) (TableChanges (changeSet insertTx)) = Ok ([w], as)"
    unfolding t(5) using t(2) by (auto simp: tableLog_def NewTableChangeSet_def IsEmpty_def Let_def)
  then obtain w as where "transactionLog (insertTx\<lparr>active := False\<rparr>) (Generation (committedState usersDb) + 1) (TableChanges (changeSet insertTx)) = Ok ([w], as)"
    by blast
  from commit_is_logged [OF ok run this]
  have "committedState db' = DatabaseState_Copy usersState 2" "\<not> active tx'" "wal_disk (walManager db') \<noteq> []"
    using t(2) by (auto simp: c usersState_def walBytes_def writeRecordToBuffer_def taskMutations_def Let_def)
  then show ?thesis using run by auto
qed

text \<open>C7: a transaction that would leave two rows with the same value in a unique index of a table does not commit, and
  neither the log nor the committed state changes.\<close>

theorem duplicate_is_not_committed:
  assumes "active tx" "\<not> RollbackOnly (changeSet tx)" "(n, cs) \<in> set (TableChanges (changeSet tx))"
    and "tableStateOf (tx_committedState tx) n = Some ts" "m \<in> set (IndexMetadataList ts)" "Unique m"
    and "(k, r) \<in> set (Inserts cs @ Updates cs)" "(k', r') \<in> set (Inserts cs @ Updates cs)" "k \<noteq> k'"
    and "getFieldValue r (FieldName m) \<noteq> VNil" "getFieldValue r' (FieldName m) \<noteq> VNil"
    and "canonicalizeKey (fmtOf env) (getFieldValue r (FieldName m)) = canonicalizeKey (fmtOf env) (getFieldValue r' (FieldName m))"
  shows "fst (Commit env (tx, db)) \<noteq> Ok () \<and> walManager (snd (snd (Commit env (tx, db)))) = walManager db
    \<and> committedState (snd (snd (Commit env (tx, db)))) = committedState db"
proof -
  let ?tx = "tx\<lparr>active := False\<rparr>"
  obtain res db1 where v: "validateUniqueIndexes env ?tx db = (res, db1)" by force
  have "res \<noteq> Ok ()" using duplicate_not_valid [of n cs ?tx ts m k r k' r' env db db1] assms(3-12) v by auto
  then have "fst (commitBody env ?tx db) \<noteq> Ok ()" "snd (commitBody env ?tx db) = db1"
    using v by (cases res; simp add: commitBody_def)+
  moreover have "logged db1 = logged db" by (rule leavesD [OF leaves_validateUniqueIndexes v])
  ultimately show ?thesis using assms(1,2) by (auto simp: Commit_def logged_def split: prod.split)
qed

theorem duplicate_is_not_committed_witness:
  "fst (Commit quiet (duplicateTx, usersDb)) \<noteq> Ok () \<and> walManager (snd (snd (Commit quiet (duplicateTx, usersDb)))) = walManager usersDb"
proof -
  have v: "getFieldValue (user ''7'' ''Ada'') ''Name'' = VString ''Ada''" "getFieldValue (user ''8'' ''Ada'') ''Name'' = VString ''Ada''" by code_simp+
  have m: "FieldName nameIndex = ''Name''" "Unique nameIndex" by (simp_all add: nameIndex_def)
  show ?thesis
    using duplicate_is_not_committed [of duplicateTx "''users''" "NewTableChangeSet\<lparr>Inserts := [(VString ''7'', user ''7'' ''Ada''), (VString ''8'', user ''8'' ''Ada'')]\<rparr>"
        "NewTableState ''users'' TString (tb_Type users) [nameIndex]" nameIndex "VString ''7''" "user ''7'' ''Ada''" "VString ''8''" "user ''8'' ''Ada''" quiet usersDb]
    by (simp add: duplicateTx_def NewTransaction_def NewTransactionChangeSet_def tableStateOf_def NewTableState_def m v)
qed

text \<open>C35: dropping a table whose index is open logs the drop, commits it and takes the table out of the committed
  state, and then panics on a type assertion before the index file is removed.\<close>

theorem drop_of_open_table_panics:
  assumes "\<not> db_closed db" "\<not> walClosed db" "wal_ok (walManager db)" "quietTask (de_task env)"
    and "isValidTableName n" "ContainsTable db n" "shadowIndexes db n = Some t"
  shows "\<exists>db'. DropTable env n db = (Panic TypeAssertion, db') \<and> \<not> ContainsTable db' n \<and> indexFiles db' n = Some (bt_disk t)
    \<and> (\<exists>task. wal_disk (walManager db') = wal_disk (walManager db) @ walBytes (taskMutations task @ [marker OpCommitTransaction task])
        \<and> map wr_Type (WalRecords task) = [OpDropTable])"
proof -
  let ?g = "currentGeneration db + 1"
  let ?task = "schemaTask db ?g [schemaRecord db OpDropTable ?g (writeString n)]"
  have "TableAppends ?task = []" by (simp add: schemaTask_def)
  then obtain wm where sub: "submitTask env ?task db = (Ok [], db\<lparr>walManager := wm\<rparr>)"
    "wal_disk wm = wal_disk (walManager db) @ walBytes (taskMutations ?task @ [marker OpCommitTransaction ?task])"
    using submitTask_plain [OF assms(4,2,3)] by blast
  have "map wr_Type (WalRecords ?task) = [OpDropTable]" by (simp add: schemaTask_def schemaRecord_def)
  then show ?thesis
    using assms sub by (auto simp: DropTable_def Let_def publish_def ContainsTable_def delete_conv' intro!: exI [of _ ?task])
qed

theorem drop_of_open_table_panics_witness:
  "\<exists>db'. DropTable quiet ''users'' usersDb = (Panic TypeAssertion, db') \<and> \<not> ContainsTable db' ''users''"
proof -
  have "isValidTableName ''users''" by code_simp
  then show ?thesis
    using drop_of_open_table_panics [of usersDb quiet "''users''" freshTree] quiet_run(1) [of "\<lambda>v. []" "''users''"]
    by (auto simp: usersDb_def wal_ok_def quietEnv_def ContainsTable_def usersState_def)
qed

end
