(* ===== verification/Queries.thy ===== *)
theory Queries
  imports Tables
begin

text \<open>
  \<^verbatim>\<open>src/query.go\<close>: conditions, the choice of an index, the overlay of the transaction's changes,
  filtering, sorting and paging.

  A condition of the package carries its description, which the planner searches for the text
  \<^verbatim>\<open>"=="\<close>; any other implementation of the interface is a field name and a test. Go's \<^verbatim>\<open>int\<close> has 64 bits, and the addition of offset and limit wraps around.
\<close>

section \<open>Conditions\<close>

datatype CondOp = EqualTo | NotEqualTo | GreaterThan | GreaterThanOrEqual | LessThan | LessThanOrEqual

datatype Condition =
    QueryCondition (cnd_fieldName: string) (cnd_value: gval) (cnd_op: CondOp)
  | CustomCondition (cnd_fieldName: string) (cnd_test: "gval \<Rightarrow> bool")

definition opText :: "CondOp \<Rightarrow> string" where
  "opText op = (case op of EqualTo \<Rightarrow> ''=='' | NotEqualTo \<Rightarrow> ''!='' | GreaterThan \<Rightarrow> ''>'' | GreaterThanOrEqual \<Rightarrow> ''>=''
     | LessThan \<Rightarrow> ''<'' | LessThanOrEqual \<Rightarrow> ''<='')"

text \<open>The description: field, operator and the printed value.\<close>

definition desc :: "(gval \<Rightarrow> string) \<Rightarrow> string \<Rightarrow> gval \<Rightarrow> CondOp \<Rightarrow> string" where
  "desc fmt fieldName value op = fieldName @ '' '' @ opText op @ '' '' @ fmt value"

definition testValue :: "(gval \<Rightarrow> string) \<Rightarrow> gval \<Rightarrow> CondOp \<Rightarrow> gval \<Rightarrow> bool" where
  "testValue fmt value op recordValue =
     (case op of
        EqualTo \<Rightarrow> valuesEqual fmt recordValue value
      | NotEqualTo \<Rightarrow> \<not> valuesEqual fmt recordValue value
      | GreaterThan \<Rightarrow> compareValues fmt recordValue value > 0
      | GreaterThanOrEqual \<Rightarrow> compareValues fmt recordValue value \<ge> 0
      | LessThan \<Rightarrow> compareValues fmt recordValue value < 0
      | LessThanOrEqual \<Rightarrow> compareValues fmt recordValue value \<le> 0)"

definition Test :: "(gval \<Rightarrow> string) \<Rightarrow> Condition \<Rightarrow> gval \<Rightarrow> bool" where
  "Test fmt condition record =
     (case condition of
        QueryCondition fieldName value op \<Rightarrow> testValue fmt value op (getFieldValue record fieldName)
      | CustomCondition fieldName test \<Rightarrow> test record)"

text \<open>What the planner takes for an equality: a condition of the package whose description contains the
  text of the operator.\<close>

definition equalityValue :: "(gval \<Rightarrow> string) \<Rightarrow> Condition \<Rightarrow> gval option" where
  "equalityValue fmt condition =
     (case condition of
        QueryCondition fieldName value op \<Rightarrow>
          if strings_Contains (desc fmt fieldName value op) ''=='' then Some value else None
      | CustomCondition fieldName test \<Rightarrow> None)"

record SortOrder =
  so_FieldName :: string
  so_Ascending :: bool

record Query =
  q_table :: Table
  committedTable :: "TableState option"
  staging :: "TableChangeSet option"
  conditions :: "Condition list"
  sortOrder :: "SortOrder option"
  limit :: int
  offset :: int

definition NewQuery :: "Table \<Rightarrow> TableState option \<Rightarrow> TableChangeSet option \<Rightarrow> Query" where
  "NewQuery table tableState changes = \<lparr>q_table = table, committedTable = tableState, staging = changes, conditions = [],
     sortOrder = None, limit = -1, offset = 0\<rparr>"

definition Where :: "Condition option \<Rightarrow> Query \<Rightarrow> Query" where
  "Where condition query = (case condition of None \<Rightarrow> query | Some c \<Rightarrow> query\<lparr>conditions := conditions query @ [c]\<rparr>)"

definition OrderBy :: "SortOrder \<Rightarrow> Query \<Rightarrow> Query" where
  "OrderBy order query = query\<lparr>sortOrder := Some order\<rparr>"

definition Limit :: "int \<Rightarrow> Query \<Rightarrow> Query" where
  "Limit n query = query\<lparr>limit := n\<rparr>"

definition Offset :: "int \<Rightarrow> Query \<Rightarrow> Query" where
  "Offset n query = query\<lparr>offset := if n < 0 then 0 else n\<rparr>"

definition Table_Query :: "Table \<Rightarrow> Transaction option \<Rightarrow> Database \<Rightarrow> Query" where
  "Table_Query table transaction database =
     (case transaction of
        Some tx \<Rightarrow> NewQuery table (tableStateOf (tx_committedState tx) (tb_name table)) (Some (GetTableChanges (tb_name table) tx))
      | None \<Rightarrow> NewQuery table (tableStateOf (committedState database) (tb_name table)) None)"

section \<open>Finding the candidates\<close>

definition idTarget :: "(gval \<Rightarrow> string) \<Rightarrow> Condition list \<Rightarrow> gval option" where
  "idTarget fmt cs =
     (case List.find (\<lambda>c. strings_EqualFold (cnd_fieldName c) ''id'' \<and> equalityValue fmt c \<noteq> None) cs of
        None \<Rightarrow> None
      | Some c \<Rightarrow> equalityValue fmt c)"

text \<open>The first equality condition on an indexed field, with the index.\<close>

fun indexTarget :: "(gval \<Rightarrow> string) \<Rightarrow> IndexMetadata list \<Rightarrow> Condition list \<Rightarrow> (IndexMetadata \<times> gval) option" where
  "indexTarget fmt metas [] = None"
| "indexTarget fmt metas (c # cs) =
     (case (equalityValue fmt c, List.find (\<lambda>m. strings_EqualFold (FieldName m) (cnd_fieldName c)) metas) of
        (Some value, Some indexMetadata) \<Rightarrow> Some (indexMetadata, value)
      | _ \<Rightarrow> indexTarget fmt metas cs)"

text \<open>The visitor of the range scan over a non-unique index.\<close>

definition collectEqual :: "(gval \<Rightarrow> string) \<Rightarrow> gval \<Rightarrow> gval list res visitor" where
  "collectEqual fmt canonicalValue compositeKeyBytes recordPointer ids =
     (case ids of
        Ok targetIDs \<Rightarrow>
          (case DeserializeCompositeKey compositeKeyBytes of
             Ok (secondaryValue, primaryKey) \<Rightarrow>
               if compareValues fmt secondaryValue canonicalValue = 0 then (True, Ok (targetIDs @ [primaryKey]))
               else (False, ids)
           | Err e \<Rightarrow> (False, ids)
           | Panic p \<Rightarrow> (False, Panic p)
           | NoFuel \<Rightarrow> (False, NoFuel))
      | _ \<Rightarrow> (False, ids))"

definition indexIDs :: "db_env \<Rightarrow> string \<Rightarrow> TableState \<Rightarrow> IndexMetadata \<Rightarrow> gval \<Rightarrow> gval list db_op" where
  "indexIDs env tableName tableState indexMetadata targetValue =
     (let canonicalValue = canonicalizeKey (fmtOf env) targetValue in
      bindD (liftD (serializeKey canonicalValue)) (\<lambda>canonicalValueBytes.
        bindD (getShadowNamedIndex env tableName) (\<lambda>_.
          if Unique indexMetadata then
            bindD (onTree tableName (NamedIndex_Find (fmtOf env) (de_fuel env) (IndexName indexMetadata) canonicalValueBytes)) (\<lambda>found.
              case found of
                None \<Rightarrow> returnD []
              | Some recordPointer \<Rightarrow>
                  bindD (readRecordAs env tableName (EntityType tableState) recordPointer) (\<lambda>record.
                    returnD [getPrimaryKey record]))
          else
            bindD (liftD (SerializeCompositeKey canonicalValue VNil)) (\<lambda>startKey.
              scanIndex env tableName (IndexName indexMetadata) startKey (collectEqual (fmtOf env) canonicalValue) []))))"

text \<open>The target identifiers, or \<open>None\<close> for a full scan.\<close>

definition targetIDs :: "db_env \<Rightarrow> Query \<Rightarrow> gval list option db_op" where
  "targetIDs env query =
     (case idTarget (fmtOf env) (conditions query) of
        Some idValue \<Rightarrow> returnD (Some [idValue])
      | None \<Rightarrow>
          (case (committedTable query, staging query) of
             (Some tableState, changes) \<Rightarrow>
               if changes \<noteq> None \<and> Cleared (the changes) then returnD None
               else (case indexTarget (fmtOf env) (IndexMetadataList tableState) (conditions query) of
                 None \<Rightarrow> returnD None
               | Some (indexMetadata, value) \<Rightarrow>
                   bindD (indexIDs env (tb_name (q_table query)) tableState indexMetadata value) (\<lambda>ids. returnD (Some ids)))
           | (None, _) \<Rightarrow> returnD None))"

definition overlaid :: "TableChangeSet option \<Rightarrow> gval \<Rightarrow> bool" where
  "overlaid changes key =
     (case changes of
        None \<Rightarrow> False
      | Some cs \<Rightarrow> key \<in> set (Deletes cs) \<or> map_of (Updates cs) key \<noteq> None \<or> map_of (Inserts cs) key \<noteq> None)"

section \<open>Candidates by identifier\<close>

definition committedByID :: "db_env \<Rightarrow> Query \<Rightarrow> TableState \<Rightarrow> gval \<Rightarrow> gval list \<Rightarrow> gval list db_op" where
  "committedByID env query tableState idValue records =
     (if overlaid (staging query) idValue then returnD records
      else
        bindD (liftD (serializeKey idValue)) (\<lambda>keyBytes.
          bindD (onTree (tb_name (q_table query)) (NamedIndex_Find (fmtOf env) (de_fuel env) ''primary'' keyBytes)) (\<lambda>found.
            case found of
              None \<Rightarrow> returnD records
            | Some recordPointer \<Rightarrow>
                bindD (readRecordAs env (tb_name (q_table query)) (EntityType tableState) recordPointer) (\<lambda>record.
                  returnD (records @ [record])))))"

definition stagedByID :: "TableChangeSet \<Rightarrow> gval list \<Rightarrow> gval list" where
  "stagedByID cs ids =
     concat (map (\<lambda>idValue. (case map_of (Inserts cs) idValue of Some r \<Rightarrow> [r] | None \<Rightarrow> [])
                            @ (case map_of (Updates cs) idValue of Some r \<Rightarrow> [r] | None \<Rightarrow> [])) ids)
     @ filter (\<lambda>r. getPrimaryKey r \<notin> set ids) (map snd (Inserts cs))
     @ filter (\<lambda>r. getPrimaryKey r \<notin> set ids) (map snd (Updates cs))"

definition recordsByID :: "db_env \<Rightarrow> Query \<Rightarrow> gval list \<Rightarrow> gval list db_op" where
  "recordsByID env query ids =
     (if staging query \<noteq> None \<and> Cleared (the (staging query)) then
        returnD (concat (map (\<lambda>idValue. case map_of (Inserts (the (staging query))) idValue of Some r \<Rightarrow> [r] | None \<Rightarrow> []) ids))
      else
        bindD (case committedTable query of
                 None \<Rightarrow> returnD []
               | Some tableState \<Rightarrow>
                   bindD (tableStorage env (tb_name (q_table query))) (\<lambda>_.
                     bindD (getShadowNamedIndex env (tb_name (q_table query))) (\<lambda>_.
                       forD ids (committedByID env query tableState) []))) (\<lambda>records.
          returnD (records @ (case staging query of None \<Rightarrow> [] | Some cs \<Rightarrow> stagedByID cs ids))))"

section \<open>Candidates by a full scan\<close>

text \<open>The visitor: a key that the transaction has changed is skipped, an error ends the scan.\<close>

definition collectRecord :: "db_env \<Rightarrow> string \<Rightarrow> TableState \<Rightarrow> TableStorage \<Rightarrow> TableChangeSet option \<Rightarrow> gval list res visitor" where
  "collectRecord env tableName tableState ts changes keyBytes recordPointer v =
     (case v of
        Ok records \<Rightarrow>
          (case deserializeKey keyBytes of
             Ok primaryKey \<Rightarrow>
               if overlaid changes primaryKey then (True, v)
               else
                 (case bindR (ReadRecord recordPointer (de_read env tableName recordPointer) ts)
                         (\<lambda>bytesValue. Unmarshal (de_go env) bytesValue (EntityType tableState)) of
                    Ok record \<Rightarrow> (True, Ok (records @ [record]))
                  | Err e \<Rightarrow> (False, v)
                  | Panic p \<Rightarrow> (False, Panic p)
                  | NoFuel \<Rightarrow> (False, NoFuel))
           | Err e \<Rightarrow> (False, v)
           | Panic p \<Rightarrow> (False, Panic p)
           | NoFuel \<Rightarrow> (False, NoFuel))
      | _ \<Rightarrow> (False, v))"

definition recordsByScan :: "db_env \<Rightarrow> Query \<Rightarrow> gval list db_op" where
  "recordsByScan env query =
     (if staging query \<noteq> None \<and> Cleared (the (staging query)) then returnD (map snd (Inserts (the (staging query))))
      else
        bindD (case committedTable query of
                 None \<Rightarrow> returnD []
               | Some tableState \<Rightarrow>
                   bindD (tableStorage env (tb_name (q_table query))) (\<lambda>ts.
                     bindD (getShadowNamedIndex env (tb_name (q_table query))) (\<lambda>_.
                       scanIndex env (tb_name (q_table query)) ''primary'' []
                         (collectRecord env (tb_name (q_table query)) tableState ts (staging query)) []))) (\<lambda>records.
          returnD (records @ (case staging query of None \<Rightarrow> [] | Some cs \<Rightarrow> map snd (Inserts cs) @ map snd (Updates cs)))))"

section \<open>Filtering, sorting, paging\<close>

fun filterRecords :: "(gval \<Rightarrow> bool) \<Rightarrow> gval list \<Rightarrow> gval list \<Rightarrow> gval list" where
  "filterRecords matches filtered [] = filtered"
| "filterRecords matches filtered (record # records) =
     (if matches record \<and> getPrimaryKey record \<notin> getPrimaryKey ` set filtered
      then filterRecords matches (filtered @ [record]) records
      else filterRecords matches filtered records)"

definition sortLess :: "(gval \<Rightarrow> string) \<Rightarrow> SortOrder \<Rightarrow> gval \<Rightarrow> gval \<Rightarrow> bool" where
  "sortLess fmt order left right =
     (let comparison = compareValues fmt (getFieldValue left (so_FieldName order)) (getFieldValue right (so_FieldName order))
      in if so_Ascending order then comparison < 0 else comparison > 0)"

definition sortRecords :: "(gval \<Rightarrow> string) \<Rightarrow> SortOrder option \<Rightarrow> gval list \<Rightarrow> gval list" where
  "sortRecords fmt order records = (case order of None \<Rightarrow> records | Some o1 \<Rightarrow> sort_Slice (sortLess fmt o1) records)"

definition wrapInt :: "int \<Rightarrow> int" where
  "wrapInt n = sint (word_of_int n :: 64 word)"

definition page :: "int \<Rightarrow> int \<Rightarrow> 'a list \<Rightarrow> 'a list" where
  "page off lim filtered =
     (let fromIndex = (if off > int (length filtered) then int (length filtered) else off);
          toIndex = (if lim \<ge> 0
                     then (let t = wrapInt (fromIndex + lim) in if t > int (length filtered) then int (length filtered) else t)
                     else int (length filtered))
      in sub filtered (nat fromIndex) (nat (toIndex - fromIndex)))"

definition asType :: "gtype \<Rightarrow> gval \<Rightarrow> gval res" where
  "asType t v = (if typeOf v = t then Ok v else Panic TypeAssertion)"

definition List_query :: "db_env \<Rightarrow> Query \<Rightarrow> gval list db_op" where
  "List_query env query =
     bindD (targetIDs env query) (\<lambda>ids.
       bindD (case ids of Some idList \<Rightarrow> recordsByID env query idList | None \<Rightarrow> recordsByScan env query) (\<lambda>records.
         let filtered = filterRecords (\<lambda>r. list_all (\<lambda>c. Test (fmtOf env) c r) (conditions query)) [] records in
         liftD (mapM (asType (tb_Type (q_table query)))
           (page (offset query) (limit query) (sortRecords (fmtOf env) (sortOrder query) filtered)))))"

definition FindFirst :: "db_env \<Rightarrow> Query \<Rightarrow> gval option db_op" where
  "FindFirst env query =
     bindD (List_query env (Limit 1 query)) (\<lambda>results. returnD (case results of [] \<Rightarrow> None | r # _ \<Rightarrow> Some r))"

section \<open>Explain\<close>

record QueryPlan =
  Strategy :: string
  OverlayUsed :: bool

definition indexStrategy :: "IndexMetadata \<Rightarrow> string" where
  "indexStrategy m = (if Unique m then ''UNIQUE_INDEX_LOOKUP_WITH_TRANSACTION_OVERLAY''
     else if Ordered m then ''ORDERED_INDEX_LOOKUP_WITH_TRANSACTION_OVERLAY''
     else ''SECONDARY_INDEX_LOOKUP_WITH_TRANSACTION_OVERLAY'')"

fun explainLoop :: "IndexMetadata list \<Rightarrow> string \<Rightarrow> Condition list \<Rightarrow> string" where
  "explainLoop metas strategy [] = strategy"
| "explainLoop metas strategy (c # cs) =
     (if strings_EqualFold (cnd_fieldName c) ''id'' then ''PRIMARY_KEY_LOOKUP_WITH_TRANSACTION_OVERLAY''
      else case List.find (\<lambda>m. strings_EqualFold (FieldName m) (cnd_fieldName c)) metas of
        None \<Rightarrow> explainLoop metas strategy cs
      | Some m \<Rightarrow> explainLoop metas (indexStrategy m) cs)"

definition Explain :: "Query \<Rightarrow> QueryPlan" where
  "Explain query =
     \<lparr>Strategy = explainLoop (case committedTable query of None \<Rightarrow> [] | Some t \<Rightarrow> IndexMetadataList t)
        ''FULL_SCAN_WITH_TRANSACTION_OVERLAY'' (conditions query),
      OverlayUsed = (case staging query of None \<Rightarrow> False | Some cs \<Rightarrow> \<not> IsEmpty cs)\<rparr>"

end
