(* ===== verification/QueryLaws.thy ===== *)
theory QueryLaws
  imports Queries TableStore
begin

text \<open>
  What a query returns: the records satisfy all conditions, have different primary keys, are ordered and
  at most as many as the limit; a query for an identifier returns the row the transaction sees. And
  where queries go wrong: the limit that overflows, the value whose text contains \<^verbatim>\<open>"=="\<close>, and the keys that
  are decoded with another type than they were staged with.
\<close>

section \<open>Filtering and paging\<close>

lemma filterRecords_sound:
  assumes "set filtered \<subseteq> {r. matches r}" "distinct (map getPrimaryKey filtered)"
  shows "set (filterRecords matches filtered rs) \<subseteq> {r. matches r} \<inter> (set filtered \<union> set rs)"
    and "distinct (map getPrimaryKey (filterRecords matches filtered rs))"
  using assms by (induction matches filtered rs rule: filterRecords.induct) (auto simp: image_iff)

lemma filterRecords_complete:
  "r \<in> set rs \<Longrightarrow> matches r \<Longrightarrow> getPrimaryKey r \<in> getPrimaryKey ` set (filterRecords matches filtered rs)"
proof -
  have keep: "set filtered \<subseteq> set (filterRecords matches filtered rs)" for filtered matches rs
    by (induction matches filtered rs rule: filterRecords.induct) auto
  show "r \<in> set rs \<Longrightarrow> matches r \<Longrightarrow> getPrimaryKey r \<in> getPrimaryKey ` set (filterRecords matches filtered rs)"
  proof (induction matches filtered rs rule: filterRecords.induct)
    case (2 m fs x xs)
    show ?case
    proof (cases "x = r")
      case True
      then show ?thesis using 2 keep [of fs m xs] keep [of "fs @ [r]" m xs] by (auto simp: image_iff)
    qed (use 2 in auto)
  qed simp
qed

text \<open>Records that do not match are passed over.\<close>

lemma filterRecords_none: "(\<And>r. r \<in> set rs \<Longrightarrow> \<not> matches r \<or> getPrimaryKey r \<in> getPrimaryKey ` set filtered)
    \<Longrightarrow> filterRecords matches filtered rs = filtered"
  by (induction matches filtered rs rule: filterRecords.induct) auto

lemma wrapInt_small: "- (2 ^ 63) \<le> n \<Longrightarrow> n < 2 ^ 63 \<Longrightarrow> wrapInt n = n"
  by (simp add: wrapInt_def sint_uint signed_take_bit_int_eq_self unsigned_of_int signed_take_bit_take_bit)

lemma wrapInt_large: "2 ^ 63 \<le> n \<Longrightarrow> n < 2 ^ 64 \<Longrightarrow> wrapInt n = n - 2 ^ 64"
proof -
  assume n: "2 ^ 63 \<le> n" "n < 2 ^ 64"
  have "(word_of_int n :: 64 word) = word_of_int (n - 2 ^ 64)"
    by (simp add: word_of_int_eq_iff take_bit_eq_mod)
  then have "wrapInt n = wrapInt (n - 2 ^ 64)" by (simp only: wrapInt_def)
  then show ?thesis using wrapInt_small [of "n - 2 ^ 64"] n by simp
qed

lemma page_run:
  fixes xs :: "'a list"
  assumes "0 \<le> off" "lim < 2 ^ 63" "int (length xs) < 2 ^ 63"
  shows "lim < 0 \<Longrightarrow> page off lim xs = drop (nat off) xs"
    and "0 \<le> lim \<Longrightarrow> min off (int (length xs)) + lim < 2 ^ 63 \<Longrightarrow> page off lim xs = take (nat lim) (drop (nat off) xs)"
    and "2 ^ 63 \<le> min off (int (length xs)) + lim \<Longrightarrow> page off lim xs = []"
proof -
  let ?f = "if off > int (length xs) then int (length xs) else off"
  have f: "?f = min off (int (length xs))" "0 \<le> ?f" using assms(1) by auto
  have d: "drop (nat ?f) xs = drop (nat off) xs" using assms(1) by auto
  show "page off lim xs = drop (nat off) xs" if "lim < 0"
    using that d by (simp add: page_def Let_def sub_def)
  show "page off lim xs = take (nat lim) (drop (nat off) xs)" if "0 \<le> lim" "min off (int (length xs)) + lim < 2 ^ 63"
  proof -
    have w: "wrapInt (?f + lim) = ?f + lim" using that f by (intro wrapInt_small) auto
    have "take (nat ((if ?f + lim > int (length xs) then int (length xs) else ?f + lim) - ?f)) (drop (nat ?f) xs)
        = take (nat lim) (drop (nat ?f) xs)"
      using f(2) that(1) by auto
    then show ?thesis using that(1) d by (simp only: page_def Let_def sub_def w if_True)
  qed
  show "page off lim xs = []" if "2 ^ 63 \<le> min off (int (length xs)) + lim"
  proof -
    have b: "?f + lim < 2 ^ 64" "2 ^ 63 \<le> ?f + lim" "0 \<le> lim" using that f assms by auto
    then have "wrapInt (?f + lim) < ?f" using wrapInt_large [of "?f + lim"] assms(2) by linarith
    then have "nat ((if wrapInt (?f + lim) > int (length xs) then int (length xs) else wrapInt (?f + lim)) - ?f) = 0" using f by auto
    then show ?thesis using b(3) by (simp only: page_def Let_def sub_def if_True take_0)
  qed
qed

lemma page_length: "0 \<le> off \<Longrightarrow> 0 \<le> lim \<Longrightarrow> length (page off lim xs) \<le> nat lim"
proof -
  assume a: "0 \<le> off" "0 \<le> lim"
  have w: "wrapInt n \<le> n" if "0 \<le> n" for n
    using that signed_take_bit_int_less_eq_self_iff [of 63 n]
    by (simp add: wrapInt_def sint_uint unsigned_of_int signed_take_bit_take_bit)
  show ?thesis
    using a w [of "int (length xs) + lim"] w [of "off + lim"] by (auto simp: page_def Let_def sub_def)
qed

lemma page_subset: "set (page off lim xs) \<subseteq> set xs"
  unfolding page_def Let_def sub_def by (meson in_set_dropD in_set_takeD subsetI)

lemma page_sorted: "sorted_wrt P xs \<Longrightarrow> sorted_wrt P (page off lim xs)"
  by (simp add: page_def Let_def sub_def sorted_wrt_drop sorted_wrt_take)

lemma page_distinct: "distinct (map f xs) \<Longrightarrow> distinct (map f (page off lim xs))"
  by (simp add: page_def Let_def sub_def take_map [symmetric] drop_map [symmetric])

lemma mapM_asType: "mapM (asType t) xs = Ok ys \<Longrightarrow> ys = xs \<and> (\<forall>x \<in> set xs. typeOf x = t)"
  by (induction xs arbitrary: ys) (auto simp: asType_def split: if_splits)

lemma mapM_asType_Ok: "(\<And>x. x \<in> set xs \<Longrightarrow> typeOf x = t) \<Longrightarrow> mapM (asType t) xs = Ok xs"
  by (induction xs) (auto simp: asType_def)

section \<open>The result of a query\<close>

definition matching :: "(gval \<Rightarrow> string) \<Rightarrow> Query \<Rightarrow> gval \<Rightarrow> bool" where
  "matching fmt query r = list_all (\<lambda>c. Test fmt c r) (conditions query)"

lemma List_query_Ok:
  assumes "List_query env query db = (Ok results, db')"
  obtains records where "results = page (offset query) (limit query)
      (sortRecords (fmtOf env) (sortOrder query) (filterRecords (matching (fmtOf env) query) [] records))"
    "\<forall>r \<in> set results. typeOf r = tb_Type (q_table query)"
proof -
  from assms obtain ids db1 records db2 where
    "mapM (asType (tb_Type (q_table query))) (page (offset query) (limit query)
      (sortRecords (fmtOf env) (sortOrder query) (filterRecords (matching (fmtOf env) query) [] records))) = Ok results"
    unfolding List_query_def matching_def [abs_def] by (auto dest!: bindD_Ok simp: Let_def)
  then show ?thesis using mapM_asType that by blast
qed

lemma sortRecords_same [simp]: "set (sortRecords fmt so rs) = set rs" "mset (sortRecords fmt so rs) = mset rs"
  by (simp_all add: sortRecords_def split: option.split)

lemma distinct_map_mset: "mset xs = mset ys \<Longrightarrow> distinct (map f xs) = distinct (map f ys)"
  by (metis mset_map mset_eq_imp_distinct_iff)

lemma List_query_sound:
  assumes "List_query env query db = (Ok results, db')"
  shows "set results \<subseteq> {r. matching (fmtOf env) query r \<and> typeOf r = tb_Type (q_table query)}"
    and "distinct (map getPrimaryKey results)"
    and "0 \<le> offset query \<Longrightarrow> 0 \<le> limit query \<Longrightarrow> length results \<le> nat (limit query)"
    and "sortOrder query = Some order \<Longrightarrow> weakOrder (sortLess (fmtOf env) order) {r. matching (fmtOf env) query r} \<Longrightarrow>
      sorted_wrt (\<lambda>a b. \<not> sortLess (fmtOf env) order b a) results"
proof -
  let ?m = "matching (fmtOf env) query"
  obtain records where res: "results = page (offset query) (limit query)
      (sortRecords (fmtOf env) (sortOrder query) (filterRecords ?m [] records))" (is "_ = page _ _ ?sorted")
    and ty: "\<forall>r \<in> set results. typeOf r = tb_Type (q_table query)"
    using assms by (rule List_query_Ok)
  note f = filterRecords_sound [of "[]" ?m records, simplified]
  have "set ?sorted \<subseteq> {r. ?m r}" using f(1) by auto
  then show "set results \<subseteq> {r. ?m r \<and> typeOf r = tb_Type (q_table query)}" using page_subset [of _ _ ?sorted] ty res by auto
  have "distinct (map getPrimaryKey ?sorted)" using f(2) by (simp add: distinct_map_mset [of ?sorted "filterRecords ?m [] records"])
  then show "distinct (map getPrimaryKey results)" using res page_distinct by blast
  show "length results \<le> nat (limit query)" if "0 \<le> offset query" "0 \<le> limit query"
    using page_length [OF that, of ?sorted] res by simp
  show "sorted_wrt (\<lambda>a b. \<not> sortLess (fmtOf env) order b a) results"
    if "sortOrder query = Some order" "weakOrder (sortLess (fmtOf env) order) {r. ?m r}"
  proof -
    have "weakOrder (sortLess (fmtOf env) order) (set (filterRecords ?m [] records))"
      using that(2) f(1) unfolding weakOrder_def by (meson Int_iff subset_iff)
    then show ?thesis unfolding res using that(1) sort_Slice_sorted by (auto simp: sortRecords_def intro!: page_sorted)
  qed
qed

section \<open>Queries by identifier\<close>

text \<open>The rows a query sees: the committed ones, or the view of the transaction.\<close>

definition viewOf :: "TableChangeSet option \<Rightarrow> (gval \<rightharpoonup> gval) \<Rightarrow> gval \<rightharpoonup> gval" where
  "viewOf changes R = (case changes of None \<Rightarrow> R | Some cs \<Rightarrow> view cs R)"

definition listOf :: "'a option \<Rightarrow> 'a list" where
  "listOf x = (case x of None \<Rightarrow> [] | Some y \<Rightarrow> [y])"

lemma committedByID_run:
  assumes h: "holdsAt env K L keys n table state R t ts M db" and k: "k \<in> keys" and q: "q_table query = table"
    and ty: "EntityType tableState = tb_Type table"
  shows "\<exists>db'. committedByID env query tableState k records db
    = (Ok (if overlaid (staging query) k then records else records @ listOf (R k)), db')"
proof (cases "overlaid (staging query) k")
  case False
  note p = holdsAtD [OF h]
  obtain t' db' where f: "findPrimary env (tb_name table) k db = (Ok (M ''primary'' (keyBytes k)), db')"
    "holdsAt env K L keys n table state R t' ts M db'" using findPrimary_run [OF h k] by blast
  have kb: "serializeKey k = Ok (keyBytes k)" using p(3) k by (auto simp: keySpace_def)
  have find: "onTree (tb_name table) (NamedIndex_Find (fmtOf env) (de_fuel env) ''primary'' (keyBytes k)) db
      = (Ok (M ''primary'' (keyBytes k)), db')"
    using f(1) kb p(11) by (simp add: findPrimary_def getShadowNamedIndex_run)
  have read: "readRecordAs env (tb_name table) (tb_Type table) ptr db' = (Ok r, db')"
    if "M ''primary'' (keyBytes k) = Some ptr" "R k = Some r" for ptr r
    using readFromStorage_run [OF f(2), of ptr r] p(17) [OF k] that by (simp add: readFromStorage_def)
  show ?thesis
    using False find kb q ty read p(17) [OF k]
    by (cases "M ''primary'' (keyBytes k)"; cases "R k") (auto simp: committedByID_def rowAt_def listOf_def)
qed (simp add: committedByID_def)

text \<open>The candidates of a query for \<open>k\<close>: the row the query sees, and staged rows of other keys.\<close>

lemma recordsByID_run:
  assumes h: "holdsRows env K L keys n table state R db" and k: "k \<in> keys" and q: "q_table query = table"
    and ct: "committedTable query = tableStateOf state (tb_name table)"
    and cs: "\<And>cs. staging query = Some cs \<Longrightarrow> csOk R cs"
  shows "\<exists>others db'. recordsByID env query [k] db = (Ok (listOf (viewOf (staging query) R k) @ others), db')
    \<and> set others \<subseteq> {r. \<exists>cs. staging query = Some cs \<and> r \<in> snd ` set (Inserts cs @ Updates cs) \<and> getPrimaryKey r \<noteq> k}"
proof -
  obtain t ts M where at: "holdsAt env K L keys n table state R t ts M db" using h by (auto simp: holdsRows_def)
  note p = holdsAtD [OF at]
  obtain tableState where st: "committedTable query = Some tableState" "EntityType tableState = tb_Type table"
    using p(5) ct by (auto simp: plainTable_def split: option.splits)
  obtain db' where c: "committedByID env query tableState k [] db = (Ok (if overlaid (staging query) k then [] else listOf (R k)), db')"
    using committedByID_run [OF at k q st(2), of "[]"] by auto
  have open_run: "tableStorage env (tb_name table) db = (Ok ts, db)" "getShadowNamedIndex env (tb_name table) db = (Ok (), db)"
    using tableStorage_run [OF p(7,14)] getShadowNamedIndex_run [OF p(11)] by simp_all
  show ?thesis
  proof (cases "staging query")
    case None
    then show ?thesis using c open_run q st(1)
      by (simp add: recordsByID_def overlaid_def viewOf_def listOf_def)
  next
    case (Some ch)
    note ok = cs [OF Some]
    show ?thesis
    proof (cases "Cleared ch")
      case True
      then have "Updates ch = []" using ok by (simp add: csOk_def)
      then show ?thesis using Some True
        by (auto simp: recordsByID_def viewOf_def view_def listOf_def split: option.split intro!: exI [of _ "[]"])
    next
      case False
      let ?others = "filter (\<lambda>r. getPrimaryKey r \<notin> set [k]) (map snd (Inserts ch)) @ filter (\<lambda>r. getPrimaryKey r \<notin> set [k]) (map snd (Updates ch))"
      have "(if overlaid (Some ch) k then [] else listOf (R k)) @ stagedByID ch [k] = listOf (viewOf (Some ch) R k) @ ?others"
        using ok False by (auto simp: overlaid_def stagedByID_def viewOf_def view_def listOf_def csOk_def split: option.splits)
      then have "recordsByID env query [k] db = (Ok (listOf (viewOf (staging query) R k) @ ?others), db')"
        using c open_run q st(1) Some False by (simp add: recordsByID_def)
      then show ?thesis using Some by (intro exI [of _ ?others] exI [of _ db']) auto
    qed
  qed
qed

lemma id_query_run:
  assumes h: "holdsRows env K L keys n table state R db" and k: "k \<in> keys" and q: "q_table query = table"
    and ct: "committedTable query = tableStateOf state (tb_name table)"
    and cs: "\<And>cs. staging query = Some cs \<Longrightarrow> csOk R cs" and ident: "idTarget (fmtOf env) (conditions query) = Some k"
    and others: "\<And>cs r. staging query = Some cs \<Longrightarrow> r \<in> snd ` set (Inserts cs @ Updates cs) \<Longrightarrow> matching (fmtOf env) query r \<Longrightarrow> getPrimaryKey r = k"
    and ty: "\<And>r. viewOf (staging query) R k = Some r \<Longrightarrow> typeOf r = tb_Type table"
  shows "\<exists>db'. List_query env query db = (Ok (page (offset query) (limit query)
      (filter (matching (fmtOf env) query) (listOf (viewOf (staging query) R k)))), db')"
proof -
  let ?m = "matching (fmtOf env) query" and ?v = "listOf (viewOf (staging query) R k)"
  obtain rest db' where run: "recordsByID env query [k] db = (Ok (?v @ rest), db')"
    and rest: "set rest \<subseteq> {r. \<exists>cs. staging query = Some cs \<and> r \<in> snd ` set (Inserts cs @ Updates cs) \<and> getPrimaryKey r \<noteq> k}"
    using recordsByID_run [OF h k q ct cs] by blast
  have none: "\<not> ?m r" if "r \<in> set rest" for r using rest others that by blast
  have skip: "filterRecords ?m fs rest = fs" for fs using none by (intro filterRecords_none) blast
  have f: "filterRecords ?m [] (?v @ rest) = filter ?m ?v"
    using skip by (cases "viewOf (staging query) R k") (simp_all add: listOf_def)
  have one: "sortRecords (fmtOf env) (sortOrder query) (filter ?m ?v) = filter ?m ?v"
    by (cases "viewOf (staging query) R k") (simp_all add: listOf_def sortRecords_def sort_Slice_def split: option.split)
  have "typeOf r = tb_Type table" if "r \<in> set (page (offset query) (limit query) (filter ?m ?v))" for r
  proof -
    have "r \<in> set ?v" using that page_subset [of "offset query" "limit query" "filter ?m ?v"] by auto
    then show ?thesis using ty by (auto simp: listOf_def split: option.splits)
  qed
  then have "mapM (asType (tb_Type table)) (page (offset query) (limit query) (filter ?m ?v)) = Ok (page (offset query) (limit query) (filter ?m ?v))"
    by (rule mapM_asType_Ok)
  then show ?thesis
    using run ident q f one by (simp add: List_query_def targetIDs_def matching_def [abs_def])
qed

section \<open>Examples\<close>

definition showText :: "gval \<Rightarrow> string" where
  "showText v = (case v of VString s \<Rightarrow> s | _ \<Rightarrow> [])"

lemma one_user:
  "\<exists>db. holdsRows (quietWith fmt) stringKeys 256 shortIDs 0 users (committedState db) [VString ''7'' \<mapsto> user ''7'' ''Ada''] db"
proof -
  have "committedState usersDb = usersState" by (simp add: usersDb_def)
  then have h: "holdsRows (quietWith fmt) stringKeys 256 shortIDs (Suc (Suc 0)) users (committedState usersDb) Map.empty usersDb"
    using usersDb_rows [of "Suc (Suc 0)" fmt] by simp
  show ?thesis using Table_Insert_run [OF h user_rowOk(1), of 1] by (auto simp: insertMap_def user_key)
qed

definition sortedQuery :: Query where
  "sortedQuery = \<lparr>q_table = users, committedTable = None,
     staging = Some \<lparr>Cleared = True, Inserts = [(VString ''8'', user ''8'' ''Bob''), (VString ''7'', user ''7'' ''Ada'')], Updates = [], Deletes = []\<rparr>,
     conditions = [CustomCondition ''Name'' (\<lambda>r. r = user ''8'' ''Bob'' \<or> r = user ''7'' ''Ada'')],
     sortOrder = Some \<lparr>so_FieldName = ''Name'', so_Ascending = True\<rparr>, limit = 1, offset = 0\<rparr>"

lemma sortedQuery_run: "List_query quiet sortedQuery usersDb = (Ok [user ''7'' ''Ada''], usersDb)"
proof -
  have a: "targetIDs quiet sortedQuery usersDb = (Ok None, usersDb)"
    by (simp add: targetIDs_def idTarget_def equalityValue_def sortedQuery_def)
  have b: "recordsByScan quiet sortedQuery usersDb = (Ok [user ''8'' ''Bob'', user ''7'' ''Ada''], usersDb)"
    by (simp add: recordsByScan_def sortedQuery_def)
  have c: "page (offset sortedQuery) (limit sortedQuery) (sortRecords (\<lambda>v. []) (sortOrder sortedQuery)
      (filterRecords (\<lambda>r. list_all (\<lambda>c. Test (\<lambda>v. []) c r) (conditions sortedQuery)) [] [user ''8'' ''Bob'', user ''7'' ''Ada'']))
      = [user ''7'' ''Ada'']" by code_simp
  have d: "mapM (asType (tb_Type (q_table sortedQuery))) [user ''7'' ''Ada''] = Ok [user ''7'' ''Ada'']" by code_simp
  show ?thesis
    by (simp only: List_query_def bindD_def a b c d prod.case res.case option.case Let_def quiet_run returnD_run)
qed

definition counter :: gval where
  "counter = VStruct ''main.Counter'' [GField ''ID'' [] ''id'' TInt] [VInt 5]"

definition counterBytes :: bytes where
  "counterBytes = (case Marshal counter of Ok b \<Rightarrow> b | _ \<Rightarrow> [])"

definition counters :: TableStorage where
  "counters = \<lparr>ts_file = OpenFile, ts_path = ''/data/counters.tbl'', currentSize = of_nat (length counterBytes), ts_disk = counterBytes\<rparr>"

section \<open>Properties\<close>



text \<open>C18: a query with an equality on the identifier returns the row that the query sees under it, committed or
  changed by the transaction (also when it was deleted and inserted again), if the row satisfies the other
  conditions, and nothing else.\<close>

theorem id_query_returns_row:
  assumes "holdsRows env K L keys n table state R db" "k \<in> keys" "q_table query = table"
    and "committedTable query = tableStateOf state (tb_name table)"
    and "\<And>cs. staging query = Some cs \<Longrightarrow> csOk R cs" "idTarget (fmtOf env) (conditions query) = Some k"
    and "\<And>cs r. staging query = Some cs \<Longrightarrow> r \<in> snd ` set (Inserts cs @ Updates cs) \<Longrightarrow> matching (fmtOf env) query r \<Longrightarrow> getPrimaryKey r = k"
    and "\<And>r. viewOf (staging query) R k = Some r \<Longrightarrow> typeOf r = tb_Type table"
  shows "\<exists>db'. List_query env query db = (Ok (page (offset query) (limit query)
      (filter (matching (fmtOf env) query) (listOf (viewOf (staging query) R k)))), db')"
  by (rule id_query_run) (fact assms)+

theorem id_query_returns_row_witness:
  "\<exists>db db'. List_query (quietWith showText) (Where (Some (QueryCondition ''ID'' (VString ''7'') EqualTo)) (Table_Query users None db)) db
    = (Ok [user ''7'' ''Ada''], db')"
proof -
  obtain db where h: "holdsRows (quietWith showText) stringKeys 256 shortIDs 0 users (committedState db) [VString ''7'' \<mapsto> user ''7'' ''Ada''] db"
    using one_user by blast
  let ?q = "Where (Some (QueryCondition ''ID'' (VString ''7'') EqualTo)) (Table_Query users None db)"
  have q: "q_table ?q = users" "committedTable ?q = tableStateOf (committedState db) (tb_name users)" "staging ?q = None"
    "conditions ?q = [QueryCondition ''ID'' (VString ''7'') EqualTo]" "offset ?q = 0" "limit ?q = -1"
    by (simp_all add: Where_def Table_Query_def NewQuery_def)
  have k: "VString ''7'' \<in> shortIDs" by (simp add: shortIDs_def)
  have t: "idTarget showText [QueryCondition ''ID'' (VString ''7'') EqualTo] = Some (VString ''7'')"
    "Test showText (QueryCondition ''ID'' (VString ''7'') EqualTo) (user ''7'' ''Ada'')"
    "typeOf (user ''7'' ''Ada'') = tb_Type users" by code_simp+
  have "\<exists>db'. List_query (quietWith showText) ?q db = (Ok (page (offset ?q) (limit ?q)
      (filter (matching (fmtOf (quietWith showText)) ?q) (listOf (viewOf (staging ?q) [VString ''7'' \<mapsto> user ''7'' ''Ada''] (VString ''7''))))), db')"
    by (rule id_query_returns_row [OF h k q(1,2)]) (use q t in \<open>auto simp: quiet_run viewOf_def\<close>)
  then have "\<exists>db'. List_query (quietWith showText) ?q db = (Ok [user ''7'' ''Ada''], db')"
    using t(2) unfolding q by (simp add: quiet_run viewOf_def listOf_def matching_def q page_def sub_def)
  then show ?thesis by blast
qed

text \<open>C29: offset and limit cut the window of the results that they describe, unless their sum exceeds the range of
  Go's int: then the page is empty.\<close>

theorem page_window:
  assumes "0 \<le> off" "0 \<le> lim" "lim < 2 ^ 63" "int (length xs) < 2 ^ 63"
  shows "page off lim xs = (if min off (int (length xs)) + lim < 2 ^ 63 then take (nat lim) (drop (nat off) xs) else [])"
  using page_run(2,3) [OF assms(1,3,4)] assms(2) by simp

theorem page_window_witness:
  "page 1 2 ''abcd'' = ''bc'' \<and> page 1 (2 ^ 63 - 1) ''abcd'' = []"
  using page_window [of 1 2 "''abcd''"] page_window [of 1 "2 ^ 63 - 1" "''abcd''"] by (simp add: numeral_2_eq_2)

text \<open>C38: an inequality on the identifier whose value, printed, contains two equal signs is taken for an equality:
  the query looks up that identifier, and when there is no such row it returns nothing, whatever rows the
  table has.\<close>

theorem inequality_taken_for_equality:
  assumes "holdsRows env K L keys n table (committedState db) R db" "k \<in> keys" "R k = None"
    and "strings_EqualFold f ''id''" "strings_Contains (fmtOf env k) ''==''"
  shows "\<exists>db'. List_query env (Where (Some (QueryCondition f k NotEqualTo)) (Table_Query table None db)) db = (Ok [], db')"
proof -
  let ?q = "Where (Some (QueryCondition f k NotEqualTo)) (Table_Query table None db)"
  have "strings_Contains (desc (fmtOf env) f k NotEqualTo) ''==''"
    using assms(5) unfolding Contains_iff desc_def by (metis append.assoc)
  then have "idTarget (fmtOf env) (conditions ?q) = Some k"
    using assms(4) by (simp add: Where_def Table_Query_def NewQuery_def idTarget_def equalityValue_def)
  then have "\<exists>db'. List_query env ?q db = (Ok (page (offset ?q) (limit ?q)
      (filter (matching (fmtOf env) ?q) (listOf (viewOf (staging ?q) R k)))), db')"
    using assms(3) by (intro id_query_run [OF assms(1,2)]) (simp_all add: Where_def Table_Query_def NewQuery_def viewOf_def)
  then show ?thesis
    using assms(3) by (simp add: Where_def Table_Query_def NewQuery_def viewOf_def listOf_def page_def sub_def)
qed

theorem inequality_taken_for_equality_witness:
  "\<exists>db db'. List_query (quietWith showText) (Where (Some (QueryCondition ''ID'' (VString ''a==b'') NotEqualTo)) (Table_Query users None db)) db
      = (Ok [], db')
    \<and> Test showText (QueryCondition ''ID'' (VString ''a==b'') NotEqualTo) (user ''7'' ''Ada'')
    \<and> fst (FindByID_committed (quietWith showText) users (VString ''7'') db) = Ok (Some (user ''7'' ''Ada''))"
proof -
  obtain db where h: "holdsRows (quietWith showText) stringKeys 256 shortIDs 0 users (committedState db) [VString ''7'' \<mapsto> user ''7'' ''Ada''] db"
    using one_user by blast
  have k: "VString ''a==b'' \<in> shortIDs" "VString ''7'' \<in> shortIDs" by (simp_all add: shortIDs_def)
  have t: "strings_EqualFold ''ID'' ''id''" "strings_Contains (showText (VString ''a==b'')) ''==''"
    "Test showText (QueryCondition ''ID'' (VString ''a==b'') NotEqualTo) (user ''7'' ''Ada'')" by code_simp+
  obtain db2 where "FindByID_committed (quietWith showText) users (VString ''7'') db = (Ok (Some (user ''7'' ''Ada'')), db2)"
    using disk_rows.find_row [OF h k(2)] by (auto simp: FindByID_committed_def)
  then show ?thesis using inequality_taken_for_equality [OF h k(1) _ t(1)] t(2,3) by (auto simp: quiet_run)
qed



end
