(* ===== verification/Recovery.thy ===== *)
theory Recovery
  imports Transactions
begin

text \<open>
  Opening a database (\<^verbatim>\<open>Open\<close>, \<^verbatim>\<open>recover\<close>, \<^verbatim>\<open>writeSnapshot\<close>, \<^verbatim>\<open>readSnapshot\<close>, \<^verbatim>\<open>findLatestSnapshot\<close> and
  \<^verbatim>\<open>Compact\<close> of \<^verbatim>\<open>src/db.go\<close>): the snapshot format, the replay of the log, backup, and compaction, which writes a
  snapshot, rewrites the tables and empties the log.

  A snapshot file appears in the directory when it is complete: it is written under another name
  that \<^verbatim>\<open>findLatestSnapshot\<close> ignores, and renamed. An operating-system error on the way is the
  outcome \<open>de_snapshot\<close>.
\<close>

section \<open>Writing a snapshot\<close>

definition SnapshotMagic :: "32 word" where
  "SnapshotMagic = 0x524d524d"

definition indexMetaBytes :: "IndexMetadata \<Rightarrow> bytes" where
  "indexMetaBytes m = writeString (IndexName m) @ writeString (FieldName m) @ boolByte (Unique m) @ boolByte (Ordered m)"

definition tableHeaderBytes :: "TableState \<Rightarrow> bytes" where
  "tableHeaderBytes t =
     writeString (TableName t) @ writeString (typeString (IdType t)) @ writeString (typeString (EntityType t))
     @ PutUint32 (of_nat (length (IndexMetadataList t))) @ concat (map indexMetaBytes (IndexMetadataList t))"

definition recordsBytes :: "bytes list \<Rightarrow> bytes" where
  "recordsBytes records =
     PutUint32 (of_nat (length records)) @ concat (map (\<lambda>b. PutUint32 (of_nat (length b)) @ b) records)"

definition collectPointer :: "RecordPointer list res visitor" where
  "collectPointer keyBytes recordPointer v = (True, mapR (\<lambda>ps. ps @ [recordPointer]) v)"

definition snapshotTable :: "db_env \<Rightarrow> TableState \<Rightarrow> bytes db_op" where
  "snapshotTable env tableState =
     bindD (tableStorage env (TableName tableState)) (\<lambda>ts.
       bindD (getShadowNamedIndex env (TableName tableState)) (\<lambda>_.
         bindD (scanIndex env (TableName tableState) ''primary'' [] collectPointer []) (\<lambda>recordPointers.
           bindD (liftD (mapM (\<lambda>p. ReadRecord p (de_read env (TableName tableState) p) ts) recordPointers)) (\<lambda>records.
             returnD (tableHeaderBytes tableState @ recordsBytes records)))))"

definition snapshotBody :: "db_env \<Rightarrow> DatabaseState \<Rightarrow> bytes db_op" where
  "snapshotBody env state =
     forD (map snd (Tables state)) (\<lambda>tableState body.
         bindD (snapshotTable env tableState) (\<lambda>b. returnD (body @ b)))
       (PutUint32 SnapshotMagic @ PutUint64 (Generation state) @ PutUint32 (of_nat (length (Tables state))))"

definition sealSnapshot :: "bytes \<Rightarrow> bytes" where
  "sealSnapshot body = body @ PutUint64 (ucast (crc32c body))"

definition snapshotName :: "64 word \<Rightarrow> string" where
  "snapshotName generation = ''snapshot.'' @ fmt_d (sint generation)"

definition writeSnapshot :: "db_env \<Rightarrow> DatabaseState \<Rightarrow> unit db_op" where
  "writeSnapshot env state =
     bindD (snapshotBody env state) (\<lambda>body.
       case de_snapshot env of
         Some e \<Rightarrow> liftD (Err e)
       | None \<Rightarrow> modifyD (\<lambda>database. database\<lparr>snapshotFiles :=
           AList.update (snapshotName (Generation state)) (sealSnapshot body) (snapshotFiles database)\<rparr>))"

section \<open>Reading a snapshot\<close>

text \<open>\<^verbatim>\<open>fmt.Sscanf(name, "snapshot.%d", &generation)\<close>: a sign and the leading digits; what follows them is
  ignored.\<close>

definition scanGeneration :: "string \<Rightarrow> int option" where
  "scanGeneration name =
     (let r = drop (length ''snapshot.'') name;
          (sign, ds) = (case r of c # cs \<Rightarrow> if c = CHR ''-'' \<or> c = CHR ''+'' then ([c], cs) else ([], r) | [] \<Rightarrow> ([], r))
      in ParseInt (sign @ takeWhile isDigit ds))"

definition snapshotGeneration :: "string \<Rightarrow> int option" where
  "snapshotGeneration name =
     (if strings_HasPrefix name ''snapshot.'' \<and> \<not> strings_HasSuffix name ''.tmp'' then scanGeneration name else None)"

text \<open>The entry of the directory with the highest generation, and the generation.\<close>

definition findLatestSnapshot :: "(string \<times> bytes) list \<Rightarrow> ((string \<times> bytes) \<times> int) option" where
  "findLatestSnapshot entries =
     (case foldl (\<lambda>best entry.
          case snapshotGeneration (fst entry) of
            None \<Rightarrow> best
          | Some generation \<Rightarrow> if generation > snd best then (Some entry, generation) else best)
        (None, -1) entries of
        (Some entry, generation) \<Rightarrow> Some (entry, generation)
      | (None, _) \<Rightarrow> None)"

record tableSnapshotData =
  sd_tableName :: string
  sd_idType :: gtype
  sd_entityType :: gtype
  sd_indexMetas :: "IndexMetadata list"
  sd_records :: "bytes list"

fun repeatR :: "nat \<Rightarrow> (bytes \<Rightarrow> ('a \<times> bytes) res) \<Rightarrow> bytes \<Rightarrow> ('a list \<times> bytes) res" where
  "repeatR 0 get r = Ok ([], r)"
| "repeatR (Suc n) get r = bindR (get r) (\<lambda>(x, r1). bindR (repeatR n get r1) (\<lambda>(xs, r2). Ok (x # xs, r2)))"

definition readIndexMeta :: "bytes \<Rightarrow> (IndexMetadata \<times> bytes) res" where
  "readIndexMeta r =
     bindR (readString r) (\<lambda>(indexName, r1).
       bindR (readString r1) (\<lambda>(fieldName, r2).
         bindR (readBool r2) (\<lambda>(unique, r3).
           bindR (readBool r3) (\<lambda>(ordered, r4).
             Ok (\<lparr>IndexName = indexName, FieldName = fieldName, Unique = unique, Ordered = ordered\<rparr>, r4)))))"

definition corrupt :: "string \<Rightarrow> 'a res" where
  "corrupt what = Err (Errorf (''corrupt snapshot: '' @ what))"

definition maxSnapshotRecord :: int where
  "maxSnapshotRecord = 1024 * 1024 * 64"

text \<open>A record is decoded once to see that it can be.\<close>

definition readSnapshotRecord :: "go_env \<Rightarrow> gtype \<Rightarrow> bytes \<Rightarrow> (bytes \<times> bytes) res" where
  "readSnapshotRecord env entityType r =
     bindR (readInt32 r) (\<lambda>(recordLength, r1).
       if sint recordLength < 0 \<or> sint recordLength > maxSnapshotRecord then corrupt ''invalid record length''
       else
         bindR (readFull (nat (sint recordLength)) r1) (\<lambda>(recordBytes, r2).
           bindR (Unmarshal env recordBytes entityType) (\<lambda>_. Ok (recordBytes, r2))))"

definition readSnapshotTable :: "go_env \<Rightarrow> (string \<times> gtype) list \<Rightarrow> bytes \<Rightarrow> (tableSnapshotData \<times> bytes) res" where
  "readSnapshotTable env registry r =
     bindR (readString r) (\<lambda>(tableName, r1).
       bindR (readString r1) (\<lambda>(idClassName, r2).
         bindR (readString r2) (\<lambda>(entityClassName, r3).
           case getRegisteredType registry entityClassName of
             None \<Rightarrow> Err (Errorf ''type not registered in options'')
           | Some entityType \<Rightarrow>
               let idType = (case getRegisteredType registry idClassName of None \<Rightarrow> TString | Some t \<Rightarrow> t) in
               bindR (readInt32 r3) (\<lambda>(indexCount, r4).
                 if sint indexCount < 0 \<or> sint indexCount > 1000 then corrupt ''invalid index count''
                 else
                   bindR (repeatR (nat (sint indexCount)) readIndexMeta r4) (\<lambda>(indexMetas, r5).
                     bindR (readInt32 r5) (\<lambda>(recordCount, r6).
                       if sint recordCount < 0 then corrupt ''invalid record count''
                       else
                         bindR (repeatR (nat (sint recordCount)) (readSnapshotRecord env entityType) r6) (\<lambda>(records, r7).
                           Ok (\<lparr>sd_tableName = tableName, sd_idType = idType, sd_entityType = entityType,
                                sd_indexMetas = indexMetas, sd_records = records\<rparr>, r7))))))))"

definition parseSnapshot :: "go_env \<Rightarrow> (string \<times> gtype) list \<Rightarrow> bytes \<Rightarrow> (64 word \<times> tableSnapshotData list) res" where
  "parseSnapshot env registry file =
     (if length file < 20 then corrupt ''file too small''
      else
        let dataLength = length file - 8; body = take dataLength file in
        bindR (readInt32 body) (\<lambda>(magic, r1).
          if magic \<noteq> SnapshotMagic \<and> magic \<noteq> 0x524d534e then corrupt ''magic mismatch''
          else
            bindR (readInt64 r1) (\<lambda>(generation, r2).
              bindR (readInt32 r2) (\<lambda>(tableCount, r3).
                if sint tableCount < 0 \<or> sint tableCount > 10000 then corrupt ''invalid table count''
                else
                  bindR (repeatR (nat (sint tableCount)) (readSnapshotTable env registry) r3) (\<lambda>(tables, _).
                    bindR (readInt64 (drop dataLength file)) (\<lambda>(fileChecksum, _).
                      if fileChecksum \<noteq> ucast (crc32c body) then corrupt ''checksum failure''
                      else Ok (generation, tables)))))))"

text \<open>The second half of \<^verbatim>\<open>readSnapshot\<close>: the tables are written again from the snapshot. The old table
  files are moved aside and come back when it fails.\<close>

definition restoreRecord :: "db_env \<Rightarrow> 64 word \<Rightarrow> tableSnapshotData \<Rightarrow> bytes \<Rightarrow> unit db_op" where
  "restoreRecord env generation info recordBytes =
     bindD (liftD (Unmarshal (de_go env) recordBytes (sd_entityType info))) (\<lambda>record.
       bindD (appendRecord env (sd_tableName info) recordBytes) (\<lambda>recordPointer.
         shadowInsertNoCommit env (sd_tableName info) record recordPointer generation))"

definition restoreTable :: "db_env \<Rightarrow> 64 word \<Rightarrow> tableSnapshotData \<Rightarrow> DatabaseState \<Rightarrow> DatabaseState db_op" where
  "restoreTable env generation info state =
     bindD (tableStorage env (sd_tableName info)) (\<lambda>_.
       bindD (forD (sd_records info) (\<lambda>recordBytes _. restoreRecord env generation info recordBytes) ()) (\<lambda>_.
         bindD (shadowCommit env (sd_tableName info) generation) (\<lambda>_.
           returnD (state\<lparr>Tables := AList.update (sd_tableName info)
             (NewTableState (sd_tableName info) (sd_idType info) (sd_entityType info) (sd_indexMetas info)) (Tables state)\<rparr>))))"

definition restoreSnapshot :: "db_env \<Rightarrow> 64 word \<Rightarrow> tableSnapshotData list \<Rightarrow> DatabaseState db_op" where
  "restoreSnapshot env generation tables database =
     (let names = map sd_tableName tables;
          aside = database\<lparr>tableFiles := (\<lambda>n. if n \<in> set names then None else tableFiles database n)\<rparr>
      in case forD tables (restoreTable env generation) (NewDatabaseState generation) aside of
           (Ok state, database1) \<Rightarrow> (Ok state, database1)
         | (r, database1) \<Rightarrow> (r, database1\<lparr>
             tableStorageMap := (\<lambda>n. if n \<in> set names then None else tableStorageMap database1 n),
             tableFiles := (\<lambda>n. if n \<in> set names then tableFiles database n else tableFiles database1 n)\<rparr>))"

text \<open>An unreadable directory counts as one without a snapshot.\<close>

definition readSnapshot :: "db_env \<Rightarrow> DatabaseState option db_op" where
  "readSnapshot env database =
     (case findLatestSnapshot (snapshotFiles database) of
        None \<Rightarrow> (Ok None, database)
      | Some ((_, file), _) \<Rightarrow>
          bindD (liftD (parseSnapshot (de_go env) (typeRegistry database) file)) (\<lambda>(generation, tables).
            bindD (restoreSnapshot env generation tables) (\<lambda>state. returnD (Some state))) database)"

section \<open>Replaying the log\<close>

record recovery =
  rc_state :: DatabaseState
  rc_generation :: "64 word"
  rc_cleared :: "string list"
  rc_modified :: "string list"
  rc_transGen :: "64 word"

text \<open>The payload of an insert, upsert or update: table, type and record.\<close>

definition readRecordPayload :: "bytes \<Rightarrow> (string \<times> string \<times> bytes) res" where
  "readRecordPayload payload =
     bindR (readString payload) (\<lambda>(tableName, r1).
       bindR (readString r1) (\<lambda>(entityClassName, r2).
         bindR (readInt32 r2) (\<lambda>(payloadLength, r3).
           if sint payloadLength < 0 then Panic MakeSliceLen
           else bindR (readFull (nat (sint payloadLength)) r3) (\<lambda>(recordBytes, _).
             Ok (tableName, entityClassName, recordBytes)))))"

definition readDeletePayload :: "bytes \<Rightarrow> (string \<times> gval) res" where
  "readDeletePayload payload =
     bindR (readString payload) (\<lambda>(tableName, r1).
       bindR (readString r1) (\<lambda>(_, r2).
         bindR (readValue r2) (\<lambda>(primaryKey, _). Ok (tableName, primaryKey))))"

definition notRegistered :: "'a res" where
  "notRegistered = Err (Errorf ''recovery failed: type not registered'')"

text \<open>The record under a key before the replayed operation, \<open>None\<close> when the key is not in the index.
  Errors of the lookup count as not found, errors of the read as a nil record.\<close>

definition replayOldRecord :: "db_env \<Rightarrow> string \<Rightarrow> gtype \<Rightarrow> gval \<Rightarrow> gval option db_op" where
  "replayOldRecord env tableName entityType key =
     bindD (attemptD (findPrimary env tableName key)) (\<lambda>r.
       case r of
         Inr (Some pointer) \<Rightarrow>
           bindD (attemptD (readRecordAs env tableName entityType pointer)) (\<lambda>old.
             returnD (Some (case old of Inl _ \<Rightarrow> VNil | Inr record \<Rightarrow> record)))
       | _ \<Rightarrow> returnD None)"

definition resetOnce :: "db_env \<Rightarrow> string \<Rightarrow> recovery \<Rightarrow> recovery db_op" where
  "resetOnce env tableName rc =
     (if tableName \<in> set (rc_cleared rc) then returnD rc
      else
        bindD (tableStorage env tableName) (\<lambda>ts.
          case Reset (de_reset env tableName) ts of
            (r, ts') \<Rightarrow> bindD (putStorage tableName ts') (\<lambda>_.
              bindD (liftD r) (\<lambda>_. returnD (rc\<lparr>rc_cleared := tableName # rc_cleared rc\<rparr>)))))"

definition replayRecord :: "db_env \<Rightarrow> WalOperation \<Rightarrow> bytes \<Rightarrow> recovery \<Rightarrow> recovery db_op" where
  "replayRecord env op payload rc =
     bindD (liftD (readRecordPayload payload)) (\<lambda>(tableName, entityClassName, recordBytes) database.
       case getRegisteredType (typeRegistry database) entityClassName of
         None \<Rightarrow> (notRegistered, database)
       | Some entityType \<Rightarrow>
           bindD (liftD (Unmarshal (de_go env) recordBytes entityType)) (\<lambda>record.
             let state = rc_state rc;
                 rc1 = (if tableStateOf state tableName = None
                        then rc\<lparr>rc_state := state\<lparr>Tables := AList.update tableName (NewTableState tableName TString entityType []) (Tables state)\<rparr>\<rparr>
                        else rc)
             in bindD (tableStorage env tableName) (\<lambda>_.
                  bindD (resetOnce env tableName rc1) (\<lambda>rc2.
                    bindD (replayOldRecord env tableName entityType (getPrimaryKey record)) (\<lambda>old.
                      bindD (appendRecord env tableName recordBytes) (\<lambda>recordPointer.
                        bindD (case old of
                                 Some oldRecord \<Rightarrow>
                                   if op = OpInsert then returnD ()
                                   else shadowDeleteNoCommit env tableName (getPrimaryKey record) oldRecord (rc_transGen rc)
                               | None \<Rightarrow> returnD ()) (\<lambda>_.
                          bindD (shadowInsertNoCommit env tableName record recordPointer (rc_transGen rc)) (\<lambda>_.
                            returnD (rc2\<lparr>rc_modified := List.insert tableName (rc_modified rc2)\<rparr>)))))))) database)"

definition replayDelete :: "db_env \<Rightarrow> bytes \<Rightarrow> recovery \<Rightarrow> recovery db_op" where
  "replayDelete env payload rc =
     bindD (liftD (readDeletePayload payload)) (\<lambda>(tableName, primaryKey).
       case tableStateOf (rc_state rc) tableName of
         None \<Rightarrow> returnD rc
       | Some tableState \<Rightarrow>
           bindD (tableStorage env tableName) (\<lambda>_.
             bindD (replayOldRecord env tableName (EntityType tableState) primaryKey) (\<lambda>old.
               bindD (case old of
                        Some oldRecord \<Rightarrow> shadowDeleteNoCommit env tableName primaryKey oldRecord (rc_transGen rc)
                      | None \<Rightarrow> returnD ()) (\<lambda>_.
                 returnD (rc\<lparr>rc_modified := List.insert tableName (rc_modified rc)\<rparr>)))))"

definition replayClear :: "db_env \<Rightarrow> bytes \<Rightarrow> recovery \<Rightarrow> recovery db_op" where
  "replayClear env payload rc =
     bindD (liftD (readString payload)) (\<lambda>(tableName, _).
       bindD (shadowClear env tableName) (\<lambda>_.
         returnD (rc\<lparr>rc_modified := List.insert tableName (rc_modified rc)\<rparr>)))"

definition replayCreateTable :: "bytes \<Rightarrow> recovery \<Rightarrow> recovery db_op" where
  "replayCreateTable payload rc =
     bindD (liftD (bindR (readString payload) (\<lambda>(tableName, r1).
         bindR (readString r1) (\<lambda>(idClassName, r2).
           bindR (readString r2) (\<lambda>(entityClassName, _). Ok (tableName, idClassName, entityClassName))))))
       (\<lambda>(tableName, idClassName, entityClassName) database.
         let idType = (case getRegisteredType (typeRegistry database) idClassName of None \<Rightarrow> TString | Some t \<Rightarrow> t);
             state = rc_state rc
         in case getRegisteredType (typeRegistry database) entityClassName of
              None \<Rightarrow> (notRegistered, database)
            | Some entityType \<Rightarrow> (Ok (rc\<lparr>rc_state := state\<lparr>Tables :=
                AList.update tableName (NewTableState tableName idType entityType []) (Tables state)\<rparr>\<rparr>), database))"

definition replayDropTable :: "bytes \<Rightarrow> recovery \<Rightarrow> recovery db_op" where
  "replayDropTable payload rc =
     bindD (liftD (readString payload)) (\<lambda>(tableName, _).
       returnD (rc\<lparr>rc_state := (rc_state rc)\<lparr>Tables := AList.delete tableName (Tables (rc_state rc))\<rparr>\<rparr>))"

text \<open>The field name is cut out of the index name.\<close>

definition fieldOfIndex :: "string \<Rightarrow> string \<Rightarrow> string res" where
  "fieldOfIndex tableName indexName =
     (let prefix = tableName @ ''_''; suffix = ''_idx'' in
      if strings_HasPrefix indexName prefix \<and> strings_HasSuffix indexName suffix
      then slice indexName (length prefix) (length indexName - length suffix)
      else Ok indexName)"

definition onTable :: "string \<Rightarrow> (TableState \<Rightarrow> TableState) \<Rightarrow> recovery \<Rightarrow> recovery" where
  "onTable tableName f rc =
     (case tableStateOf (rc_state rc) tableName of
        None \<Rightarrow> rc
      | Some t \<Rightarrow> rc\<lparr>rc_state := (rc_state rc)\<lparr>Tables := AList.update tableName (f t) (Tables (rc_state rc))\<rparr>\<rparr>)"

definition replayCreateIndex :: "bytes \<Rightarrow> recovery \<Rightarrow> recovery db_op" where
  "replayCreateIndex payload rc =
     bindD (liftD (bindR (readString payload) (\<lambda>(tableName, r1).
         bindR (readString r1) (\<lambda>(indexName, r2).
           bindR (readBool r2) (\<lambda>(unique, r3).
             bindR (readBool r3) (\<lambda>(ordered, _).
               if tableStateOf (rc_state rc) tableName = None then Ok rc
               else bindR (fieldOfIndex tableName indexName) (\<lambda>fieldName.
                 Ok (onTable tableName (\<lambda>t. t\<lparr>IndexMetadataList := IndexMetadataList t @
                   [\<lparr>IndexName = indexName, FieldName = fieldName, Unique = unique, Ordered = ordered\<rparr>]\<rparr>) rc))))))))
       returnD"

definition replayDropIndex :: "bytes \<Rightarrow> recovery \<Rightarrow> recovery db_op" where
  "replayDropIndex payload rc =
     bindD (liftD (bindR (readString payload) (\<lambda>(tableName, r1).
         bindR (readString r1) (\<lambda>(indexName, _).
           Ok (onTable tableName (\<lambda>t. t\<lparr>IndexMetadataList := filter (\<lambda>m. IndexName m \<noteq> indexName) (IndexMetadataList t)\<rparr>) rc)))))
       returnD"

definition replayOne :: "db_env \<Rightarrow> WalRecord \<Rightarrow> recovery \<Rightarrow> recovery db_op" where
  "replayOne env walRecord rc =
     (let rc1 = rc\<lparr>rc_generation := (if sint (wr_Generation walRecord) > sint (rc_generation rc) then wr_Generation walRecord else rc_generation rc),
                   rc_transGen := wr_Generation walRecord\<rparr>;
          payload = wr_Payload walRecord
      in case wr_Type walRecord of
           OpBeginTransaction \<Rightarrow> returnD rc1
         | OpCommitTransaction \<Rightarrow> returnD rc1
         | OpRollbackTransaction \<Rightarrow> returnD rc1
         | OpInsert \<Rightarrow> replayRecord env OpInsert payload rc1
         | OpUpsert \<Rightarrow> replayRecord env OpUpsert payload rc1
         | OpUpdate \<Rightarrow> replayRecord env OpUpdate payload rc1
         | OpDelete \<Rightarrow> replayDelete env payload rc1
         | OpClearTable \<Rightarrow> replayClear env payload rc1
         | OpCreateTable \<Rightarrow> replayCreateTable payload rc1
         | OpDropTable \<Rightarrow> replayDropTable payload rc1
         | OpCreateIndex \<Rightarrow> replayCreateIndex payload rc1
         | OpDropIndex \<Rightarrow> replayDropIndex payload rc1)"

definition transactionGroup :: "WalRecord list \<Rightarrow> 64 word \<Rightarrow> WalRecord list" where
  "transactionGroup walRecords ident = filter (\<lambda>r. wr_TransactionID r = ident) walRecords"

definition idsOf :: "WalOperation \<Rightarrow> WalRecord list \<Rightarrow> 64 word list" where
  "idsOf op walRecords = map wr_TransactionID (filter (\<lambda>r. wr_Type r = op) walRecords)"

definition groupGeneration :: "WalRecord list \<Rightarrow> 64 word \<Rightarrow> int" where
  "groupGeneration walRecords ident =
     (case transactionGroup walRecords ident of [] \<Rightarrow> 0 | r # _ \<Rightarrow> sint (wr_Generation r))"

definition activeCommits :: "WalRecord list \<Rightarrow> 64 word list" where
  "activeCommits walRecords =
     sort_Slice (\<lambda>left right. groupGeneration walRecords left < groupGeneration walRecords right)
       (filter (\<lambda>ident. ident \<notin> set (idsOf OpRollbackTransaction walRecords)) (idsOf OpCommitTransaction walRecords))"

definition replayGroup :: "db_env \<Rightarrow> WalRecord list \<Rightarrow> recovery \<Rightarrow> recovery db_op" where
  "replayGroup env walRecordsGroup rc =
     bindD (forD walRecordsGroup (replayOne env) (rc\<lparr>rc_modified := [], rc_transGen := 0\<rparr>)) (\<lambda>rc1.
       bindD (forD (rc_modified rc1) (\<lambda>tableName _. shadowCommit env tableName (rc_transGen rc1)) ()) (\<lambda>_.
         returnD rc1))"

definition recover :: "db_env \<Rightarrow> DatabaseState \<Rightarrow> WalRecord list \<Rightarrow> DatabaseState db_op" where
  "recover env initialState walRecords =
     (if walRecords = [] then returnD initialState
      else
        bindD (forD (activeCommits walRecords) (\<lambda>ident. replayGroup env (transactionGroup walRecords ident))
                 \<lparr>rc_state = DatabaseState_Copy initialState (Generation initialState), rc_generation = Generation initialState,
                  rc_cleared = map fst (Tables initialState), rc_modified = [], rc_transGen = 0\<rparr>) (\<lambda>rc.
          returnD (DatabaseState_Copy (rc_state rc) (rc_generation rc))))"

section \<open>Open\<close>

definition newDatabase ::
  "string \<Rightarrow> 64 word \<Rightarrow> (string \<times> gtype) list \<Rightarrow> (string \<rightharpoonup> bytes) \<Rightarrow> (string \<rightharpoonup> bytes) \<Rightarrow> (string \<times> bytes) list \<Rightarrow> Database"
where
  "newDatabase dir ident registry tables indexes snapshots =
     \<lparr>directory = dir, walManager = \<lparr>wal_file = NilFile, wal_disk = [], wal_pos = 0, durability = DurabilitySync\<rparr>,
      walClosed = False, committedState = NewDatabaseState 0, tableMetadataMap = Map.empty, tableStorageMap = Map.empty,
      db_closed = False, databaseID = ident AND 0x7fffffffffffffff, shadowIndexes = Map.empty, typeRegistry = registry,
      tableFiles = tables, indexFiles = indexes, snapshotFiles = snapshots\<rparr>"

record Options =
  Durability :: DurabilityMode
  Types :: "gval list"
  TransactionWaitTimeout :: int

definition DefaultOptions :: Options where
  "DefaultOptions = \<lparr>Durability = DurabilitySync, Types = [], TransactionWaitTimeout = 0\<rparr>"

definition RegisterTypes :: "gval list \<Rightarrow> (string \<times> gtype) list \<Rightarrow> (string \<times> gtype) list" where
  "RegisterTypes types registry = foldl (\<lambda>registry typeValue. RegisterType typeValue registry) registry types"

text \<open>\<^verbatim>\<open>Open\<close> on the files of the directory; \<open>logFile\<close> is the log. A negative timeout is refused.\<close>

definition Open :: "db_env \<Rightarrow> Options \<Rightarrow> walopen_io \<Rightarrow> error option \<Rightarrow> bytes option \<Rightarrow> unit db_op" where
  "Open env options walIo seekOutcome logFile database =
     (if TransactionWaitTimeout options < 0 then (Err InvalidTransactionWaitTimeoutError, database)
      else
        let database0 = database\<lparr>typeRegistry := RegisterTypes (Types options) (typeRegistry database)\<rparr> in
        case readSnapshot env database0 of
          (Ok snapshot, database1) \<Rightarrow>
            (case NewWalManager (Durability options) logFile walIo of
               Ok wm \<Rightarrow>
                 (case ReadAllRecords seekOutcome wm of
                    (Ok walRecords, wm1) \<Rightarrow>
                      (case recover env (case snapshot of None \<Rightarrow> NewDatabaseState 0 | Some s \<Rightarrow> s) walRecords
                              (database1\<lparr>walManager := wm1\<rparr>) of
                         (Ok recoveredState, database2) \<Rightarrow>
                           (Ok (), database2\<lparr>committedState := recoveredState,
                              tableMetadataMap := foldl (\<lambda>m (n, t). m(TableName t \<mapsto> \<lparr>tm_IdType = IdType t, tm_Type = EntityType t\<rparr>))
                                (tableMetadataMap database2) (Tables recoveredState)\<rparr>)
                       | (Err e, database2) \<Rightarrow> (Err (WrapError ''database recovery failed'' e), database2)
                       | (Panic p, database2) \<Rightarrow> (Panic p, database2)
                       | (NoFuel, database2) \<Rightarrow> (NoFuel, database2))
                  | (Err e, wm1) \<Rightarrow> (Err (WrapError ''failed to read WAL records'' e), database1)
                  | (Panic p, wm1) \<Rightarrow> (Panic p, database1)
                  | (NoFuel, wm1) \<Rightarrow> (NoFuel, database1))
             | Err e \<Rightarrow> (Err (WrapError ''failed to open WAL'' e), database1)
             | Panic p \<Rightarrow> (Panic p, database1)
             | NoFuel \<Rightarrow> (NoFuel, database1))
        | (Err e, database1) \<Rightarrow> (Err (WrapError ''database snapshot read failed'' e), database1)
        | (Panic p, database1) \<Rightarrow> (Panic p, database1)
        | (NoFuel, database1) \<Rightarrow> (NoFuel, database1))"

section \<open>Compaction\<close>

text \<open>The live pointers by primary key; an index key that does not decode is left out.\<close>

definition collectActive :: "(gval \<times> RecordPointer) list res visitor" where
  "collectActive keyBytes recordPointer v =
     (case v of
        Ok pointers \<Rightarrow>
          (case deserializeKey keyBytes of
             Ok primaryKey \<Rightarrow> (True, Ok (AList.update primaryKey recordPointer pointers))
           | Err e \<Rightarrow> (True, v)
           | Panic p \<Rightarrow> (False, Panic p)
           | NoFuel \<Rightarrow> (False, NoFuel))
      | _ \<Rightarrow> (False, v))"

definition compactTable :: "db_env \<Rightarrow> 64 word \<Rightarrow> string \<times> TableState \<Rightarrow> unit db_op" where
  "compactTable env generation entry =
     (case entry of (tableName, tableState) \<Rightarrow>
       bindD (tableStorage env tableName) (\<lambda>ts.
         bindD (getShadowNamedIndex env tableName) (\<lambda>_.
           bindD (scanIndex env tableName ''primary'' [] collectActive []) (\<lambda>activePointers.
             case Compact (de_compact env tableName) activePointers ts of
               (r, newPointers, ts') \<Rightarrow>
                 bindD (putStorage tableName ts') (\<lambda>_.
                   bindD (liftD (case r of Err e \<Rightarrow> Err (WrapError ''compaction of table failed'' e) | _ \<Rightarrow> r)) (\<lambda>_.
                     bindD (shadowClear env tableName) (\<lambda>_.
                       bindD (forD (map snd newPointers) (\<lambda>recordPointer _.
                           bindD (readRecordAs env tableName (EntityType tableState) recordPointer) (\<lambda>record.
                             shadowInsertNoCommit env tableName record recordPointer generation)) ()) (\<lambda>_.
                         shadowCommit env tableName generation))))))))"

definition CompactDatabase :: "db_env \<Rightarrow> reset_io \<Rightarrow> unit db_op" where
  "CompactDatabase env truncateIo database =
     (if db_closed database then (Err DatabaseClosedError, database)
      else
        let committed = committedState database in
        case writeSnapshot env committed database of
          (Ok _, database1) \<Rightarrow>
            bindD (forD (Tables committed) (\<lambda>entry _. compactTable env (Generation committed) entry) ()) (\<lambda>_ database2.
              case Truncate truncateIo (walManager database2) of
                (r, wm) \<Rightarrow> (case r of Err e \<Rightarrow> Err (WrapError ''WAL truncate failed'' e) | _ \<Rightarrow> r, database2\<lparr>walManager := wm\<rparr>)) database1
        | (Err e, database1) \<Rightarrow> (Err (WrapError ''SNAPSHOT failed during compaction'' e), database1)
        | (Panic p, database1) \<Rightarrow> (Panic p, database1)
        | (NoFuel, database1) \<Rightarrow> (NoFuel, database1))"

section \<open>Backup\<close>

text \<open>\<^verbatim>\<open>copyFile\<close> with the answer of the operating system: creating the target empties it, and a failed
  copy leaves a part of the contents.\<close>

datatype copy_io = CopyDone | SourceNotOpened error | TargetNotCreated error | CopyTorn nat error | CopyNotSynced error

definition copyFile :: "copy_io \<Rightarrow> bytes \<Rightarrow> bytes option \<Rightarrow> unit res \<times> bytes option" where
  "copyFile io src dst =
     (case io of
        CopyDone \<Rightarrow> (Ok (), Some src)
      | SourceNotOpened e \<Rightarrow> (Err e, dst)
      | TargetNotCreated e \<Rightarrow> (Err e, dst)
      | CopyTorn n e \<Rightarrow> (Err e, Some (take n src))
      | CopyNotSynced e \<Rightarrow> (Err e, Some src))"

text \<open>The directory of a backup: the log, table files and snapshots. The index files are not copied.\<close>

record backup =
  bk_wal :: "bytes option"
  bk_tables :: "string \<rightharpoonup> bytes"
  bk_snapshots :: "(string \<times> bytes) list"

text \<open>The answers of the operating system; \<open>bi_stat\<close> and \<open>bi_copy\<close> by the name of the file. A file for which
  \<^verbatim>\<open>os.Stat\<close> fails is left out, and so is the snapshot when the directory cannot be read.\<close>

record backup_io =
  bi_mkdir :: "error option"
  bi_stat :: "string \<Rightarrow> error option"
  bi_readDir :: "error option"
  bi_copy :: "string \<Rightarrow> copy_io"

definition wrapR :: "string \<Rightarrow> 'a res \<Rightarrow> 'a res" where
  "wrapR message r = (case r of Err e \<Rightarrow> Err (WrapError message e) | _ \<Rightarrow> r)"

definition backupWal :: "backup_io \<Rightarrow> Database \<Rightarrow> (backup, unit) op" where
  "backupWal io database b =
     (if bi_stat io ''wal.log'' \<noteq> None then (Ok (), b)
      else case copyFile (bi_copy io ''wal.log'') (wal_disk (walManager database)) (bk_wal b) of
        (r, file) \<Rightarrow> (wrapR ''failed to backup WAL log'' r, b\<lparr>bk_wal := file\<rparr>))"

definition tableFile :: "Database \<Rightarrow> string \<Rightarrow> bytes option" where
  "tableFile database tableName =
     (case tableStorageMap database tableName of Some ts \<Rightarrow> Some (ts_disk ts) | None \<Rightarrow> tableFiles database tableName)"

definition backupTable :: "backup_io \<Rightarrow> Database \<Rightarrow> string \<Rightarrow> (backup, unit) op" where
  "backupTable io database tableName b =
     (case tableFile database tableName of
        None \<Rightarrow> (Ok (), b)
      | Some src \<Rightarrow>
          if bi_stat io (tableName @ ''.db'') \<noteq> None then (Ok (), b)
          else case copyFile (bi_copy io (tableName @ ''.db'')) src (bk_tables b tableName) of
            (r, file) \<Rightarrow> (wrapR ''failed to backup table storage'' r, b\<lparr>bk_tables := (bk_tables b)(tableName := file)\<rparr>))"

definition backupSnapshot :: "backup_io \<Rightarrow> Database \<Rightarrow> (backup, unit) op" where
  "backupSnapshot io database b =
     (case (if bi_readDir io \<noteq> None then None else findLatestSnapshot (snapshotFiles database)) of
        None \<Rightarrow> (Ok (), b)
      | Some ((name, src), _) \<Rightarrow>
          (case copyFile (bi_copy io name) src (map_of (bk_snapshots b) name) of
             (r, file) \<Rightarrow> (wrapR ''failed to backup latest snapshot'' r,
               (case file of None \<Rightarrow> b | Some f \<Rightarrow> b\<lparr>bk_snapshots := AList.update name f (bk_snapshots b)\<rparr>))))"

definition Backup :: "backup_io \<Rightarrow> Database \<Rightarrow> (backup, unit) op" where
  "Backup io database =
     (if db_closed database then liftD (Err DatabaseClosedError)
      else case bi_mkdir io of
        Some e \<Rightarrow> liftD (Err (WrapError ''failed to create backup directory'' e))
      | None \<Rightarrow>
          bindD (backupWal io database) (\<lambda>_.
            bindD (forD (map fst (Tables (committedState database))) (\<lambda>tableName _. backupTable io database tableName) ()) (\<lambda>_.
              backupSnapshot io database)))"

section \<open>Export and import\<close>

text \<open>The records that \<^verbatim>\<open>ExportJSON\<close> hands to the encoder, table by table, and \<^verbatim>\<open>ImportJSON\<close> on the rows the
  decoder returns; the JSON text is the standard library's.\<close>

definition ExportJSON :: "db_env \<Rightarrow> (string \<times> gval list) list db_op" where
  "ExportJSON env database =
     forD (Tables (committedState database)) (\<lambda>(tableName, tableState) jsonDb.
       bindD (scanTable env tableName (EntityType tableState)) (\<lambda>records. returnD (jsonDb @ [(tableName, records)]))) [] database"

definition ImportJSON :: "db_env \<Rightarrow> 64 word \<Rightarrow> (string \<times> gval res list) list \<Rightarrow> unit db_op" where
  "ImportJSON env ident rawMap =
     runCallback env ident (forD rawMap (\<lambda>(tableName, jsonRows) _ s.
       case tableStateOf (tx_committedState (fst s)) tableName of
         None \<Rightarrow> (Ok (), s)
       | Some _ \<Rightarrow> forD jsonRows (\<lambda>row _. bindD (liftD row) (InsertDynamic env tableName)) () s) ())"

end
