(* ===== verification/RecoveryLaws.thy ===== *)
theory RecoveryLaws
  imports Recovery TransactionLaws
begin

text \<open>
  Properties of recovery: the replay sees only finished transactions, a snapshot is read back as it was
  written, and a log on which the replay cannot succeed.
\<close>

section \<open>Unfinished transactions\<close>

text \<open>A transaction is finished when the log holds its commit marker and no rollback marker.\<close>

definition finished :: "WalRecord list \<Rightarrow> 64 word \<Rightarrow> bool" where
  "finished ws ident = (ident \<in> set (idsOf OpCommitTransaction ws) \<and> ident \<notin> set (idsOf OpRollbackTransaction ws))"

definition finishedRecords :: "WalRecord list \<Rightarrow> WalRecord list" where
  "finishedRecords ws = filter (\<lambda>r. finished ws (wr_TransactionID r)) ws"

lemma idsOf_finished: "idsOf op (finishedRecords ws) = filter (finished ws) (idsOf op ws)"
  by (simp add: idsOf_def finishedRecords_def filter_map o_def conj_commute)

lemma active_finished:
  "filter (\<lambda>ident. ident \<notin> set (idsOf OpRollbackTransaction (finishedRecords ws))) (idsOf OpCommitTransaction (finishedRecords ws))
   = filter (\<lambda>ident. ident \<notin> set (idsOf OpRollbackTransaction ws)) (idsOf OpCommitTransaction ws)"
proof -
  have "filter (\<lambda>ident. ident \<notin> set (filter (finished ws) (idsOf OpRollbackTransaction ws))) (filter (finished ws) xs)
      = filter (\<lambda>ident. ident \<notin> set (idsOf OpRollbackTransaction ws)) xs" if "set xs \<subseteq> set (idsOf OpCommitTransaction ws)" for xs
    using that by (auto simp: finished_def intro: filter_cong)
  then show ?thesis unfolding idsOf_finished by blast
qed

lemma transactionGroup_finished: "finished ws ident \<Longrightarrow> transactionGroup (finishedRecords ws) ident = transactionGroup ws ident"
  by (auto simp: transactionGroup_def finishedRecords_def intro: filter_cong)

lemma insertFromRight_cong: "(\<And>y. y \<in> set ys \<Longrightarrow> lt x y = lt' x y) \<Longrightarrow> insertFromRight lt x ys = insertFromRight lt' x ys"
  by (induction ys) auto

lemma sort_Slice_cong:
  assumes "\<And>x y. x \<in> set xs \<Longrightarrow> y \<in> set xs \<Longrightarrow> lt x y = lt' x y"
  shows "sort_Slice lt xs = sort_Slice lt' xs"
proof -
  have "foldl (\<lambda>sorted x. insertFromRight lt x sorted) ys zs = foldl (\<lambda>sorted x. insertFromRight lt' x sorted) ys zs"
    if "set ys \<subseteq> set xs" "set zs \<subseteq> set xs" for ys zs
    using that
  proof (induction zs arbitrary: ys)
    case (Cons z zs)
    have "insertFromRight lt z ys = insertFromRight lt' z ys" using Cons.prems assms by (intro insertFromRight_cong) auto
    then show ?case using Cons.IH [of "insertFromRight lt' z ys"] Cons.prems by simp
  qed simp
  then show ?thesis by (simp add: sort_Slice_def)
qed

lemma activeCommits_set: "ident \<in> set (activeCommits ws) \<Longrightarrow> finished ws ident"
  by (auto simp: activeCommits_def finished_def)

lemma activeCommits_finished: "activeCommits (finishedRecords ws) = activeCommits ws"
proof -
  have "groupGeneration (finishedRecords ws) ident = groupGeneration ws ident" if "finished ws ident" for ident
    by (simp add: groupGeneration_def transactionGroup_finished [OF that])
  then show ?thesis
    unfolding activeCommits_def active_finished by (intro sort_Slice_cong) (auto simp: finished_def)
qed

lemma forD_cong: "(\<And>b. b \<in> set bs \<Longrightarrow> f b = g b) \<Longrightarrow> forD bs f x = forD bs g x"
proof (induction bs arbitrary: x)
  case (Cons b bs)
  have "f b = g b" using Cons.prems by simp
  moreover have "forD bs f = forD bs g" using Cons.IH Cons.prems by (intro ext) simp
  ultimately show ?case by simp
qed simp

lemma DatabaseState_Copy_same: "DatabaseState_Copy s (Generation s) = s"
proof -
  have "TableState_Copy t = t" for t by (simp add: TableState_Copy_def)
  then show ?thesis by (simp add: DatabaseState_Copy_def)
qed

lemma recover_finished: "recover env s ws db = recover env s (finishedRecords ws) db"
proof -
  have loop: "forD (activeCommits ws) (\<lambda>ident. replayGroup env (transactionGroup ws ident)) x
      = forD (activeCommits (finishedRecords ws)) (\<lambda>ident. replayGroup env (transactionGroup (finishedRecords ws) ident)) x" for x
    unfolding activeCommits_finished by (intro forD_cong) (simp add: activeCommits_set transactionGroup_finished)
  show ?thesis
  proof (cases "finishedRecords ws = []")
    case True
    then have "activeCommits ws = []" using activeCommits_finished [of ws] by (simp add: activeCommits_def idsOf_def sort_Slice_def)
    then show ?thesis using True by (simp add: recover_def DatabaseState_Copy_same)
  next
    case False
    then have "ws \<noteq> []" by (auto simp: finishedRecords_def)
    then show ?thesis using False loop by (simp add: recover_def)
  qed
qed

section \<open>Snapshots\<close>

definition tableBytes :: "TableState \<times> bytes list \<Rightarrow> bytes" where
  "tableBytes entry = tableHeaderBytes (fst entry) @ recordsBytes (snd entry)"

definition bodyBytes :: "64 word \<Rightarrow> (TableState \<times> bytes list) list \<Rightarrow> bytes" where
  "bodyBytes g entries = PutUint32 SnapshotMagic @ PutUint64 g @ PutUint32 (of_nat (length entries)) @ concat (map tableBytes entries)"

definition dataOf :: "TableState \<times> bytes list \<Rightarrow> tableSnapshotData" where
  "dataOf entry = \<lparr>sd_tableName = TableName (fst entry), sd_idType = IdType (fst entry), sd_entityType = EntityType (fst entry),
     sd_indexMetas = IndexMetadataList (fst entry), sd_records = snd entry\<rparr>"

text \<open>What a snapshot can hold: names within the reader's limit, registered types, at most 1000 indexes, and
  records of at most 64 MiB that decode.\<close>

definition snapOk :: "go_env \<Rightarrow> (string \<times> gtype) list \<Rightarrow> TableState \<times> bytes list \<Rightarrow> bool" where
  "snapOk env registry entry = (case entry of (t, recs) \<Rightarrow>
     encodableName (TableName t) \<and> encodableName (typeString (IdType t)) \<and> encodableName (typeString (EntityType t))
     \<and> getRegisteredType registry (typeString (EntityType t)) = Some (EntityType t)
     \<and> getRegisteredType registry (typeString (IdType t)) = Some (IdType t)
     \<and> length (IndexMetadataList t) \<le> 1000 \<and> list_all (\<lambda>m. encodableName (IndexName m) \<and> encodableName (FieldName m)) (IndexMetadataList t)
     \<and> int (length recs) < 2 ^ 31
     \<and> list_all (\<lambda>b. int (length b) \<le> maxSnapshotRecord \<and> (\<exists>r. Unmarshal env b (EntityType t) = Ok r)) recs)"

lemma repeatR_put:
  "(\<And>x r. x \<in> set xs \<Longrightarrow> get (put x @ r) = Ok (f x, r)) \<Longrightarrow>
   repeatR (length xs) get (concat (map put xs) @ r) = Ok (map f xs, r)"
  by (induction xs) simp_all

lemma readIndexMeta_put:
  assumes "encodableName (IndexName m)" "encodableName (FieldName m)"
  shows "readIndexMeta (indexMetaBytes m @ r) = Ok (m, r)"
  using assms bool_codec.get_put [of "Unique m" "boolByte (Ordered m) @ r"] bool_codec.get_put [of "Ordered m" r]
  by (simp add: readIndexMeta_def indexMetaBytes_def readString_writeString encodableName_def boolByte_def)

lemma readSnapshotRecord_put:
  assumes "int (length b) \<le> maxSnapshotRecord" "Unmarshal env b t = Ok v"
  shows "readSnapshotRecord env t ((PutUint32 (of_nat (length b)) @ b) @ r) = Ok (b, r)"
proof -
  have n: "sint (of_nat (length b) :: 32 word) = int (length b)" using assms(1) by (intro sint_of_nat32) (simp add: maxSnapshotRecord_def)
  show ?thesis using assms n int32_codec.get_put [of "of_nat (length b)" "b @ r"] by (simp add: readSnapshotRecord_def)
qed

lemma readSnapshotTable_put:
  assumes "snapOk env registry entry"
  shows "readSnapshotTable env registry (tableBytes entry @ r) = Ok (dataOf entry, r)"
proof -
  obtain t recs where e: "entry = (t, recs)" by (cases entry)
  note a = assms [unfolded e snapOk_def prod.case]
  let ?ms = "IndexMetadataList t"
  have n: "sint (of_nat (length ?ms) :: 32 word) = int (length ?ms)" "sint (of_nat (length recs) :: 32 word) = int (length recs)"
    using a by (intro sint_of_nat32; simp)+
  have metas: "repeatR (length ?ms) readIndexMeta (concat (map indexMetaBytes ?ms) @ r') = Ok (?ms, r')" for r'
    using repeatR_put [of ?ms readIndexMeta indexMetaBytes "\<lambda>m. m" r'] a by (auto simp: list_all_iff readIndexMeta_put)
  have records: "repeatR (length recs) (readSnapshotRecord env (EntityType t)) (concat (map (\<lambda>b. PutUint32 (of_nat (length b)) @ b) recs) @ r) = Ok (recs, r)"
  proof -
    have "readSnapshotRecord env (EntityType t) ((PutUint32 (of_nat (length b)) @ b) @ r) = Ok (b, r)" if "b \<in> set recs" for b r
    proof -
      obtain v where "int (length b) \<le> maxSnapshotRecord" "Unmarshal env b (EntityType t) = Ok v" using a \<open>b \<in> set recs\<close> by (auto simp: list_all_iff)
      then show ?thesis by (rule readSnapshotRecord_put)
    qed
    from repeatR_put [of recs _ "\<lambda>b. PutUint32 (of_nat (length b)) @ b" "\<lambda>b. b", OF this] show ?thesis by simp
  qed
  show ?thesis
    using a n metas records
    by (simp add: readSnapshotTable_def tableBytes_def tableHeaderBytes_def recordsBytes_def e readString_writeString encodableName_def
        int32_codec.get_put dataOf_def)
qed

lemma parseSnapshot_seal:
  assumes "list_all (snapOk env registry) entries" "length entries \<le> 10000"
  shows "parseSnapshot env registry (sealSnapshot (bodyBytes g entries)) = Ok (g, map dataOf entries)"
proof -
  let ?b = "bodyBytes g entries"
  have n: "sint (of_nat (length entries) :: 32 word) = int (length entries)" using assms(2) by (intro sint_of_nat32) simp
  have parts: "length (sealSnapshot ?b) - 8 = length ?b" "take (length ?b) (sealSnapshot ?b) = ?b"
    "drop (length ?b) (sealSnapshot ?b) = PutUint64 (ucast (crc32c ?b))" "\<not> length (sealSnapshot ?b) < 20"
    by (simp_all add: sealSnapshot_def bodyBytes_def)
  have tables: "repeatR (length entries) (readSnapshotTable env registry) (concat (map tableBytes entries)) = Ok (map dataOf entries, [])"
    using repeatR_put [of entries "readSnapshotTable env registry" tableBytes dataOf "[]"] assms(1)
    by (auto simp: list_all_iff readSnapshotTable_put)
  have body: "readInt32 ?b = Ok (SnapshotMagic, PutUint64 g @ PutUint32 (of_nat (length entries)) @ concat (map tableBytes entries))"
    by (simp add: bodyBytes_def int32_codec.get_put)
  show ?thesis
    using n tables assms(2)
    by (simp add: parseSnapshot_def parts Let_def body int32_codec.get_put int64_codec.get_put int64_codec.get_put_all)
qed

text \<open>What \<open>snapshotBody\<close> writes is such a body.\<close>

lemma snapshotBody_bytes:
  assumes "snapshotBody env state db = (Ok body, db')"
  shows "\<exists>recs. length recs = length (Tables state) \<and> body = bodyBytes (Generation state) (zip (map snd (Tables state)) recs)"
proof -
  have loop: "\<exists>recs. length recs = length ts \<and> body = start @ concat (map tableBytes (zip ts recs))"
    if "forD ts (\<lambda>t b. bindD (snapshotTable env t) (\<lambda>x. returnD (b @ x))) start db = (Ok body, db')" for ts start db
    using that
  proof (induction ts arbitrary: start db)
    case (Cons t ts)
    obtain y db1 where y: "bindD (snapshotTable env t) (\<lambda>x. returnD (start @ x)) db = (Ok y, db1)"
      and rest': "forD ts (\<lambda>t b. bindD (snapshotTable env t) (\<lambda>x. returnD (b @ x))) y db1 = (Ok body, db')"
      using bindD_Ok [OF Cons.prems [unfolded forD.simps]] by (elim exE conjE) (rule that)
    obtain x where one: "snapshotTable env t db = (Ok x, db1)" and yx: "y = start @ x" using y by (auto dest!: bindD_Ok)
    note rest = rest' [unfolded yx]
    obtain recs where "x = tableBytes (t, recs)"
      using one by (auto simp: snapshotTable_def tableBytes_def dest!: bindD_Ok)
    moreover obtain recss where "length recss = length ts" "body = (start @ x) @ concat (map tableBytes (zip ts recss))"
      using Cons.IH [OF rest] by blast
    ultimately show ?case by (intro exI [of _ "recs # recss"]) simp
  qed simp
  obtain recs where "length recs = length (map snd (Tables state))"
    "body = (PutUint32 SnapshotMagic @ PutUint64 (Generation state) @ PutUint32 (of_nat (length (Tables state)))) @ concat (map tableBytes (zip (map snd (Tables state)) recs))"
    using loop [OF assms [unfolded snapshotBody_def]] by blast
  then show ?thesis by (intro exI [of _ recs]) (simp add: bodyBytes_def)
qed

section \<open>A log that cannot be replayed\<close>

text \<open>The records of a task in the log, with its commit marker.\<close>

definition logOf :: "WriteTask \<Rightarrow> WalRecord list" where
  "logOf task = taskMutations task @ [marker OpCommitTransaction task]"

text \<open>The task that registers a table without indexes.\<close>

definition createTask :: "64 word \<Rightarrow> 64 word \<Rightarrow> string \<Rightarrow> string \<Rightarrow> string \<Rightarrow> WriteTask" where
  "createTask ident g n idName entityName = \<lparr>TxID = ident, wt_Generation = g,
     WalRecords = [\<lparr>wr_Type = OpCreateTable, wr_TransactionID = ident, wr_Generation = g,
       wr_Payload = writeString n @ writeString idName @ writeString entityName\<rparr>], TableAppends = []\<rparr>"

lemma replay_clear:
  assumes "shadowIndexes db n = None" "indexFiles db n = None" "encodableName n"
  shows "replayGroup env (logOf (clearTask ident g n)) rc db = (Err fileNotFound, db)"
proof -
  have "readString (writeString n) = Ok (n, [])" using readString_writeString [of n "[]"] assms(3) by (simp add: encodableName_def)
  moreover have "shadowClear env n db = (Err fileNotFound, db)" using assms(1,2) by (simp add: shadowClear_def)
  ultimately show ?thesis
    by (simp add: replayGroup_def logOf_def taskMutations_def clearTask_def marker_def replayOne_def replayClear_def Let_def)
qed

lemma replay_create:
  assumes "getRegisteredType (typeRegistry db) e = Some t" "encodableName n" "encodableName i" "encodableName e"
  shows "\<exists>rc'. replayGroup env (logOf (createTask ident g n i e)) rc db = (Ok rc', db)"
proof -
  have "readString (writeString n @ r) = Ok (n, r)" "readString (writeString i @ r) = Ok (i, r)" "readString (writeString e) = Ok (e, [])" for r
    using readString_writeString readString_writeString [of e "[]"] assms(2-4) by (simp_all add: encodableName_def)
  then show ?thesis
    using assms(1)
    by (simp add: replayGroup_def logOf_def taskMutations_def createTask_def marker_def replayOne_def replayCreateTable_def Let_def)
qed

lemma recover_clear:
  assumes idx: "shadowIndexes db n = None" "indexFiles db n = None" and reg: "getRegisteredType (typeRegistry db) e = Some t"
    and names: "encodableName n" "encodableName i" "encodableName e" and ids: "ident0 \<noteq> ident"
  shows "recover env s (logOf (createTask ident0 g0 n i e) @ logOf (clearTask ident g n)) db = (Err fileNotFound, db)"
proof -
  let ?c = "createTask ident0 g0 n i e" and ?d = "clearTask ident g n"
  let ?ws = "logOf ?c @ logOf ?d"
  let ?lt = "\<lambda>left right. groupGeneration ?ws left < groupGeneration ?ws right"
  have gr: "transactionGroup ?ws ident0 = logOf ?c" "transactionGroup ?ws ident = logOf ?d"
    using ids by (simp_all add: transactionGroup_def logOf_def taskMutations_def createTask_def clearTask_def marker_def)
  have "activeCommits ?ws = sort_Slice ?lt [ident0, ident]"
    by (simp add: activeCommits_def idsOf_def logOf_def taskMutations_def createTask_def clearTask_def marker_def)
  then have ac: "activeCommits ?ws = [ident0, ident] \<or> activeCommits ?ws = [ident, ident0]" by (simp add: sort_Slice_def)
  have "forD (activeCommits ?ws) (\<lambda>x. replayGroup env (transactionGroup ?ws x)) rc db = (Err fileNotFound, db)" for rc
    using ac
  proof
    assume a: "activeCommits ?ws = [ident0, ident]"
    obtain rc' where "replayGroup env (logOf ?c) rc db = (Ok rc', db)" using replay_create [OF reg names] by blast
    then show ?thesis unfolding a using replay_clear [OF idx names(1)] by (simp add: gr)
  next
    assume a: "activeCommits ?ws = [ident, ident0]"
    show ?thesis unfolding a using replay_clear [OF idx names(1)] by (simp add: gr)
  qed
  moreover have "?ws \<noteq> []" by (simp add: logOf_def taskMutations_def)
  ultimately show ?thesis by (simp add: recover_def)
qed

section \<open>Examples\<close>

definition untouchedDb :: Database where
  "untouchedDb = usersDb\<lparr>shadowIndexes := Map.empty, walManager := \<lparr>wal_file = OpenFile,
     wal_disk = walBytes (logOf (createTask 5 1 ''users'' ''string'' ''main.User'')),
     wal_pos = length (walBytes (logOf (createTask 5 1 ''users'' ''string'' ''main.User''))), durability = DurabilitySync\<rparr>\<rparr>"

text \<open>A stored record without fields.\<close>

definition emptyRecord :: bytes where
  "emptyRecord = [0, 0, 0, 0]"

section \<open>Properties\<close>

text \<open>C5: recovery depends only on the records of finished transactions: removing all records of transactions that
  have no commit marker, or a rollback marker, changes neither the result nor the database that is rebuilt.\<close>

theorem recovery_ignores_unfinished:
  "recover env s ws db = recover env s (filter (\<lambda>r. finished ws (wr_TransactionID r)) ws) db"
  using recover_finished unfolding finishedRecords_def .

text \<open>C19: a sealed snapshot body (the bytes that snapshotBody writes, by the lemma snapshotBody_bytes) passes all checks of the
  reader and gives back the generation and, for each table, its name, types, indexes and records.\<close>

theorem snapshot_roundtrip:
  assumes "list_all (snapOk env registry) entries" "length entries \<le> 10000"
  shows "parseSnapshot env registry (sealSnapshot (bodyBytes g entries)) = Ok (g, map dataOf entries)"
  using parseSnapshot_seal [OF assms] .

theorem snapshot_roundtrip_witness:
  "parseSnapshot exampleEnv (typeRegistry usersDb)
      (sealSnapshot (bodyBytes 1 [(NewTableState ''users'' TString (tb_Type users) [nameIndex], [emptyRecord])]))
    = Ok (1, [dataOf (NewTableState ''users'' TString (tb_Type users) [nameIndex], [emptyRecord])])"
proof -
  have "case Unmarshal exampleEnv emptyRecord (tb_Type users) of Ok v \<Rightarrow> True | _ \<Rightarrow> False" "length emptyRecord = 4" by code_simp+
  then have "snapOk exampleEnv (typeRegistry usersDb) (NewTableState ''users'' TString (tb_Type users) [nameIndex], [emptyRecord])"
    by (auto simp: snapOk_def NewTableState_def usersDb_def users_def getRegisteredType_def encodableName_def maxStringLength_def nameIndex_def
        maxSnapshotRecord_def split: res.splits)
  then show ?thesis using snapshot_roundtrip [of exampleEnv "typeRegistry usersDb"] by simp
qed



end
