(* ===== verification/RecoveryRows.thy ===== *)
theory RecoveryRows
  imports RecoveryLaws
begin

text \<open>
  Committed rows survive: a log that registers a table and inserts rows is replayed to a database that
  holds these rows, on new index files. The log is the one the insertions themselves have written, so
  a backup, which copies the log and not the indexes, restores every committed row.
\<close>

section \<open>The log of a list of tasks\<close>

definition wfTask :: "WriteTask \<Rightarrow> bool" where
  "wfTask task = list_all (\<lambda>w. wr_TransactionID w = TxID task \<and> wr_Type w \<noteq> OpCommitTransaction \<and> wr_Type w \<noteq> OpRollbackTransaction)
     (WalRecords task)"

lemma logOf_fields:
  "logOf task = marker OpBeginTransaction task # WalRecords task @ [marker OpCommitTransaction task]"
  "TxID task = ident \<Longrightarrow> wr_TransactionID (marker op task) = ident" "wr_Type (marker op task) = op"
  "wr_Generation (marker op task) = wt_Generation task"
  by (simp_all add: logOf_def taskMutations_def marker_def)

lemma filter_logOf: "wfTask task \<Longrightarrow> filter (\<lambda>w. wr_TransactionID w = ident) (logOf task) = (if TxID task = ident then logOf task else [])"
  by (auto simp: wfTask_def list_all_iff logOf_fields(1) marker_def filter_id_conv filter_empty_conv)

lemma transactionGroup_logs:
  assumes "list_all wfTask tasks" "distinct (map TxID tasks)" "task \<in> set tasks"
  shows "transactionGroup (concat (map logOf tasks)) (TxID task) = logOf task"
  using assms
proof (induction tasks)
  case (Cons a tasks)
  have none: "transactionGroup (concat (map logOf tasks)) (TxID a) = []"
  proof -
    have "filter (\<lambda>w. wr_TransactionID w = TxID a) (logOf u) = []" if "u \<in> set tasks" for u
    proof -
      have "TxID a \<notin> TxID ` set tasks" using Cons.prems(2) by simp
      then have "TxID u \<noteq> TxID a" using that by (metis image_eqI)
      then show ?thesis using that Cons.prems(1) filter_logOf [of u "TxID a"] by (simp add: list_all_iff)
    qed
    then show ?thesis by (auto simp: transactionGroup_def filter_empty_conv)
  qed
  have a: "filter (\<lambda>w. wr_TransactionID w = TxID task) (logOf a) = (if TxID a = TxID task then logOf a else [])"
    using Cons.prems(1) by (intro filter_logOf) simp
  show ?case
  proof (cases "task = a")
    case True
    then show ?thesis using a none by (simp add: transactionGroup_def)
  next
    case False
    then have "task \<in> set tasks" "TxID a \<noteq> TxID task" using Cons.prems by auto
    then show ?thesis using a Cons by (simp add: transactionGroup_def)
  qed
qed simp

lemma idsOf_logOf: "wfTask task \<Longrightarrow> idsOf OpCommitTransaction (logOf task) = [TxID task] \<and> idsOf OpRollbackTransaction (logOf task) = []"
  by (auto simp: wfTask_def list_all_iff idsOf_def logOf_fields(1) marker_def filter_empty_conv)

lemma idsOf_append: "idsOf op (xs @ ys) = idsOf op xs @ idsOf op ys"
  by (simp add: idsOf_def)

lemma idsOf_logs:
  "list_all wfTask tasks \<Longrightarrow> idsOf OpCommitTransaction (concat (map logOf tasks)) = map TxID tasks
     \<and> idsOf OpRollbackTransaction (concat (map logOf tasks)) = []"
  by (induction tasks) (simp_all add: idsOf_append idsOf_logOf, simp add: idsOf_def)

lemma foldl_insertFromRight_sorted:
  "sorted_wrt (\<lambda>a b. \<not> lt b a) (rev ys @ xs) \<Longrightarrow> foldl (\<lambda>sorted x. insertFromRight lt x sorted) ys xs = rev xs @ ys"
proof (induction xs arbitrary: ys)
  case (Cons x xs)
  have "insertFromRight lt x ys = x # ys" using Cons.prems by (cases ys) (auto simp: sorted_wrt_append)
  then show ?case using Cons.IH [of "x # ys"] Cons.prems by simp
qed simp

lemma sort_Slice_id: "sorted_wrt (\<lambda>a b. \<not> lt b a) xs \<Longrightarrow> sort_Slice lt xs = xs"
  using foldl_insertFromRight_sorted [of lt "[]" xs] by (simp add: sort_Slice_def)

lemma forD_map: "forD (map f xs) g x = forD xs (\<lambda>y. g (f y)) x"
proof (induction xs arbitrary: x)
  case (Cons a xs)
  have "forD (map f xs) g = forD xs (\<lambda>y. g (f y))" by (rule ext) (rule Cons.IH)
  then show ?case by simp
qed simp

text \<open>Recovery replays the tasks of such a log in their order.\<close>

lemma recover_tasks:
  assumes wf: "list_all wfTask tasks" "distinct (map TxID tasks)" "tasks \<noteq> []"
    and sorted: "sorted_wrt (\<lambda>a b. sint (wt_Generation a) \<le> sint (wt_Generation b)) tasks"
  shows "recover env s (concat (map logOf tasks))
    = bindD (forD tasks (\<lambda>task. replayGroup env (logOf task))
        \<lparr>rc_state = s, rc_generation = Generation s, rc_cleared = map fst (Tables s), rc_modified = [], rc_transGen = 0\<rparr>)
      (\<lambda>rc. returnD (DatabaseState_Copy (rc_state rc) (rc_generation rc)))"
proof -
  let ?ws = "concat (map logOf tasks)"
  note gr = transactionGroup_logs [OF wf(1,2)]
  have gen: "groupGeneration ?ws (TxID t) = sint (wt_Generation t)" if "t \<in> set tasks" for t
    using gr [OF that] by (simp add: groupGeneration_def logOf_fields)
  have "activeCommits ?ws = map TxID tasks"
  proof -
    have "sorted_wrt (\<lambda>a b. \<not> groupGeneration ?ws (TxID b) < groupGeneration ?ws (TxID a)) tasks"
      using sorted by (rule sorted_wrt_mono_rel [rotated]) (simp add: gen)
    then have "sorted_wrt (\<lambda>a b. \<not> groupGeneration ?ws b < groupGeneration ?ws a) (map TxID tasks)" by (simp add: sorted_wrt_map)
    from sort_Slice_id [OF this] show ?thesis using idsOf_logs [OF wf(1)] by (simp add: activeCommits_def)
  qed
  moreover have "?ws \<noteq> []" using wf(3) by (cases tasks) (simp_all add: logOf_fields)
  moreover have "forD tasks (\<lambda>y. replayGroup env (transactionGroup ?ws (TxID y))) x = forD tasks (\<lambda>task. replayGroup env (logOf task)) x" for x
    by (intro forD_cong) (simp add: gr)
  ultimately show ?thesis by (simp only: recover_def forD_map DatabaseState_Copy_same if_False)
qed

section \<open>Replaying one insertion\<close>

definition insertTask :: "64 word \<Rightarrow> 64 word \<Rightarrow> string \<Rightarrow> string \<Rightarrow> bytes \<Rightarrow> WriteTask" where
  "insertTask ident g n e b = \<lparr>TxID = ident, wt_Generation = g,
     WalRecords = [\<lparr>wr_Type = OpInsert, wr_TransactionID = ident, wr_Generation = g, wr_Payload = recordPayload n e b\<rparr>],
     TableAppends = [(n, [b])]\<rparr>"

lemma wf_tasks: "wfTask (insertTask ident g n e b)" "wfTask (createTask ident g n i e)"
  by (simp_all add: wfTask_def insertTask_def createTask_def)

lemma readRecordPayload_write:
  assumes "encodableName n" "encodableName e" "int (length b) \<le> maxRecordSize"
  shows "readRecordPayload (recordPayload n e b) = Ok (n, e, b)"
proof -
  have "readString (writeString n @ r) = Ok (n, r)" "readString (writeString e @ r) = Ok (e, r)" for r
    using readString_writeString assms(1,2) by (simp_all add: encodableName_def)
  moreover have "sint (of_nat (length b) :: 32 word) = int (length b)"
    using assms(3) by (intro sint_of_nat32) (simp add: maxRecordSize_def)
  ultimately show ?thesis
    by (simp add: readRecordPayload_def recordPayload_def readFull_def)
qed

lemma AppendRecord_one: "storage_ok ts \<Longrightarrow> AppendRecords [b] WOk ts = (Ok [p], ts') \<Longrightarrow> AppendRecord b WOk ts = (Ok p, ts')"
  by (auto simp: AppendRecord_def AppendRecords_def storage_ok_def file_WriteAt_def Let_def split: if_splits)

lemma appendRecord_run:
  assumes "\<not> db_closed db" "tableStorageMap db n = Some ts" "de_append env n = WOk" "storage_ok ts"
    and "int (length b) \<le> maxRecordSize" "sint (currentSize ts) + maxRecordSize < 2 ^ 63"
  shows "\<exists>p ts'. appendRecord env n b db = (Ok p, db\<lparr>tableStorageMap := (tableStorageMap db)(n \<mapsto> ts')\<rparr>)
    \<and> storage_ok ts' \<and> stored ts' p b \<and> (\<forall>q c. stored ts q c \<longrightarrow> stored ts' q c) \<and> sint (currentSize ts') \<le> sint (currentSize ts) + maxRecordSize"
proof -
  obtain p ts' where a: "AppendRecords [b] WOk ts = (Ok [p], ts')" "storage_ok ts'" "stored ts' p b"
    "\<forall>q c. stored ts q c \<longrightarrow> stored ts' q c" "sint (currentSize ts') \<le> sint (currentSize ts) + maxRecordSize"
    using AppendRecords_one [OF assms(4-6)] by blast
  have "appendRecord env n b db = (Ok p, db\<lparr>tableStorageMap := (tableStorageMap db)(n \<mapsto> ts')\<rparr>)"
    using tableStorage_run [OF assms(1,2)] AppendRecord_one [OF assms(4) a(1)] assms(3) by (simp add: appendRecord_def putStorage_def)
  then show ?thesis using a(2-5) by blast
qed

text \<open>What \<open>replayRecord\<close> does for an insert once the table file is open and empty of old records.\<close>

definition replayTail :: "db_env \<Rightarrow> string \<Rightarrow> gtype \<Rightarrow> gval \<Rightarrow> bytes \<Rightarrow> 64 word \<Rightarrow> recovery \<Rightarrow> recovery db_op" where
  "replayTail env n e r b g rc =
     bindD (replayOldRecord env n e (getPrimaryKey r)) (\<lambda>old.
       bindD (appendRecord env n b) (\<lambda>p.
         bindD (shadowInsertNoCommit env n r p g) (\<lambda>_. returnD (rc\<lparr>rc_modified := List.insert n (rc_modified rc)\<rparr>))))"

lemma replayOldRecord_run:
  assumes h: "holdsAt env K L keys n table state R t ts M (db\<lparr>committedState := state\<rparr>)" and k: "k \<in> keys"
  shows "\<exists>old t'. replayOldRecord env (tb_name table) (tb_Type table) k db = (Ok old, db\<lparr>shadowIndexes := (shadowIndexes db)(tb_name table \<mapsto> t')\<rparr>)
    \<and> holdsAt env K L keys n table state R t' ts M (db\<lparr>shadowIndexes := (shadowIndexes db)(tb_name table \<mapsto> t'), committedState := state\<rparr>)"
proof -
  note p = holdsAtD [OF h]
  have kb: "serializeKey k = Ok (keyBytes k)" "keyBytes k \<in> K" using p(3) k by (auto simp: keySpace_def)
  let ?p = "M ''primary'' (keyBytes k)"
  obtain t' where t': "FindNamed (fmtOf env) (de_fuel env) ''primary'' (keyBytes k) t = (Ok ?p, t')"
    "tree_keys.indexes (fmtOf env) K L n (de_fuel env) t' M" "sameView t t'"
    using tree_keys.FindNamed_same [OF p(1,12) kb(2)] by blast
  let ?db = "db\<lparr>shadowIndexes := (shadowIndexes db)(tb_name table \<mapsto> t')\<rparr>"
  have f: "findPrimary env (tb_name table) k db = (Ok ?p, ?db)"
    using kb(1) t'(1) p(11) by (simp add: findPrimary_def getShadowNamedIndex_run onTree_run NamedIndex_Find_def)
  have "\<exists>old. replayOldRecord env (tb_name table) (tb_Type table) k db = (Ok old, ?db)"
  proof (cases ?p)
    case (Some q)
    then obtain r where "rowAt env table ts (Some q) (Some r)" using p(17) [OF k] by (cases "R k") (auto simp: rowAt_def)
    then have "readRecordAs env (tb_name table) (tb_Type table) q ?db = (Ok r, ?db)"
      using tableStorage_run [of ?db "tb_name table" ts env] p(4,7,14) by (auto simp: rowAt_def readRecordAs_def stored_ReadRecord quietEnv_def)
    then show ?thesis using f Some by (simp add: replayOldRecord_def)
  qed (use f in \<open>simp add: replayOldRecord_def\<close>)
  moreover have "holdsAt env K L keys n table state R t' ts M (?db\<lparr>committedState := state\<rparr>)"
    using h t'(2) savedTree_sameView [OF t'(3) p(13)] by (simp add: holdsAt_def)
  ultimately show ?thesis by auto
qed

lemma replayTail_run:
  assumes h: "holdsAt env K L keys (Suc (Suc n)) table state R t ts M (db\<lparr>committedState := state\<rparr>)"
    and r: "rowOk table keys r" "Marshal r = Ok b" and app: "de_append env (tb_name table) = WOk"
    and g: "unat (Generation state) < unat g" "unat g + n + 1 < 2 ^ 64"
  shows "\<exists>db1 db2. replayTail env (tb_name table) (tb_Type table) r b g rc db
      = (Ok (rc\<lparr>rc_modified := List.insert (tb_name table) (rc_modified rc)\<rparr>), db1)
    \<and> shadowCommit env (tb_name table) g db1 = (Ok (), db2) \<and> typeRegistry db2 = typeRegistry db
    \<and> holdsRows env K L keys n table (state\<lparr>Generation := g\<rparr>) (R(getPrimaryKey r \<mapsto> r)) (db2\<lparr>committedState := state\<lparr>Generation := g\<rparr>\<rparr>)"
proof -
  let ?n = "tb_name table" and ?k = "keyBytes (getPrimaryKey r)"
  obtain old t' where old: "replayOldRecord env ?n (tb_Type table) (getPrimaryKey r) db = (Ok old, db\<lparr>shadowIndexes := (shadowIndexes db)(?n \<mapsto> t')\<rparr>)"
    "holdsAt env K L keys (Suc (Suc n)) table state R t' ts M (db\<lparr>shadowIndexes := (shadowIndexes db)(?n \<mapsto> t'), committedState := state\<rparr>)"
    using replayOldRecord_run [OF h rowOk_key(2) [OF r(1)]] by blast
  note p = holdsAtD [OF old(2)]
  let ?db = "db\<lparr>shadowIndexes := (shadowIndexes db)(?n \<mapsto> t')\<rparr>"
  have "wf_env (de_go env)" using p(4) by (simp add: quietEnv_def)
  then have b: "int (length b) \<le> maxRecordSize" using rowOk_bytes [OF r(1)] r(2) by auto
  have "sint (currentSize ts) + maxRecordSize < 2 ^ 63" using p(16) by (simp add: algebra_simps maxRecordSize_def)
  then obtain ptr ts' where a: "appendRecord env ?n b ?db = (Ok ptr, ?db\<lparr>tableStorageMap := (tableStorageMap db)(?n \<mapsto> ts')\<rparr>)"
    "storage_ok ts'" "stored ts' ptr b" "\<forall>q c. stored ts q c \<longrightarrow> stored ts' q c" "sint (currentSize ts') \<le> sint (currentSize ts) + maxRecordSize"
    using appendRecord_run [of ?db ?n ts env b] p(7,14,15) app b by auto
  let ?db1 = "?db\<lparr>tableStorageMap := (tableStorageMap db)(?n \<mapsto> ts')\<rparr>"
  have "unat (Generation state + 1) = unat (Generation state) + 1" using p(10) by (simp add: unat_word_ariths)
  then have g1: "Generation state + 1 \<le> g" using g(1) by (simp add: word_le_nat_alt)
  obtain t1 t2 where e: "shadowInsertNoCommit env ?n r ptr g ?db1 = (Ok (), ?db1\<lparr>shadowIndexes := (shadowIndexes ?db1)(?n \<mapsto> t1)\<rparr>)"
    "shadowCommit env ?n g (?db1\<lparr>shadowIndexes := (shadowIndexes ?db1)(?n \<mapsto> t1)\<rparr>) = (Ok (), ?db1\<lparr>shadowIndexes := (shadowIndexes ?db1)(?n \<mapsto> t2)\<rparr>)"
    "\<And>db'. readyTable table (state\<lparr>Generation := g\<rparr>) t2 ts' db' \<Longrightarrow> holdsRows env K L keys n table (state\<lparr>Generation := g\<rparr>) (R(getPrimaryKey r \<mapsto> r)) db'"
    using enter_row [OF old(2) r a(2-5) g1 g(2), of ?db1] by auto
  have "replayTail env ?n (tb_Type table) r b g rc db
      = (Ok (rc\<lparr>rc_modified := List.insert ?n (rc_modified rc)\<rparr>), ?db1\<lparr>shadowIndexes := (shadowIndexes ?db1)(?n \<mapsto> t1)\<rparr>)"
    using old(1) a(1) e(1) by (simp add: replayTail_def)
  moreover have "holdsRows env K L keys n table (state\<lparr>Generation := g\<rparr>) (R(getPrimaryKey r \<mapsto> r))
      (?db1\<lparr>shadowIndexes := (shadowIndexes ?db1)(?n \<mapsto> t2), committedState := state\<lparr>Generation := g\<rparr>\<rparr>)"
    using p(5,7-9) by (intro e(3)) (simp add: readyTable_def plainTable_def tableStateOf_def)
  ultimately show ?thesis using e(2) by auto
qed

lemma bindD_returnD: "bindD (returnD x) f = f x"
  by (rule ext) simp

lemma replayRecord_tail:
  assumes "encodableName n" "encodableName e" "int (length b) \<le> maxRecordSize"
    and "getRegisteredType (typeRegistry db) e = Some t" "Unmarshal (de_go env) b t = Ok r" "tableStateOf (rc_state rc) n \<noteq> None"
  shows "replayRecord env OpInsert (recordPayload n e b) rc db
    = bindD (tableStorage env n) (\<lambda>_. bindD (resetOnce env n rc) (replayTail env n t r b (rc_transGen rc))) db"
proof -
  have c: "(case old of None \<Rightarrow> returnD () | Some x \<Rightarrow> if OpInsert = OpInsert then returnD () else d x) = returnD ()"
    for old :: "gval option" and d by (cases old) simp_all
  obtain y where "tableStateOf (rc_state rc) n = Some y" using assms(6) by auto
  then show ?thesis
    using readRecordPayload_write [OF assms(1-3)] assms(4,5) by (simp add: replayRecord_def replayTail_def [abs_def] Let_def c bindD_returnD)
qed

text \<open>The state a recovery has reached, and that the files hold the rows of the table.\<close>

definition stateOf :: "recovery \<Rightarrow> DatabaseState" where
  "stateOf rc = (rc_state rc)\<lparr>Generation := rc_generation rc\<rparr>"

definition rebuilt ::
  "db_env \<Rightarrow> bytes set \<Rightarrow> nat \<Rightarrow> gval set \<Rightarrow> nat \<Rightarrow> Table \<Rightarrow> (gval \<rightharpoonup> gval) \<Rightarrow> recovery \<Rightarrow> Database \<Rightarrow> bool"
where
  "rebuilt env K L keys n table R rc db =
     (holdsRows env K L keys n table (stateOf rc) R (db\<lparr>committedState := stateOf rc\<rparr>) \<and> tb_name table \<in> set (rc_cleared rc)
      \<and> getRegisteredType (typeRegistry db) (typeString (tb_Type table)) = Some (tb_Type table))"

text \<open>Opening, emptying and appending without errors of the operating system.\<close>

definition quietReplay :: "db_env \<Rightarrow> string \<Rightarrow> bool" where
  "quietReplay env n = (de_append env n = WOk \<and> de_reset env n = \<lparr>ri_truncate = None, ri_seek = None, ri_sync = None\<rparr>
     \<and> de_tableOpen env n = \<lparr>oi_mkdir = None, oi_open = None, oi_stat = None\<rparr>
     \<and> de_indexOpen env n = None \<and> de_indexStat env n = None \<and> de_indexIo env n = [])"

text \<open>Tables whose names and types can be written into the log and found again.\<close>

definition namedTable :: "Table \<Rightarrow> bool" where
  "namedTable table = (isValidTableName (tb_name table) \<and> encodableName (tb_name table) \<and> encodableName (typeString (tb_Type table)))"

lemma sint_small: "unat (w :: 64 word) < 2 ^ 63 \<Longrightarrow> sint w = int (unat w)"
proof -
  assume w: "unat w < 2 ^ 63"
  have "sint (of_nat n :: 64 word) = int n" if "n < 2 ^ 63" for n using that by (simp add: signed_of_nat signed_take_bit_int_eq_self)
  from this [OF w] show ?thesis by simp
qed

abbreviation rowTask :: "Table \<Rightarrow> 64 word \<Rightarrow> 64 word \<Rightarrow> bytes \<Rightarrow> WriteTask" where
  "rowTask table ident g b \<equiv> insertTask ident g (tb_name table) (typeString (tb_Type table)) b"

abbreviation entered :: "64 word \<Rightarrow> recovery \<Rightarrow> recovery" where
  "entered g rc \<equiv> rc\<lparr>rc_modified := [], rc_generation := g, rc_transGen := g\<rparr>"

lemma replayGroup_row:
  assumes t: "namedTable table" "getRegisteredType (typeRegistry db) (typeString (tb_Type table)) = Some (tb_Type table)"
      "tableStateOf (rc_state rc) (tb_name table) \<noteq> None"
    and b: "int (length b) \<le> maxRecordSize" "Unmarshal (de_go env) b (tb_Type table) = Ok r"
    and g: "unat (rc_generation rc) < unat g" "unat g < 2 ^ 63"
    and run: "bindD (tableStorage env (tb_name table)) (\<lambda>_. bindD (resetOnce env (tb_name table) (entered g rc))
        (replayTail env (tb_name table) (tb_Type table) r b g)) db = (Ok (rc2\<lparr>rc_modified := [tb_name table]\<rparr>), db1)"
      "shadowCommit env (tb_name table) g db1 = (Ok (), db2)" "rc_generation rc2 = g" "rc_transGen rc2 = g"
  shows "replayGroup env (logOf (rowTask table ident g b)) rc db = (Ok (rc2\<lparr>rc_modified := [tb_name table]\<rparr>), db2)"
proof -
  have names: "encodableName (tb_name table)" "encodableName (typeString (tb_Type table))" using t(1) by (simp_all add: namedTable_def)
  have gt: "sint (rc_generation rc) < sint g" 
    using g(1) sint_small [OF g(2)] sint_small [OF order.strict_trans [OF g]] by (simp only: of_nat_less_iff)
  let ?rc = "rc\<lparr>rc_generation := g, rc_modified := [], rc_transGen := g\<rparr>"
  have begin_run: "replayOne env (marker OpBeginTransaction (rowTask table ident g b)) (rc\<lparr>rc_modified := [], rc_transGen := 0\<rparr>) db = (Ok (entered g rc), db)"
    using gt by (simp add: replayOne_def marker_def insertTask_def)
  have "replayOne env \<lparr>wr_Type = OpInsert, wr_TransactionID = ident, wr_Generation = g,
        wr_Payload = recordPayload (tb_name table) (typeString (tb_Type table)) b\<rparr> (entered g rc) db
      = replayRecord env OpInsert (recordPayload (tb_name table) (typeString (tb_Type table)) b) (entered g rc) db"
    by (simp add: replayOne_def)
  also have "\<dots> = (Ok (rc2\<lparr>rc_modified := [tb_name table]\<rparr>), db1)"
    using replayRecord_tail [OF names b(1) t(2) b(2), of "entered g rc"] t(3) run(1) by simp
  finally have insert_run: "replayOne env \<lparr>wr_Type = OpInsert, wr_TransactionID = ident, wr_Generation = g,
        wr_Payload = recordPayload (tb_name table) (typeString (tb_Type table)) b\<rparr> (entered g rc) db
      = (Ok (rc2\<lparr>rc_modified := [tb_name table]\<rparr>), db1)" .
  have commit_run: "replayOne env (marker OpCommitTransaction (rowTask table ident g b)) (rc2\<lparr>rc_modified := [tb_name table]\<rparr>) db1
      = (Ok (rc2\<lparr>rc_modified := [tb_name table]\<rparr>), db1)"
    using run(3,4) by (simp add: replayOne_def marker_def insertTask_def)
  have log: "logOf (rowTask table ident g b) = [marker OpBeginTransaction (rowTask table ident g b),
      \<lparr>wr_Type = OpInsert, wr_TransactionID = ident, wr_Generation = g,
        wr_Payload = recordPayload (tb_name table) (typeString (tb_Type table)) b\<rparr>, marker OpCommitTransaction (rowTask table ident g b)]"
    by (simp add: logOf_fields insertTask_def)
  show ?thesis
    unfolding replayGroup_def log using begin_run insert_run commit_run run(2,4) by simp
qed

lemma replay_next:
  assumes h: "rebuilt env K L keys (Suc (Suc n)) table R rc db" and t: "namedTable table" "quietReplay env (tb_name table)"
    and r: "rowOk table keys r" "Marshal r = Ok b" and g: "unat (rc_generation rc) < unat g" "unat g + n + 1 < 2 ^ 63"
  shows "\<exists>rc' db'. replayGroup env (logOf (rowTask table ident g b)) rc db = (Ok rc', db')
    \<and> rebuilt env K L keys n table (R(getPrimaryKey r \<mapsto> r)) rc' db' \<and> rc_generation rc' = g"
proof -
  let ?n = "tb_name table"
  obtain t ts M where at: "holdsAt env K L keys (Suc (Suc n)) table (stateOf rc) R t ts M (db\<lparr>committedState := stateOf rc\<rparr>)"
    using h by (auto simp: rebuilt_def holdsRows_def)
  note p = holdsAtD [OF at]
  have reg: "getRegisteredType (typeRegistry db) (typeString (tb_Type table)) = Some (tb_Type table)" and cl: "?n \<in> set (rc_cleared rc)"
    using h by (simp_all add: rebuilt_def)
  have "wf_env (de_go env)" using p(4) by (simp add: quietEnv_def)
  then have b: "int (length b) \<le> maxRecordSize" "Unmarshal (de_go env) b (tb_Type table) = Ok r" using rowOk_bytes [OF r(1)] r(2) by auto
  have ts: "tableStateOf (rc_state rc) ?n \<noteq> None" using p(5) by (auto simp: plainTable_def stateOf_def tableStateOf_def split: option.splits)
  have app: "de_append env ?n = WOk" using t(2) by (simp add: quietReplay_def)
  have g': "unat (Generation (stateOf rc)) < unat g" "unat g + n + 1 < 2 ^ 64" "unat g < 2 ^ 63" using g by (simp_all add: stateOf_def)
  obtain db1 db2 where run: "replayTail env ?n (tb_Type table) r b g (entered g rc) db = (Ok ((entered g rc)\<lparr>rc_modified := [?n]\<rparr>), db1)"
    "shadowCommit env ?n g db1 = (Ok (), db2)" "typeRegistry db2 = typeRegistry db"
    "holdsRows env K L keys n table ((stateOf rc)\<lparr>Generation := g\<rparr>) (R(getPrimaryKey r \<mapsto> r)) (db2\<lparr>committedState := (stateOf rc)\<lparr>Generation := g\<rparr>\<rparr>)"
    using replayTail_run [OF at r app g'(1,2), of "entered g rc"] by auto
  have "bindD (tableStorage env ?n) (\<lambda>_. bindD (resetOnce env ?n (entered g rc)) (replayTail env ?n (tb_Type table) r b g)) db
      = (Ok ((entered g rc)\<lparr>rc_modified := [?n]\<rparr>), db1)"
    using tableStorage_run [of db ?n ts env] p(7,14) cl run(1) by (simp add: resetOnce_def)
  from replayGroup_row [OF t(1) reg ts b g(1) g'(3) this run(2), of ident]
  have "replayGroup env (logOf (rowTask table ident g b)) rc db = (Ok ((entered g rc)\<lparr>rc_modified := [?n]\<rparr>), db2)" by simp
  moreover have "stateOf ((entered g rc)\<lparr>rc_modified := [?n]\<rparr>) = (stateOf rc)\<lparr>Generation := g\<rparr>" by (simp add: stateOf_def)
  then have "rebuilt env K L keys n table (R(getPrimaryKey r \<mapsto> r)) ((entered g rc)\<lparr>rc_modified := [?n]\<rparr>) db2"
    unfolding rebuilt_def using run(3,4) reg cl by simp
  ultimately show ?thesis by (intro exI [of _ "(entered g rc)\<lparr>rc_modified := [?n]\<rparr>"] exI [of _ db2]) simp
qed

text \<open>The first insertion opens a new index file and empties the table file.\<close>

definition restorable :: "db_env \<Rightarrow> bytes set \<Rightarrow> nat \<Rightarrow> gval set \<Rightarrow> nat \<Rightarrow> Table \<Rightarrow> bool" where
  "restorable env K L keys n table =
     (tree_keys (fmtOf env) K L \<and> L \<le> fitLimit \<and> keySpace K L keys \<and> quietEnv env (tb_name table) \<and> quietReplay env (tb_name table)
      \<and> namedTable table \<and> n < de_fuel env \<and> n * (2 * de_fuel env + 4) + 4 < 2 ^ 49 \<and> int n * maxRecordSize < 2 ^ 63)"

definition untouched :: "Table \<Rightarrow> Database \<Rightarrow> bool" where
  "untouched table db = (\<not> db_closed db \<and> \<not> walClosed db \<and> wal_ok (walManager db) \<and> tableStorageMap db (tb_name table) = None
     \<and> shadowIndexes db (tb_name table) = None \<and> indexFiles db (tb_name table) = None
     \<and> getRegisteredType (typeRegistry db) (typeString (tb_Type table)) = Some (tb_Type table))"

lemma opened_holds:
  assumes e: "restorable env K L keys n table" and u: "untouched table db" and pl: "plainTable table state"
    and g: "1 \<le> unat (Generation state)" "unat (Generation state) + n + 1 < 2 ^ 63"
    and ts: "storage_ok ts" "currentSize ts = 0"
  shows "holdsAt env K L keys n table state Map.empty freshTree ts (\<lambda>_. Map.empty)
    (db\<lparr>tableStorageMap := (tableStorageMap db)(tb_name table \<mapsto> ts), shadowIndexes := (shadowIndexes db)(tb_name table \<mapsto> freshTree),
      committedState := state\<rparr>)"
proof -
  have tk: "tree_keys (fmtOf env) K L" and b: "n < de_fuel env" "n * (2 * de_fuel env + 4) + 4 < 2 ^ 49"
    using e by (simp_all add: restorable_def)
  have "3 + n * (2 * de_fuel env + 4) < 2 ^ 64" using b(2) by simp
  note ix = tree_keys.fresh_indexes [OF tk b(1) this]
  have "unat (Generation state + 1) = unat (Generation state) + 1" using g(2) by (simp add: unat_word_ariths)
  then have "1 < Generation state + 1" using g(1) by (simp add: word_less_nat_alt)
  then have sv: "savedTree (de_fuel env) (Generation state + 1) n freshTree"
    using fresh_run(11) b(2) by (simp add: savedTree_def fresh_run)
  show ?thesis
    unfolding holdsAt_def using e u pl g ts ix sv by (simp add: restorable_def untouched_def rowAt_def)
qed

text \<open>The first record for a table opens its file and empties it; the index is created when it is first needed.\<close>

definition emptiedFile :: "Table \<Rightarrow> Database \<Rightarrow> TableStorage" where
  "emptiedFile table db = \<lparr>ts_file = OpenFile, ts_path = directory db @ ''/'' @ tb_name table @ ''.db'', currentSize = 0, ts_disk = []\<rparr>"

lemma open_first:
  assumes u: "untouched table db" and q: "quietReplay env (tb_name table)" "namedTable table" and cl: "tb_name table \<notin> set (rc_cleared rc)"
  defines "db1 \<equiv> db\<lparr>tableStorageMap := (tableStorageMap db)(tb_name table \<mapsto> emptiedFile table db)\<rparr>"
  defines "db2 \<equiv> db1\<lparr>shadowIndexes := (shadowIndexes db)(tb_name table \<mapsto> freshTree)\<rparr>"
  shows "bindD (tableStorage env (tb_name table)) (\<lambda>_. bindD (resetOnce env (tb_name table) rc) (replayTail env (tb_name table) t r b g)) db
    = replayTail env (tb_name table) t r b g (rc\<lparr>rc_cleared := tb_name table # rc_cleared rc\<rparr>) db2"
proof -
  let ?n = "tb_name table" and ?disk = "case tableFiles db (tb_name table) of None \<Rightarrow> [] | Some b \<Rightarrow> b"
  let ?ts = "\<lparr>ts_file = OpenFile, ts_path = directory db @ ''/'' @ ?n @ ''.db'', currentSize = of_nat (length ?disk), ts_disk = ?disk\<rparr>"
  let ?db0 = "db\<lparr>tableStorageMap := (tableStorageMap db)(?n \<mapsto> ?ts)\<rparr>" and ?rc = "rc\<lparr>rc_cleared := ?n # rc_cleared rc\<rparr>"
  have op: "tableStorage env ?n db = (Ok ?ts, ?db0)"
    using u q by (simp add: tableStorage_def getTableStorage_def untouched_def quietReplay_def NewTableStorage_def namedTable_def Let_def)
  have rs: "resetOnce env ?n rc ?db0 = (Ok ?rc, db1)"
    using u q(1) cl tableStorage_run [of ?db0 ?n ?ts env]
    by (simp add: resetOnce_def Reset_def quietReplay_def putStorage_def untouched_def db1_def emptiedFile_def)
  have "getShadowNamedIndex env ?n db1 = (Ok (), db2)"
    using u q(1) fresh_run(1) by (simp add: getShadowNamedIndex_def untouched_def quietReplay_def db1_def db2_def)
  moreover have "getShadowNamedIndex env ?n db2 = (Ok (), db2)" by (simp add: getShadowNamedIndex_run db2_def)
  ultimately have "findPrimary env ?n k db1 = findPrimary env ?n k db2" for k by (simp add: findPrimary_def)
  then have "replayTail env ?n t r b g ?rc db1 = replayTail env ?n t r b g ?rc db2"
    by (simp add: replayTail_def replayOldRecord_def bindD_def attemptD_def)
  then show ?thesis using op rs by simp
qed

lemma replay_first:
  assumes e: "restorable env K L keys (Suc (Suc n)) table" and u: "untouched table db" and pl: "plainTable table (stateOf rc)"
    and cl: "tb_name table \<notin> set (rc_cleared rc)" and r: "rowOk table keys r" "Marshal r = Ok b"
    and g: "1 \<le> unat (rc_generation rc)" "unat (rc_generation rc) < unat g" "unat g + n + 3 < 2 ^ 63"
  shows "\<exists>rc' db'. replayGroup env (logOf (rowTask table ident g b)) rc db = (Ok rc', db')
    \<and> rebuilt env K L keys n table [getPrimaryKey r \<mapsto> r] rc' db' \<and> rc_generation rc' = g"
proof -
  let ?n = "tb_name table"
  have nt: "namedTable table" and q: "quietReplay env ?n" "wf_env (de_go env)" using e by (simp_all add: restorable_def quietEnv_def)
  have reg: "getRegisteredType (typeRegistry db) (typeString (tb_Type table)) = Some (tb_Type table)" using u by (simp add: untouched_def)
  have b: "int (length b) \<le> maxRecordSize" "Unmarshal (de_go env) b (tb_Type table) = Ok r" using rowOk_bytes [OF r(1) q(2)] r(2) by auto
  have tst: "tableStateOf (rc_state rc) ?n \<noteq> None" using pl by (auto simp: plainTable_def stateOf_def tableStateOf_def split: option.splits)
  let ?db2 = "db\<lparr>tableStorageMap := (tableStorageMap db)(?n \<mapsto> emptiedFile table db), shadowIndexes := (shadowIndexes db)(?n \<mapsto> freshTree)\<rparr>"
  let ?rc = "(entered g rc)\<lparr>rc_cleared := ?n # rc_cleared rc\<rparr>"
  have gs: "unat (Generation (stateOf rc)) = unat (rc_generation rc)" by (simp add: stateOf_def)
  have at: "holdsAt env K L keys (Suc (Suc n)) table (stateOf rc) Map.empty freshTree (emptiedFile table db) (\<lambda>_. Map.empty) (?db2\<lparr>committedState := stateOf rc\<rparr>)"
    using opened_holds [OF e u pl, of "emptiedFile table db"] g gs by (simp add: storage_ok_def emptiedFile_def)
  have app: "de_append env ?n = WOk" using q(1) by (simp add: quietReplay_def)
  have g': "unat (Generation (stateOf rc)) < unat g" "unat g + n + 1 < 2 ^ 64" "unat g < 2 ^ 63" using g gs by simp_all
  obtain d1 d2 where run: "replayTail env ?n (tb_Type table) r b g ?rc ?db2 = (Ok (?rc\<lparr>rc_modified := [?n]\<rparr>), d1)"
    "shadowCommit env ?n g d1 = (Ok (), d2)" "typeRegistry d2 = typeRegistry ?db2"
    "holdsRows env K L keys n table ((stateOf rc)\<lparr>Generation := g\<rparr>) [getPrimaryKey r \<mapsto> r] (d2\<lparr>committedState := (stateOf rc)\<lparr>Generation := g\<rparr>\<rparr>)"
    using replayTail_run [OF at r app g'(1,2), of ?rc] by auto
  have "bindD (tableStorage env ?n) (\<lambda>_. bindD (resetOnce env ?n (entered g rc)) (replayTail env ?n (tb_Type table) r b g)) db
      = (Ok (?rc\<lparr>rc_modified := [?n]\<rparr>), d1)"
    using open_first [OF u q(1) nt, of "entered g rc" "tb_Type table" r b g] cl run(1) by simp
  from replayGroup_row [OF nt reg tst b g(2) g'(3) this run(2), of ident]
  have "replayGroup env (logOf (rowTask table ident g b)) rc db = (Ok (?rc\<lparr>rc_modified := [?n]\<rparr>), d2)" by simp
  moreover have "stateOf (?rc\<lparr>rc_modified := [?n]\<rparr>) = (stateOf rc)\<lparr>Generation := g\<rparr>" by (simp add: stateOf_def)
  then have "rebuilt env K L keys n table [getPrimaryKey r \<mapsto> r] (?rc\<lparr>rc_modified := [?n]\<rparr>) d2"
    unfolding rebuilt_def using run(3,4) reg by simp
  ultimately show ?thesis by (intro exI [of _ "?rc\<lparr>rc_modified := [?n]\<rparr>"] exI [of _ d2]) simp
qed

section \<open>Replaying a log of insertions\<close>

definition bytesOf :: "gval \<Rightarrow> bytes" where
  "bytesOf r = (case Marshal r of Ok b \<Rightarrow> b | _ \<Rightarrow> [])"

fun rowTasks :: "Table \<Rightarrow> 64 word \<Rightarrow> (64 word \<times> gval) list \<Rightarrow> WriteTask list" where
  "rowTasks table g [] = []"
| "rowTasks table g ((ident, r) # rows) = rowTask table ident (g + 1) (bytesOf r) # rowTasks table (g + 1) rows"

fun rowsMap :: "(gval \<rightharpoonup> gval) \<Rightarrow> (64 word \<times> gval) list \<Rightarrow> gval \<rightharpoonup> gval" where
  "rowsMap R [] = R"
| "rowsMap R ((ident, r) # rows) = rowsMap (R(getPrimaryKey r \<mapsto> r)) rows"

lemma unat_Suc64: "unat (g :: 64 word) + 1 < 2 ^ 64 \<Longrightarrow> unat (g + 1) = unat g + 1"
  by (simp add: unat_word_ariths)

lemma rowTasks_fields:
  "map TxID (rowTasks table g rows) = map fst rows" "list_all wfTask (rowTasks table g rows)"
  by (induction table g rows rule: rowTasks.induct) (simp_all add: wf_tasks, simp_all add: insertTask_def)

lemma rowTasks_generations:
  assumes "unat g + length rows < 2 ^ 63"
  shows "sorted_wrt (\<lambda>a b. sint (wt_Generation a) \<le> sint (wt_Generation b)) (rowTasks table g rows)
    \<and> (\<forall>t \<in> set (rowTasks table g rows). sint g \<le> sint (wt_Generation t))"
  using assms
proof (induction table g rows rule: rowTasks.induct)
  case (2 table g ident r rows)
  have s: "unat (g + 1) = unat g + 1" using 2(2) by (intro unat_Suc64) simp
  have i: "sint (g + 1) = sint g + 1" using 2(2) s sint_small [of g] sint_small [of "g + 1"] by simp
  from 2(1) [unfolded s] 2(2) have "sorted_wrt (\<lambda>a b. sint (wt_Generation a) \<le> sint (wt_Generation b)) (rowTasks table (g + 1) rows)
    \<and> (\<forall>t \<in> set (rowTasks table (g + 1) rows). sint (g + 1) \<le> sint (wt_Generation t))" by simp
  then show ?case using i by (auto simp: insertTask_def)
qed simp

lemma rowOk_bytesOf: "rowOk table keys r \<Longrightarrow> Marshal r = Ok (bytesOf r)"
  by (auto simp: rowOk_def bytesOf_def split: res.splits)

lemma replay_rows:
  assumes "rebuilt env K L keys (2 * length rows + n) table R rc db" "namedTable table" "quietReplay env (tb_name table)"
    and "list_all (\<lambda>c. rowOk table keys (snd c)) rows" "unat (rc_generation rc) + 2 * length rows + n + 1 < 2 ^ 63"
  shows "\<exists>rc' db'. forD (rowTasks table (rc_generation rc) rows) (\<lambda>task. replayGroup env (logOf task)) rc db = (Ok rc', db')
    \<and> rebuilt env K L keys n table (rowsMap R rows) rc' db'"
  using assms
proof (induction rows arbitrary: R rc db)
  case (Cons c rows)
  obtain ident r where c: "c = (ident, r)" by (cases c)
  let ?m = "2 * length rows + n" and ?g = "rc_generation rc + 1"
  have u: "unat ?g = unat (rc_generation rc) + 1" using Cons.prems(5) by (intro unat_Suc64) simp
  have h: "rebuilt env K L keys (Suc (Suc ?m)) table R rc db" using Cons.prems(1) by simp
  have r: "rowOk table keys r" using Cons.prems(4) c by simp
  have g: "unat (rc_generation rc) < unat ?g" "unat ?g + ?m + 1 < 2 ^ 63" using u Cons.prems(5) by simp_all
  obtain rc1 db1 where one: "replayGroup env (logOf (rowTask table ident ?g (bytesOf r))) rc db = (Ok rc1, db1)"
    "rebuilt env K L keys ?m table (R(getPrimaryKey r \<mapsto> r)) rc1 db1" "rc_generation rc1 = ?g"
    using replay_next [OF h Cons.prems(2,3) r rowOk_bytesOf [OF r] g, of ident] by blast
  have l: "list_all (\<lambda>c. rowOk table keys (snd c)) rows" "unat (rc_generation rc1) + 2 * length rows + n + 1 < 2 ^ 63"
    using Cons.prems(4) g(2) one(3) by simp_all
  obtain rc2 db2 where
    "forD (rowTasks table ?g rows) (\<lambda>task. replayGroup env (logOf task)) rc1 db1 = (Ok rc2, db2)"
    "rebuilt env K L keys n table (rowsMap (R(getPrimaryKey r \<mapsto> r)) rows) rc2 db2"
    using Cons.IH [OF one(2) Cons.prems(2,3) l] unfolding one(3) by blast
  then show ?case using one(1) c by simp
qed auto

lemma replay_create_run:
  assumes "getRegisteredType (typeRegistry db) (typeString (tb_Type table)) = Some (tb_Type table)" "namedTable table" "encodableName i"
    and "1 \<le> unat g" "unat g < 2 ^ 63"
  shows "\<exists>idType. replayGroup env (logOf (createTask ident g (tb_name table) i (typeString (tb_Type table))))
      \<lparr>rc_state = NewDatabaseState 0, rc_generation = 0, rc_cleared = [], rc_modified = [], rc_transGen = 0\<rparr> db
    = (Ok \<lparr>rc_state = \<lparr>Generation = 0, Tables = [(tb_name table, NewTableState (tb_name table) idType (tb_Type table) [])]\<rparr>,
        rc_generation = g, rc_cleared = [], rc_modified = [], rc_transGen = g\<rparr>, db)"
proof -
  let ?n = "tb_name table" and ?e = "typeString (tb_Type table)"
  have "readString (writeString ?n @ r) = Ok (?n, r)" "readString (writeString i @ r) = Ok (i, r)" "readString (writeString ?e) = Ok (?e, [])" for r
    using readString_writeString readString_writeString [of ?e "[]"] assms(2,3) by (simp_all add: namedTable_def encodableName_def)
  moreover have "0 < sint g" unfolding sint_small [OF assms(5)] using assms(4) by (simp only: of_nat_0_less_iff)
  ultimately show ?thesis
    using assms(1)
    by (auto simp: replayGroup_def logOf_def taskMutations_def createTask_def marker_def replayOne_def replayCreateTable_def NewDatabaseState_def Let_def)
qed

lemma Copy_Generation: "DatabaseState_Copy s g = s\<lparr>Generation := g\<rparr>"
proof -
  have "TableState_Copy t = t" for t by (simp add: TableState_Copy_def)
  then show ?thesis by (simp add: DatabaseState_Copy_def)
qed

lemma recover_rows:
  assumes e: "restorable env K L keys (2 * length rows + n) table" and u: "untouched table db" and pl: "plainTable table state"
    and rows: "rows \<noteq> []" "list_all (\<lambda>c. rowOk table keys (snd c)) rows" "distinct (ident # map fst rows)" "encodableName i"
    and g: "1 \<le> unat g" "unat g + 2 * length rows + n + 2 < 2 ^ 63"
  shows "\<exists>state' db'. recover env (NewDatabaseState 0)
      (concat (map logOf (createTask ident g (tb_name table) i (typeString (tb_Type table)) # rowTasks table g rows))) db = (Ok state', db')
    \<and> holdsRows env K L keys n table state' (rowsMap Map.empty rows) (db'\<lparr>committedState := state'\<rparr>)"
proof -
  let ?n = "tb_name table" and ?e = "typeString (tb_Type table)"
  let ?create = "createTask ident g ?n i ?e" and ?f = "\<lambda>task. replayGroup env (logOf task)"
  let ?rc = "\<lparr>rc_state = NewDatabaseState 0, rc_generation = 0, rc_cleared = [], rc_modified = [], rc_transGen = 0\<rparr>"
  obtain ident1 r rest where rs: "rows = (ident1, r) # rest" using rows(1) by (cases rows) auto
  have nt: "namedTable table" "quietReplay env ?n" using e by (simp_all add: restorable_def)
  have reg: "getRegisteredType (typeRegistry db) ?e = Some (tb_Type table)" using u by (simp add: untouched_def)
  have s: "unat (g + 1) = unat g + 1" using g(2) by (intro unat_Suc64) simp
  obtain idType where c: "replayGroup env (logOf ?create) ?rc db
    = (Ok \<lparr>rc_state = \<lparr>Generation = 0, Tables = [(?n, NewTableState ?n idType (tb_Type table) [])]\<rparr>,
        rc_generation = g, rc_cleared = [], rc_modified = [], rc_transGen = g\<rparr>, db)" (is "_ = (Ok ?rc1, db)")
    using replay_create_run [OF reg nt(1) rows(4) g(1)] g(2) by fastforce
  have p1: "plainTable table (stateOf ?rc1)" using pl by (simp add: plainTable_def stateOf_def tableStateOf_def NewTableState_def split: option.splits)
  let ?m = "2 * length rest + n"
  have e': "restorable env K L keys (Suc (Suc ?m)) table" using e rs by simp
  have r: "rowOk table keys r" using rows(2) rs by simp
  obtain rc2 db2 where one: "replayGroup env (logOf (rowTask table ident1 (g + 1) (bytesOf r))) ?rc1 db = (Ok rc2, db2)"
    "rebuilt env K L keys ?m table [getPrimaryKey r \<mapsto> r] rc2 db2" "rc_generation rc2 = g + 1"
    using replay_first [OF e' u p1 _ r rowOk_bytesOf [OF r], of "g + 1" ident1] g s rs by auto
  obtain rc3 db3 where more: "forD (rowTasks table (g + 1) rest) ?f rc2 db2 = (Ok rc3, db3)"
    "rebuilt env K L keys n table (rowsMap [getPrimaryKey r \<mapsto> r] rest) rc3 db3"
    using replay_rows [OF one(2) nt] rows(2) rs g(2) s one(3) by auto
  have loop: "forD (?create # rowTasks table g rows) ?f ?rc db = (Ok rc3, db3)" using c one(1) more(1) rs by simp
  have "recover env (NewDatabaseState 0) (concat (map logOf (?create # rowTasks table g rows))) db
      = bindD (forD (?create # rowTasks table g rows) ?f ?rc) (\<lambda>rc. returnD (DatabaseState_Copy (rc_state rc) (rc_generation rc))) db"
  proof -
    have "wt_Generation ?create = g" "TxID ?create = ident" by (simp_all add: createTask_def)
    then have "sorted_wrt (\<lambda>a b. sint (wt_Generation a) \<le> sint (wt_Generation b)) (?create # rowTasks table g rows)"
      "distinct (map TxID (?create # rowTasks table g rows))" "list_all wfTask (?create # rowTasks table g rows)"
      using rowTasks_generations [of g rows table] g(2) rows(3) rowTasks_fields wf_tasks by auto
    from recover_tasks [OF this(3,2) _ this(1)] show ?thesis by (simp add: NewDatabaseState_def)
  qed
  then have "recover env (NewDatabaseState 0) (concat (map logOf (?create # rowTasks table g rows))) db = (Ok (stateOf rc3), db3)"
    using loop by (simp add: Copy_Generation stateOf_def)
  then show ?thesis using more(2) rs by (auto simp: rebuilt_def)
qed

section \<open>The log that insertions write\<close>

lemma leaves_committedPointer [frame]: "leaves logged (committedPointer env state n k)"
  unfolding committedPointer_def findPrimary_def by (intro frame)

lemma keyExists_logged: "keyExists env n k (tx, db) = (r, (tx', db')) \<Longrightarrow> logged db' = logged db"
proof -
  assume run: "keyExists env n k (tx, db) = (r, (tx', db'))"
  have "leaves logged (bindD (committedPointer env (tx_committedState tx) n k) (\<lambda>p. returnD (p \<noteq> None)))" by (intro frame)
  from leavesD [OF this] show ?thesis
    using run by (auto simp: keyExists_def inDatabase_def Let_def split: if_splits prod.splits)
qed

definition rollbackRecord :: "64 word \<Rightarrow> 64 word \<Rightarrow> WalRecord" where
  "rollbackRecord ident g = \<lparr>wr_Type = OpRollbackTransaction, wr_TransactionID = ident, wr_Generation = g, wr_Payload = []\<rparr>"

lemma Rollback_logged:
  assumes "wal_ok (walManager db)" "de_rollback env = (WOk, None)" "active tx" "RollbackReason (changeSet tx) = []"
    and "Rollback env (tx, db) = (r, (tx', db'))"
  shows "wal_disk (walManager db') = wal_disk (walManager db) @ walBytes [rollbackRecord (transactionID tx) (Generation (committedState db) + 1)]"
    "committedState db' = committedState db" "snapshotFiles db' = snapshotFiles db"
  using assms
  by (auto simp: Rollback_def AppendRollbackMarker_def walFile_Write_def walFile_Sync_def wal_ok_def rollbackRecord_def walBytes_def
      currentGeneration_def string_bytes_def writeAt_def Let_def split: if_splits)

lemma leaves_snapshots: "leaves logged m \<Longrightarrow> leaves snapshotFiles m"
  by (simp add: leaves_def logged_def)

lemma leaves_snapshots_write: "leaves snapshotFiles (writeAndApply env tx g ws as)"
proof -
  have "leaves snapshotFiles (submitTask env task)" for task by (auto simp: leaves_def submitTask_def split: prod.split)
  moreover have "leaves snapshotFiles (applyTable env state g ps change)" for state ps change
    by (intro leaves_snapshots leaves_applyTable)
  ultimately show ?thesis
    unfolding writeAndApply_def
    by (intro leaves_bindD leaves_attemptD leaves_sum leaves_basic leaves_forD) (simp_all add: publish_def)
qed

lemma Commit_snapshots:
  assumes "Commit env (tx, db) = (r, (tx', db'))" "\<not> RollbackOnly (changeSet tx)"
  shows "snapshotFiles db' = snapshotFiles db"
proof -
  have "snapshotFiles (snd (writeAndApply env t g ws as d)) = snapshotFiles d" for t g ws as d
    using leaves_snapshots_write by (simp add: leaves_def)
  then have "leaves snapshotFiles (commitBody env t)" for t
    unfolding commitBody_def
    by (intro leaves_bindD leaves_snapshots [OF leaves_validateUniqueIndexes]) (auto simp: leaves_def Let_def split: res.split prod.split)
  then have "snapshotFiles (snd (commitBody env t d)) = snapshotFiles d" for t d by (simp add: leaves_def)
  then show ?thesis using assms by (auto simp: Commit_def split: if_splits prod.splits) (metis snd_conv)
qed

text \<open>One insertion.\<close>

lemma insert_checked:
  assumes h: "holdsRows env K L keys n table (committedState db) R db" and r: "rowOk table keys r"
  shows "\<exists>db1. table_insert env table r (NewTransaction ident (committedState db), db)
      = (if R (getPrimaryKey r) = None
         then (Ok (), (stageInsert (tb_name table) (getPrimaryKey r) r (touchTable (tb_name table) (NewTransaction ident (committedState db))), db1))
         else (Err (Errorf ''record already exists''), (touchTable (tb_name table) (NewTransaction ident (committedState db)), db1)))
    \<and> holdsRows env K L keys n table (committedState db) R db1 \<and> logged db1 = logged db"
proof -
  let ?new = "NewTransaction ident (committedState db)" and ?k = "getPrimaryKey r"
  let ?tx = "touchTable (tb_name table) ?new"
  note k = rowOk_key [OF r]
  have ok: "txOk table (committedState db) R ?tx" "txView table R ?tx = R" using txOk_NewTransaction by simp_all
  obtain db1 where db1: "keyExists env (tb_name table) ?k (?tx, db) = (Ok (R ?k \<noteq> None), (?tx, db1))"
    "holdsRows env K L keys n table (committedState db) R db1"
    using disk_rows.keyExists_run [OF h k(2) ok(1)] ok(2) by auto
  moreover have "active ?new" by (simp add: NewTransaction_def)
  ultimately have "table_insert env table r (?new, db) = (if R ?k = None then (Ok (), (stageInsert (tb_name table) ?k r ?tx, db1))
      else (Err (Errorf ''record already exists''), (?tx, db1)))"
    using k(3) by (simp add: table_insert_def modifyTx_def bindD_def)
  then show ?thesis using db1(2) keyExists_logged [OF db1(1)] by blast
qed

lemma Commit_insert_logged:
  fixes ident :: "64 word"
  assumes h: "holdsRows env K L keys (Suc (Suc n)) table state R db" and r: "rowOk table keys r"
    and wal: "wal_ok (walManager db)" "committedState db = state" and pl: "plainTable table state"
  defines "g \<equiv> Generation state + 1"
    and "staged \<equiv> stageInsert (tb_name table) (getPrimaryKey r) r (touchTable (tb_name table) (NewTransaction ident state))"
  shows "\<exists>tx' d. Commit env (staged, db) = (Ok (), (tx', d)) \<and> snapshotFiles d = snapshotFiles db \<and> committedState d = state\<lparr>Generation := g\<rparr>
    \<and> wal_disk (walManager d) = wal_disk (walManager db) @ walBytes (logOf (rowTask table ident g (bytesOf r)))"
proof -
  let ?n = "tb_name table"
  note s = stageInsert_new [OF pl, of "getPrimaryKey r" r ident, folded staged_def]
  obtain tx' d where c: "Commit env (staged, db) = (Ok (), (tx', d))" using Commit_insert_run [OF h r s(1-3,5)] by blast
  obtain st where st: "tableStateOf state ?n = Some st" "EntityType st = tb_Type table"
    using pl by (auto simp: plainTable_def split: option.splits)
  let ?w = "txRecord (staged\<lparr>active := False\<rparr>) g OpInsert (recordPayload ?n (typeString (tb_Type table)) (bytesOf r))"
  have log: "transactionLog (staged\<lparr>active := False\<rparr>) g (TableChanges (changeSet staged)) = Ok ([?w], [(?n, [bytesOf r])])"
    using s(2,5) st rowOk_bytesOf [OF r] by (simp add: tableLog_def NewTableChangeSet_def IsEmpty_def Let_def)
  have task: "transactionTask staged g [?w] [(?n, [bytesOf r])] = rowTask table ident g (bytesOf r)"
    using s(4) by (simp add: transactionTask_def insertTask_def txRecord_def)
  from Commit_logged [OF wal(1) c, unfolded wal(2), folded g_def, OF log]
  have "wal_disk (walManager d) = wal_disk (walManager db) @ walBytes (logOf (rowTask table ident g (bytesOf r)))"
    "committedState d = state\<lparr>Generation := g\<rparr>"
    using s(2) by (simp_all add: task logOf_def Copy_Generation)
  then show ?thesis using c Commit_snapshots [OF c s(3)] by blast
qed

lemma Table_Insert_logged:
  assumes h: "holdsRows env K L keys (Suc (Suc n)) table (committedState db) R db" and r: "rowOk table keys r"
    and run: "Table_Insert env ident table r db = (res, db')"
  defines "g \<equiv> Generation (committedState db) + 1"
  shows "snapshotFiles db' = snapshotFiles db \<and> (if R (getPrimaryKey r) = None
     then wal_disk (walManager db') = wal_disk (walManager db) @ walBytes (logOf (rowTask table ident g (bytesOf r)))
       \<and> committedState db' = (committedState db)\<lparr>Generation := g\<rparr>
     else wal_disk (walManager db') = wal_disk (walManager db) @ walBytes [rollbackRecord ident g] \<and> committedState db' = committedState db)"
proof -
  let ?state = "committedState db" and ?k = "getPrimaryKey r" and ?n = "tb_name table"
  let ?tx = "touchTable ?n (NewTransaction ident ?state)"
  have p: "plainTable table ?state" "\<not> db_closed db" "wal_ok (walManager db)" "de_rollback env = (WOk, None)"
    using h by (auto simp: holdsRows_def holdsAt_def quietEnv_def)
  obtain db1 where ins: "table_insert env table r (NewTransaction ident ?state, db)
      = (if R ?k = None then (Ok (), (stageInsert ?n ?k r ?tx, db1)) else (Err (Errorf ''record already exists''), (?tx, db1)))"
    "holdsRows env K L keys (Suc (Suc n)) table ?state R db1" "logged db1 = logged db"
    using insert_checked [OF h r] by blast
  have same: "walManager db1 = walManager db" "committedState db1 = ?state" "snapshotFiles db1 = snapshotFiles db"
    using ins(3) by (simp_all add: logged_def)
  then have ok: "wal_ok (walManager db1)" using p(3) by simp
  show ?thesis
  proof (cases "R ?k = None")
    case True
    obtain tx' d where c: "Commit env (stageInsert ?n ?k r ?tx, db1) = (Ok (), (tx', d))" "snapshotFiles d = snapshotFiles db1"
      "committedState d = ?state\<lparr>Generation := g\<rparr>"
      "wal_disk (walManager d) = wal_disk (walManager db1) @ walBytes (logOf (rowTask table ident g (bytesOf r)))"
      using Commit_insert_logged [OF ins(2) r ok same(2) p(1)] unfolding g_def by blast
    then have "db' = d" using ins(1) True p(2) stageInsert_new(1) [OF p(1)] run by (simp add: Table_Insert_def runCallback_def)
    then show ?thesis using True c(2-4) same by simp
  next
    case False
    obtain x tx' d where rb: "Rollback env (?tx, db1) = (x, (tx', d))" by (metis prod.exhaust)
    then have d: "db' = d" using ins(1) False p(2) run by (simp add: Table_Insert_def runCallback_def)
    have tx: "active ?tx" "RollbackReason (changeSet ?tx) = []" "transactionID ?tx = ident"
      by (simp_all add: touchTable_def NewTransaction_def NewTransactionChangeSet_def putTableChanges_def)
    from Rollback_logged [OF ok p(4) tx(1,2) rb] show ?thesis using False d same tx(3) by (auto simp: g_def)
  qed
qed

text \<open>A sequence of insertions: the rows that were accepted, and the log.\<close>

fun acceptedRows :: "(64 word \<times> gval) list \<Rightarrow> (gval \<rightharpoonup> gval) \<Rightarrow> (64 word \<times> gval) list" where
  "acceptedRows [] R = []"
| "acceptedRows ((ident, r) # calls) R =
     (if R (getPrimaryKey r) = None then (ident, r) # acceptedRows calls (R(getPrimaryKey r \<mapsto> r)) else acceptedRows calls R)"

fun insertedLog :: "Table \<Rightarrow> 64 word \<Rightarrow> (64 word \<times> gval) list \<Rightarrow> (gval \<rightharpoonup> gval) \<Rightarrow> WalRecord list" where
  "insertedLog table g [] R = []"
| "insertedLog table g ((ident, r) # calls) R =
     (if R (getPrimaryKey r) = None
      then logOf (rowTask table ident (g + 1) (bytesOf r)) @ insertedLog table (g + 1) calls (R(getPrimaryKey r \<mapsto> r))
      else rollbackRecord ident (g + 1) # insertedLog table g calls R)"

lemma acceptedRows_map: "snd (runCalls insertMap (map snd calls) R) = rowsMap R (acceptedRows calls R)"
  supply fun_upd_apply [simp del]
proof (induction calls arbitrary: R)
  case (Cons c calls)
  obtain ident r where c: "c = (ident, r)" by (cases c)
  show ?case
    using Cons.IH [of R] Cons.IH [of "R(getPrimaryKey r \<mapsto> r)"] by (auto simp: c insertMap_def split: prod.split)
qed simp

lemma acceptedRows_subset: "set (acceptedRows calls R) \<subseteq> set calls" "length (acceptedRows calls R) \<le> length calls"
  supply fun_upd_apply [simp del]
proof (induction calls arbitrary: R)
  case (Cons c calls)
  obtain ident r where c: "c = (ident, r)" by (cases c)
  { case 1 show ?case using Cons.IH(1) [of R] Cons.IH(1) [of "R(getPrimaryKey r \<mapsto> r)"] by (auto simp: c) next case 2 show ?case using Cons.IH(2) [of R] Cons.IH(2) [of "R(getPrimaryKey r \<mapsto> r)"] by (simp add: c) }
qed simp_all

lemma acceptedRows_distinct: "distinct (map fst calls) \<Longrightarrow> distinct (map fst (acceptedRows calls R))"
  supply fun_upd_apply [simp del]
proof (induction calls arbitrary: R)
  case (Cons c calls)
  obtain ident r where c: "c = (ident, r)" by (cases c)
  have "ident \<notin> fst ` set calls" using Cons.prems c by simp
  then have "ident \<notin> fst ` set (acceptedRows calls Q)" for Q using acceptedRows_subset(1) [of calls Q] by blast
  then show ?case using Cons by (simp add: c)
qed simp

lemma inserts_logged:
  assumes "holdsRows env K L keys (2 * length calls + n) table (committedState db) R db" "list_all (\<lambda>c. rowOk table keys (snd c)) calls"
    and "runCalls (\<lambda>(ident, r). Table_Insert env ident table r) calls db = (results, db')"
  shows "wal_disk (walManager db') = wal_disk (walManager db) @ walBytes (insertedLog table (Generation (committedState db)) calls R)
    \<and> snapshotFiles db' = snapshotFiles db \<and> \<not> db_closed db'"
  supply fun_upd_apply [simp del]
  using assms
proof (induction calls arbitrary: db R results)
  case (Cons c calls)
  obtain ident r where c: "c = (ident, r)" by (cases c)
  let ?m = "2 * length calls + n" and ?g = "Generation (committedState db)"
  have h: "holdsRows env K L keys (Suc (Suc ?m)) table (committedState db) R db" and r: "rowOk table keys r"
    and rs: "list_all (\<lambda>c. rowOk table keys (snd c)) calls" using Cons.prems(1,2) c by simp_all
  obtain db1 where one: "Table_Insert env ident table r db = (fst (insertMap r R), db1)"
    "holdsRows env K L keys ?m table (committedState db1) (snd (insertMap r R)) db1"
    using Table_Insert_run [OF h r] by blast
  obtain rest where rest: "runCalls (\<lambda>(ident, r). Table_Insert env ident table r) calls db1 = (rest, db')"
    using Cons.prems(3) one(1) c by (auto split: prod.splits)
  note log = Table_Insert_logged [OF h r one(1)]
  note IH = Cons.IH [OF one(2) rs rest]
  show ?case
  proof (cases "R (getPrimaryKey r) = None")
    case True
    then show ?thesis using log IH c by (simp add: insertMap_def walBytes_def)
  next
    case False
    then show ?thesis using log IH c by (auto simp: insertMap_def walBytes_def)
  qed
qed (auto simp: holdsRows_def holdsAt_def walBytes_def)

text \<open>What recovery keeps of this log.\<close>

lemma filter_insertedLog:
  assumes "\<And>c. c \<in> set (acceptedRows calls R) \<Longrightarrow> P (fst c)" "\<And>x. x \<in> set (idsOf OpRollbackTransaction (insertedLog table g calls R)) \<Longrightarrow> \<not> P x"
  shows "filter (\<lambda>w. P (wr_TransactionID w)) (insertedLog table g calls R) = concat (map logOf (rowTasks table g (acceptedRows calls R)))"
  supply fun_upd_apply [simp del]
  using assms
proof (induction calls arbitrary: g R)
  case (Cons c calls)
  obtain ident r where c: "c = (ident, r)" by (cases c)
  show ?case
  proof (cases "R (getPrimaryKey r) = None")
    case True
    have "P ident" using Cons.prems(1) [of "(ident, r)"] True c by simp
    then have "filter (\<lambda>w. P (wr_TransactionID w)) (logOf (rowTask table ident (g + 1) (bytesOf r))) = logOf (rowTask table ident (g + 1) (bytesOf r))"
      by (simp add: logOf_fields insertTask_def)
    then show ?thesis using Cons.IH [of "R(getPrimaryKey r \<mapsto> r)" "g + 1"] Cons.prems True c by (simp add: idsOf_append)
  next
    case False
    have "\<not> P ident" using Cons.prems(2) [of ident] False c by (auto simp: idsOf_def rollbackRecord_def)
    then show ?thesis using Cons.IH [of R g] Cons.prems False c by (auto simp: idsOf_def rollbackRecord_def)
  qed
qed simp

lemma idsOf_step:
  "idsOf OpCommitTransaction (logOf (rowTask table ident g b)) = [ident]" "idsOf OpRollbackTransaction (logOf (rowTask table ident g b)) = []"
  "idsOf OpCommitTransaction (rollbackRecord ident g # ws) = idsOf OpCommitTransaction ws"
  "idsOf OpRollbackTransaction (rollbackRecord ident g # ws) = ident # idsOf OpRollbackTransaction ws"
  using idsOf_logOf [OF wf_tasks(1)] by (simp_all add: insertTask_def) (simp_all add: idsOf_def rollbackRecord_def)

lemma idsOf_commits: "idsOf OpCommitTransaction (insertedLog table g calls R) = map fst (acceptedRows calls R)"
  supply fun_upd_apply [simp del]
proof (induction calls arbitrary: g R)
  case (Cons c calls)
  then show ?case by (cases c) (simp add: idsOf_append idsOf_step)
qed (simp add: idsOf_def)

lemma idsOf_rollbacks:
  "set (idsOf OpRollbackTransaction (insertedLog table g calls R)) \<subseteq> fst ` set calls"
  "distinct (map fst calls) \<Longrightarrow> set (idsOf OpRollbackTransaction (insertedLog table g calls R)) \<inter> fst ` set (acceptedRows calls R) = {}"
  supply fun_upd_apply [simp del]
proof (induction calls arbitrary: g R)
  case (Cons c calls)
  obtain ident r where c: "c = (ident, r)" by (cases c)
  { case 1
    show ?case using Cons.IH(1) [of g R] Cons.IH(1) [of "g + 1" "R(getPrimaryKey r \<mapsto> r)"] by (auto simp: c idsOf_append idsOf_step)
  next
    case 2
    then have new: "ident \<notin> fst ` set calls" and d: "distinct (map fst calls)" by (simp_all add: c)
    have "ident \<notin> fst ` set (acceptedRows calls Q)" for Q using new acceptedRows_subset(1) [of calls Q] by blast
    then show ?case
      using new Cons.IH(1) [of g R] Cons.IH(1) [of "g + 1" "R(getPrimaryKey r \<mapsto> r)"] Cons.IH(2) [OF d, of g R] Cons.IH(2) [OF d, of "g + 1" "R(getPrimaryKey r \<mapsto> r)"]
      by (auto simp: c idsOf_append idsOf_step) }
qed (simp_all add: idsOf_def)

lemma finished_inserted:
  fixes ident g :: "64 word" and i :: string and table :: Table
  assumes "distinct (ident # map fst calls)"
  defines "create \<equiv> createTask ident g (tb_name table) i (typeString (tb_Type table))"
  shows "finishedRecords (logOf create @ insertedLog table g calls R) = concat (map logOf (create # rowTasks table g (acceptedRows calls R)))"
proof -
  let ?ws = "logOf create @ insertedLog table g calls R"
  have c: "wfTask create" "TxID create = ident" by (simp_all add: create_def wf_tasks) (simp add: createTask_def)
  have roll: "idsOf OpRollbackTransaction ?ws = idsOf OpRollbackTransaction (insertedLog table g calls R)"
    and com: "idsOf OpCommitTransaction ?ws = ident # map fst (acceptedRows calls R)"
    using idsOf_logOf [OF c(1)] c(2) by (simp_all add: idsOf_append idsOf_commits)
  have d: "distinct (map fst calls)" "ident \<notin> fst ` set calls" using assms(1) by simp_all
  have fin: "finished ?ws ident" using d(2) idsOf_rollbacks(1) [of table g calls R] unfolding finished_def roll com by auto
  have acc: "finished ?ws (fst c)" if "c \<in> set (acceptedRows calls R)" for c
    using that idsOf_rollbacks(2) [OF d(1), of table g R] unfolding finished_def roll com by auto
  have "\<not> finished ?ws x" if "x \<in> set (idsOf OpRollbackTransaction (insertedLog table g calls R))" for x
    using that unfolding finished_def roll by simp
  then have "filter (\<lambda>w. finished ?ws (wr_TransactionID w)) (insertedLog table g calls R) = concat (map logOf (rowTasks table g (acceptedRows calls R)))"
    using acc by (intro filter_insertedLog) simp_all
  moreover have "filter (\<lambda>w. finished ?ws (wr_TransactionID w)) (logOf create) = logOf create"
  proof -
    have "wr_TransactionID w = ident" if "w \<in> set (logOf create)" for w
      using that c by (auto simp: logOf_fields wfTask_def list_all_iff)
    then show ?thesis using fin by (simp add: filter_id_conv)
  qed
  ultimately show ?thesis by (simp add: finishedRecords_def)
qed

text \<open>The records of such a log can be read back when the payloads are within the limit of the reader.\<close>

definition loggable :: "Table \<Rightarrow> gval \<Rightarrow> bool" where
  "loggable table r = (int (length (recordPayload (tb_name table) (typeString (tb_Type table)) (bytesOf r))) \<le> maxPayload)"

lemma insertedLog_valid: "list_all (\<lambda>c. loggable table (snd c)) calls \<Longrightarrow> list_all validRecord (insertedLog table g calls R)"
  supply fun_upd_apply [simp del]
proof (induction calls arbitrary: g R)
  case (Cons c calls)
  then show ?case
    by (cases c) (auto simp: logOf_fields insertTask_def marker_def validRecord_def rollbackRecord_def loggable_def maxPayload_def)
qed simp

lemma create_valid:
  assumes "encodableName n" "encodableName i" "encodableName e"
  shows "list_all validRecord (logOf (createTask ident g n i e))"
  using assms by (simp add: logOf_fields createTask_def marker_def validRecord_def maxPayload_def encodableName_def writeString_def maxStringLength_def)

section \<open>Backup\<close>

lemma leaves_backupTable: "leaves bk_wal (backupTable io db n)" "leaves bk_snapshots (backupTable io db n)"
  by (auto simp: leaves_def backupTable_def split: option.split prod.split)

lemma Backup_log:
  assumes run: "Backup io db b = (Ok (), b')" and stat: "bi_stat io ''wal.log'' = None"
  shows "bk_wal b' = Some (wal_disk (walManager db))" "snapshotFiles db = [] \<Longrightarrow> bk_snapshots b' = bk_snapshots b"
proof -
  let ?tables = "forD (map fst (Tables (committedState db))) (\<lambda>tableName _. backupTable io db tableName) ()"
  have "\<not> db_closed db" "bi_mkdir io = None" using run by (auto simp: Backup_def split: if_splits option.splits)
  then obtain b1 b2 where r: "backupWal io db b = (Ok (), b1)" "?tables b1 = (Ok (), b2)" "backupSnapshot io db b2 = (Ok (), b')"
    using run by (auto simp: Backup_def dest!: bindD_Ok)
  have "bk_wal b1 = Some (wal_disk (walManager db))" "bk_snapshots b1 = bk_snapshots b"
    using r(1) stat by (auto simp: backupWal_def copyFile_def wrapR_def split: copy_io.splits)
  moreover have "leaves bk_wal ?tables" "leaves bk_snapshots ?tables" by (intro leaves_forD leaves_backupTable)+
  from leavesD [OF this(1) r(2)] leavesD [OF this(2) r(2)] have "bk_wal b2 = bk_wal b1" "bk_snapshots b2 = bk_snapshots b1" .
  moreover have "bk_wal b' = bk_wal b2" using r(3) by (auto simp: backupSnapshot_def split: option.splits prod.splits if_splits)
  moreover have "b' = b2" if "snapshotFiles db = []" using r(3) that by (cases "bi_readDir io") (simp_all add: backupSnapshot_def findLatestSnapshot_def)
  ultimately show "bk_wal b' = Some (wal_disk (walManager db))" "snapshotFiles db = [] \<Longrightarrow> bk_snapshots b' = bk_snapshots b" by simp_all
qed

section \<open>Restoring\<close>

definition quietOpen :: walopen_io where
  "quietOpen = \<lparr>wo_mkdir = None, wo_open = None, wo_seek = None\<rparr>"

definition emptyBackup :: backup where
  "emptyBackup = \<lparr>bk_wal = None, bk_tables = Map.empty, bk_snapshots = []\<rparr>"

lemma holdsRows_metadata:
  "holdsRows env K L keys n table state R db \<Longrightarrow> holdsRows env K L keys n table state R (db\<lparr>tableMetadataMap := m\<rparr>)"
  by (auto simp: holdsRows_def holdsAt_def)

text \<open>Opening a directory that holds the log and no snapshot and no index.\<close>

lemma Open_log:
  assumes e: "restorable env K L keys (2 * length calls + n) table" and pl: "plainTable table state"
    and calls: "calls \<noteq> []" "list_all (\<lambda>c. rowOk table keys (snd c) \<and> loggable table (snd c)) calls" "distinct (ident # map fst calls)"
    and g: "1 \<le> unat g" "unat g + 2 * length calls + n + 2 < 2 ^ 63" and i: "encodableName i"
    and o: "0 \<le> TransactionWaitTimeout options"
      "getRegisteredType (RegisterTypes (Types options) registry) (typeString (tb_Type table)) = Some (tb_Type table)"
  shows "\<exists>m db'. Open env options quietOpen None
      (Some (walBytes (logOf (createTask ident g (tb_name table) i (typeString (tb_Type table))) @ insertedLog table g calls Map.empty)))
      (newDatabase dir fresh registry tables Map.empty []) = (Ok (), db')
    \<and> holdsRows env K L keys m table (committedState db') (rowsMap Map.empty (acceptedRows calls Map.empty)) db'"
proof -
  let ?create = "createTask ident g (tb_name table) i (typeString (tb_Type table))" and ?rows = "acceptedRows calls Map.empty"
  let ?ws = "logOf ?create @ insertedLog table g calls Map.empty"
  let ?db = "(newDatabase dir fresh registry tables Map.empty [])\<lparr>typeRegistry := RegisterTypes (Types options) registry\<rparr>"
  have nt: "namedTable table" using e by (simp add: restorable_def)
  have "list_all validRecord (logOf ?create)" using create_valid nt i by (simp add: namedTable_def)
  moreover have "list_all (\<lambda>c. loggable table (snd c)) calls" using calls(2) by (simp add: list_all_iff)
  ultimately have valid: "list_all validRecord ?ws" using insertedLog_valid by simp
  let ?wm = "\<lparr>wal_file = OpenFile, wal_disk = walBytes ?ws, wal_pos = length (walBytes ?ws), durability = Durability options\<rparr>"
  have "fst (ReadAllRecords None ?wm) = Ok ?ws \<and> wal_ok (snd (ReadAllRecords None ?wm))"
    by (rule ReadAllRecords_write [OF valid]) simp_all
  then obtain wm where wm: "ReadAllRecords None ?wm = (Ok ?ws, wm)" "wal_ok wm" by (cases "ReadAllRecords None ?wm") auto
  have u: "untouched table (?db\<lparr>walManager := wm\<rparr>)" using o(2) wm(2) by (simp add: untouched_def newDatabase_def)
  have ne: "?rows \<noteq> []" using calls(1) by (cases calls) auto
  have ok: "list_all (\<lambda>c. rowOk table keys (snd c)) ?rows" "distinct (ident # map fst ?rows)"
    using calls(2,3) acceptedRows_subset(1) [of calls Map.empty] acceptedRows_distinct [of calls Map.empty] by (auto simp: list_all_iff)
  define m where "m = n + 2 * (length calls - length ?rows)"
  have m: "2 * length ?rows + m = 2 * length calls + n" using acceptedRows_subset(2) [of calls Map.empty] by (simp add: m_def)
  have "restorable env K L keys (2 * length ?rows + m) table" "unat g + 2 * length ?rows + m + 2 < 2 ^ 63" using e g(2) m by simp_all
  from recover_rows [OF this(1) u pl ne ok(1,2) i g(1) this(2)] obtain state' db2 where
    r: "recover env (NewDatabaseState 0) (concat (map logOf (?create # rowTasks table g ?rows))) (?db\<lparr>walManager := wm\<rparr>) = (Ok state', db2)"
    "holdsRows env K L keys m table state' (rowsMap Map.empty ?rows) (db2\<lparr>committedState := state'\<rparr>)" by blast
  from r(1) have rec: "recover env (NewDatabaseState 0) ?ws (?db\<lparr>walManager := wm\<rparr>) = (Ok state', db2)"
    unfolding recover_finished [of env _ ?ws] finished_inserted [OF calls(3)] .
  let ?final = "db2\<lparr>committedState := state', tableMetadataMap := foldl (\<lambda>m (n, t). m(TableName t \<mapsto> \<lparr>tm_IdType = IdType t, tm_Type = EntityType t\<rparr>))
      (tableMetadataMap db2) (Tables state')\<rparr>"
  have snap: "readSnapshot env ?db = (Ok None, ?db)" by (simp add: readSnapshot_def findLatestSnapshot_def newDatabase_def)
  have reg: "typeRegistry (newDatabase dir fresh registry tables Map.empty []) = registry" by (simp add: newDatabase_def)
  have new: "NewWalManager (Durability options) (Some (walBytes ?ws)) quietOpen = Ok ?wm" by (simp add: NewWalManager_def quietOpen_def)
  have "Open env options quietOpen None (Some (walBytes ?ws)) (newDatabase dir fresh registry tables Map.empty []) = (Ok (), ?final)"
    unfolding Open_def Let_def reg snap new using o(1) wm(1) rec by simp
  moreover have "holdsRows env K L keys m table (committedState ?final) (rowsMap Map.empty ?rows) ?final"
    using holdsRows_metadata [OF r(2)] by simp
  ultimately show ?thesis by blast
qed

section \<open>Examples\<close>

text \<open>The table of users just after it was registered: the log holds its creation.\<close>

definition registeredDb :: Database where
  "registeredDb = usersDb\<lparr>walManager := \<lparr>wal_file = OpenFile,
     wal_disk = walBytes (logOf (createTask 5 1 ''users'' ''string'' ''main.User'')),
     wal_pos = length (walBytes (logOf (createTask 5 1 ''users'' ''string'' ''main.User''))), durability = DurabilitySync\<rparr>\<rparr>"

definition quietBackup :: backup_io where
  "quietBackup = \<lparr>bi_mkdir = None, bi_stat = (\<lambda>n. None), bi_readDir = None, bi_copy = (\<lambda>n. CopyDone)\<rparr>"

lemma users_restorable: "n \<le> 15 \<Longrightarrow> restorable quiet stringKeys 256 shortIDs n users"
proof -
  assume n: "n \<le> 15"
  have tk: "tree_keys (\<lambda>v. []) stringKeys 256" by (rule tree_keys_string) simp
  have nt: "namedTable users"
    by (simp add: namedTable_def encodableName_def maxStringLength_def users_def) code_simp
  have qr: "quietReplay quiet (tb_name users)" by (simp add: quietReplay_def quietWith_def)
  show ?thesis unfolding restorable_def quiet_run
    using n tk shortIDs_keySpace quiet_run(1) nt qr by (simp add: fitLimit_def maxRecordSize_def)
qed

lemma Backup_quiet:
  assumes "\<not> db_closed db" "snapshotFiles db = []"
  shows "\<exists>b'. Backup quietBackup db b = (Ok (), b')"
proof -
  have one: "\<exists>b'. backupTable quietBackup db n b = (Ok (), b')" for n b
    by (simp add: backupTable_def copyFile_def wrapR_def quietBackup_def split: option.split)
  have all: "\<exists>b'. forD ns (\<lambda>n _. backupTable quietBackup db n) () b = (Ok (), b')" for ns b
  proof (induction ns arbitrary: b)
    case (Cons n ns)
    obtain b1 where "backupTable quietBackup db n b = (Ok (), b1)" using one by blast
    then show ?case using Cons.IH [of b1] by simp
  qed simp
  obtain b1 where "backupWal quietBackup db b = (Ok (), b1)"
    by (simp add: backupWal_def copyFile_def wrapR_def quietBackup_def)
  moreover obtain b2 where "forD (map fst (Tables (committedState db))) (\<lambda>n _. backupTable quietBackup db n) () b1 = (Ok (), b2)"
    using all by blast
  moreover have "backupSnapshot quietBackup db b2 = (Ok (), b2)" using assms(2) by (simp add: backupSnapshot_def findLatestSnapshot_def quietBackup_def)
  moreover have "bi_mkdir quietBackup = None" by (simp add: quietBackup_def)
  ultimately show ?thesis using assms(1) by (simp add: Backup_def)
qed

section \<open>Properties\<close>

text \<open>C2: rows are inserted into a table that was just registered, each in a transaction of its own, some of them
  refused because the key exists; then the database is backed up. Opening the backup (the log, without
  the indexes) rebuilds the table, and every lookup by key returns exactly the row that was committed.\<close>

theorem backup_restores_rows:
  assumes "holdsRows env K L keys (2 * length calls + n) table (committedState db) Map.empty db"
    and "restorable env K L keys (2 * length calls + n) table"
    and "calls \<noteq> []" "list_all (\<lambda>c. rowOk table keys (snd c) \<and> loggable table (snd c)) calls" "distinct (ident # map fst calls)"
    and "wal_disk (walManager db) = walBytes (logOf (createTask ident (Generation (committedState db)) (tb_name table) i (typeString (tb_Type table))))"
    and "1 \<le> unat (Generation (committedState db))" "unat (Generation (committedState db)) + 2 * length calls + n + 2 < 2 ^ 63"
    and "encodableName i" "snapshotFiles db = []"
    and "runCalls (\<lambda>(ident, r). Table_Insert env ident table r) calls db = (results, db')"
    and "Backup io db' emptyBackup = (Ok (), b)" "bi_stat io ''wal.log'' = None"
    and "0 \<le> TransactionWaitTimeout options" "k \<in> keys"
    and "getRegisteredType (RegisterTypes (Types options) registry) (typeString (tb_Type table)) = Some (tb_Type table)"
  shows "\<exists>db2 db3. Open env options quietOpen None (bk_wal b) (newDatabase dir fresh registry (bk_tables b) Map.empty (bk_snapshots b)) = (Ok (), db2)
    \<and> FindByID_committed env table k db2 = (Ok (snd (runCalls insertMap (map snd calls) Map.empty) k), db3)"
proof -
  have pl: "plainTable table (committedState db)" using assms(1) by (auto simp: holdsRows_def holdsAt_def)
  have rows: "list_all (\<lambda>c. rowOk table keys (snd c)) calls" using assms(4) by (simp add: list_all_iff)
  from inserts_logged [OF assms(1) rows assms(11)] assms(6,10)
  have log: "wal_disk (walManager db') = walBytes (logOf (createTask ident (Generation (committedState db)) (tb_name table) i
      (typeString (tb_Type table))) @ insertedLog table (Generation (committedState db)) calls Map.empty)" "snapshotFiles db' = []"
    by (simp_all add: walBytes_def)
  have b: "bk_wal b = Some (wal_disk (walManager db'))" "bk_snapshots b = []"
    using Backup_log [OF assms(12,13)] log(2) by (simp_all add: emptyBackup_def)
  from Open_log [OF assms(2) pl assms(3-5,7-9,14,16), of dir fresh "bk_tables b"] obtain m db2 where
    "Open env options quietOpen None (bk_wal b) (newDatabase dir fresh registry (bk_tables b) Map.empty (bk_snapshots b)) = (Ok (), db2)"
    "holdsRows env K L keys m table (committedState db2) (rowsMap Map.empty (acceptedRows calls Map.empty)) db2"
    unfolding b log(1) by blast
  then show ?thesis
    using disk_rows.find_row [OF _ assms(15)] unfolding FindByID_committed_def acceptedRows_map by blast
qed

theorem backup_restores_rows_witness:
  "\<exists>db' b db2 db3. runCalls (\<lambda>(ident, r). Table_Insert quiet ident users r)
      [(1, user ''7'' ''Ada''), (2, user ''8'' ''Bob''), (3, user ''7'' ''Ada'')] registeredDb
      = ([Ok (), Ok (), Err (Errorf ''record already exists'')], db')
    \<and> Backup quietBackup db' emptyBackup = (Ok (), b)
    \<and> Open quiet DefaultOptions quietOpen None (bk_wal b) (newDatabase ''/restored'' 6 (typeRegistry usersDb) (bk_tables b) Map.empty (bk_snapshots b)) = (Ok (), db2)
    \<and> FindByID_committed quiet users (VString ''7'') db2 = (Ok (Some (user ''7'' ''Ada'')), db3)"
proof -
  let ?calls = "[(1 :: 64 word, user ''7'' ''Ada''), (2, user ''8'' ''Bob''), (3, user ''7'' ''Ada'')]"
  have s: "committedState registeredDb = usersState" "Generation usersState = 1" "snapshotFiles registeredDb = []"
    by (simp_all add: registeredDb_def usersDb_def usersState_def)
  have h: "holdsRows quiet stringKeys 256 shortIDs (2 * length ?calls + 0) users (committedState registeredDb) Map.empty registeredDb"
    unfolding s unfolding registeredDb_def by (rule holdsRows_log [OF usersDb_rows]) (simp_all add: wal_ok_def)
  have rows: "list_all (\<lambda>c. rowOk users shortIDs (snd c)) ?calls" using user_rowOk by simp
  have "loggable users (user ''7'' ''Ada'')" "loggable users (user ''8'' ''Bob'')" by code_simp+
  then have ok: "list_all (\<lambda>c. rowOk users shortIDs (snd c) \<and> loggable users (snd c)) ?calls" using user_rowOk by simp
  have results: "fst (runCalls insertMap (map snd ?calls) Map.empty) = [Ok (), Ok (), Err (Errorf ''record already exists'')]"
    "snd (runCalls insertMap (map snd ?calls) Map.empty) (VString ''7'') = Some (user ''7'' ''Ada'')"
    by (simp_all add: insertMap_def user_key)
  obtain db' where run: "runCalls (\<lambda>(ident, r). Table_Insert quiet ident users r) ?calls registeredDb
      = ([Ok (), Ok (), Err (Errorf ''record already exists'')], db')"
    using inserts_run [OF h rows] unfolding results by blast
  have "snapshotFiles db' = []" "\<not> db_closed db'" using inserts_logged [OF h rows run] s(3) by simp_all
  then obtain b where b: "Backup quietBackup db' emptyBackup = (Ok (), b)" using Backup_quiet by blast
  have k: "VString ''7'' \<in> shortIDs" by (simp add: shortIDs_def)
  have r: "restorable quiet stringKeys 256 shortIDs (2 * length ?calls + 0) users" by (rule users_restorable) simp
  have d: "distinct (5 # map fst ?calls)" by simp
  have log: "wal_disk (walManager registeredDb)
      = walBytes (logOf (createTask 5 (Generation (committedState registeredDb)) (tb_name users) ''string'' (typeString (tb_Type users))))"
    unfolding s by (simp add: registeredDb_def users_def)
  have reg: "getRegisteredType (RegisterTypes (Types DefaultOptions) (typeRegistry usersDb)) (typeString (tb_Type users)) = Some (tb_Type users)"
    by (simp add: DefaultOptions_def RegisterTypes_def usersDb_def users_def getRegisteredType_def)
  have "\<exists>db2 db3. Open quiet DefaultOptions quietOpen None (bk_wal b)
        (newDatabase ''/restored'' 6 (typeRegistry usersDb) (bk_tables b) Map.empty (bk_snapshots b)) = (Ok (), db2)
      \<and> FindByID_committed quiet users (VString ''7'') db2 = (Ok (snd (runCalls insertMap (map snd ?calls) Map.empty) (VString ''7'')), db3)"
    by (rule backup_restores_rows [OF h r _ ok d log _ _ _ s(3) run b _ _ k reg])
      (simp_all add: s encodableName_def maxStringLength_def quietBackup_def DefaultOptions_def)
  then show ?thesis unfolding results using run b by blast
qed

end
