(* ===== verification/Migration.thy ===== *)
theory Migration
  imports Database
begin

text \<open>
  \<^verbatim>\<open>src/migration.go\<close>: the export of all tables to an SQL database.

  The SQL database behind \<^verbatim>\<open>database/sql\<close> is a parameter: it answers each call, given the calls before it,
  with success or an error message. The state is the database and the list of the calls made so
  far with their success. JSON encoding and the time format are parameters too.
\<close>

section \<open>Dialects\<close>

datatype SQLDialect = DialectPostgreSQL | DialectMySQL | DialectSQLite | DialectMSSQL

definition nl :: string where "nl = [CHR 0x0A]"
definition tab :: string where "tab = [CHR 0x09]"
definition apos :: string where "apos = [CHR 0x27]"

definition quoteIdentifier :: "string \<Rightarrow> SQLDialect \<Rightarrow> string" where
  "quoteIdentifier name dialect =
     (case dialect of
        DialectPostgreSQL \<Rightarrow> [CHR 0x22] @ name @ [CHR 0x22]
      | DialectSQLite \<Rightarrow> [CHR 0x22] @ name @ [CHR 0x22]
      | DialectMSSQL \<Rightarrow> ''['' @ name @ '']''
      | DialectMySQL \<Rightarrow> [CHR 0x60] @ name @ [CHR 0x60])"

definition getPlaceholder :: "SQLDialect \<Rightarrow> nat \<Rightarrow> string" where
  "getPlaceholder dialect index =
     (case dialect of
        DialectPostgreSQL \<Rightarrow> ''$'' @ fmt_d (int index)
      | DialectMSSQL \<Rightarrow> ''@p'' @ fmt_d (int index)
      | _ \<Rightarrow> ''?'')"

definition textType :: "SQLDialect \<Rightarrow> string" where
  "textType dialect = (if dialect = DialectMSSQL then ''NVARCHAR(MAX)'' else ''TEXT'')"

fun mapGoTypeToSQL :: "gtype \<Rightarrow> SQLDialect \<Rightarrow> string" where
  "mapGoTypeToSQL (TPtr t) dialect = mapGoTypeToSQL t dialect"
| "mapGoTypeToSQL TString dialect =
     (if dialect = DialectSQLite then ''TEXT'' else if dialect = DialectMSSQL then ''NVARCHAR(255)'' else ''VARCHAR(255)'')"
| "mapGoTypeToSQL TInt dialect = ''INT''"
| "mapGoTypeToSQL TInt32 dialect = ''INT''"
| "mapGoTypeToSQL TInt16 dialect = ''INT''"
| "mapGoTypeToSQL TInt8 dialect = ''INT''"
| "mapGoTypeToSQL TInt64 dialect = (if dialect = DialectSQLite then ''INTEGER'' else ''BIGINT'')"
| "mapGoTypeToSQL TFloat32 dialect = (case dialect of DialectSQLite \<Rightarrow> ''REAL'' | DialectPostgreSQL \<Rightarrow> ''DOUBLE PRECISION''
     | DialectMSSQL \<Rightarrow> ''FLOAT'' | DialectMySQL \<Rightarrow> ''DOUBLE'')"
| "mapGoTypeToSQL TFloat64 dialect = (case dialect of DialectSQLite \<Rightarrow> ''REAL'' | DialectPostgreSQL \<Rightarrow> ''DOUBLE PRECISION''
     | DialectMSSQL \<Rightarrow> ''FLOAT'' | DialectMySQL \<Rightarrow> ''DOUBLE'')"
| "mapGoTypeToSQL TBool dialect = (case dialect of DialectPostgreSQL \<Rightarrow> ''BOOLEAN'' | DialectSQLite \<Rightarrow> ''INTEGER''
     | DialectMSSQL \<Rightarrow> ''BIT'' | DialectMySQL \<Rightarrow> ''TINYINT(1)'')"
| "mapGoTypeToSQL TTime dialect = (case dialect of DialectPostgreSQL \<Rightarrow> ''TIMESTAMPTZ'' | DialectSQLite \<Rightarrow> ''TEXT''
     | DialectMSSQL \<Rightarrow> ''DATETIMEOFFSET'' | DialectMySQL \<Rightarrow> ''DATETIME(6)'')"
| "mapGoTypeToSQL (TSlice t) dialect =
     (if t = TUint8 then (case dialect of DialectPostgreSQL \<Rightarrow> ''BYTEA'' | DialectMSSQL \<Rightarrow> ''VARBINARY(MAX)''
        | DialectMySQL \<Rightarrow> ''LONGBLOB'' | DialectSQLite \<Rightarrow> ''BLOB'')
      else textType dialect)"
| "mapGoTypeToSQL _ dialect = textType dialect"

section \<open>Statements\<close>

definition columnDef :: "SQLDialect \<Rightarrow> gfield \<Rightarrow> string" where
  "columnDef dialect structField =
     quoteIdentifier (getFieldName structField) dialect @ '' '' @ mapGoTypeToSQL (fldType structField) dialect
     @ (if IsID (parseFieldTag structField) then '' PRIMARY KEY'' else [])"

definition createTableSQL :: "SQLDialect \<Rightarrow> string \<Rightarrow> gfield list \<Rightarrow> string" where
  "createTableSQL dialect tableName fs =
     (let columnDefs = map (columnDef dialect) fs in
      if dialect = DialectMSSQL then
        ''IF OBJECT_ID('' @ apos @ tableName @ apos @ '', '' @ apos @ ''U'' @ apos @ '') IS NULL'' @ nl @ ''BEGIN'' @ nl @ tab
        @ ''CREATE TABLE '' @ quoteIdentifier tableName dialect @ '' ('' @ nl @ tab @ tab
        @ strings_Join columnDefs ('','' @ nl @ tab @ tab) @ nl @ tab @ '');'' @ nl @ ''END''
      else
        ''CREATE TABLE IF NOT EXISTS '' @ quoteIdentifier tableName dialect @ '' ('' @ nl @ tab
        @ strings_Join columnDefs ('','' @ nl @ tab) @ nl @ '')'')"

definition indexSQL :: "SQLDialect \<Rightarrow> string \<Rightarrow> IndexMetadata \<Rightarrow> string" where
  "indexSQL dialect tableName indexMetadata =
     (let uniqueKeyword = (if Unique indexMetadata then ''UNIQUE '' else []);
          indexName = IndexName indexMetadata;
          onColumns = quoteIdentifier indexName dialect @ '' ON '' @ quoteIdentifier tableName dialect
            @ '' ('' @ quoteIdentifier (FieldName indexMetadata) dialect @ '')''
      in case dialect of
           DialectMSSQL \<Rightarrow>
             ''IF NOT EXISTS (SELECT * FROM sys.indexes WHERE name = '' @ apos @ indexName @ apos
             @ '' AND object_id = OBJECT_ID('' @ apos @ tableName @ apos @ ''))'' @ nl @ ''BEGIN'' @ nl @ tab
             @ ''CREATE '' @ uniqueKeyword @ ''INDEX '' @ onColumns @ '';'' @ nl @ ''END''
         | DialectMySQL \<Rightarrow> ''CREATE '' @ uniqueKeyword @ ''INDEX '' @ onColumns
         | _ \<Rightarrow> ''CREATE '' @ uniqueKeyword @ ''INDEX IF NOT EXISTS '' @ onColumns)"

definition insertSQL :: "SQLDialect \<Rightarrow> string \<Rightarrow> gfield list \<Rightarrow> string" where
  "insertSQL dialect tableName fs =
     ''INSERT INTO '' @ quoteIdentifier tableName dialect @ '' (''
     @ strings_Join (map (\<lambda>f. quoteIdentifier (getFieldName f) dialect) fs) '', '' @ '') VALUES (''
     @ strings_Join (map (\<lambda>i. getPlaceholder dialect (Suc i)) [0..<length fs]) '', '' @ '')''"

section \<open>Binding\<close>

fun derefPtr :: "gval \<Rightarrow> gval option" where
  "derefPtr (VPtr t None) = None"
| "derefPtr (VPtr t (Some v)) = derefPtr v"
| "derefPtr v = Some v"

text \<open>\<^verbatim>\<open>reflect.Value.Interface\<close> panics on a field that is not exported.\<close>

definition viaJSON :: "(gval \<Rightarrow> string res) \<Rightarrow> bool \<Rightarrow> gval \<Rightarrow> gval res" where
  "viaJSON json isExported v = (if isExported then mapR VString (json v) else Panic ReflectPanic)"

definition bindValue :: "(gval \<Rightarrow> string res) \<Rightarrow> (gval \<Rightarrow> string) \<Rightarrow> bool \<Rightarrow> gval \<Rightarrow> SQLDialect \<Rightarrow> gval res" where
  "bindValue json rfc3339 isExported reflectValue dialect =
     (case derefPtr reflectValue of
        None \<Rightarrow> Ok VNil
      | Some v \<Rightarrow>
          (case v of
             VNil \<Rightarrow> Ok VNil
           | VString s \<Rightarrow> Ok (VString s)
           | VInt w \<Rightarrow> Ok (VInt64 w)
           | VInt8 w \<Rightarrow> Ok (VInt64 (scast w))
           | VInt16 w \<Rightarrow> Ok (VInt64 (scast w))
           | VInt32 w \<Rightarrow> Ok (VInt64 (scast w))
           | VInt64 w \<Rightarrow> Ok (VInt64 w)
           | VFloat32 f \<Rightarrow> Ok (VFloat64 (f64_of_f32 f))
           | VFloat64 f \<Rightarrow> Ok (VFloat64 f)
           | VBool b \<Rightarrow> Ok (if dialect = DialectPostgreSQL then VBool b else VInt (if b then 1 else 0))
           | VTime sec nsec \<Rightarrow>
               if \<not> isExported then Panic ReflectPanic
               else Ok (if dialect = DialectSQLite then VString (rfc3339 v) else v)
           | VBytes b \<Rightarrow> Ok (VBytes b)
           | _ \<Rightarrow> viaJSON json isExported v))"

section \<open>The migration\<close>

datatype sql_call =
    Exec string
  | Begin
  | Prepare string
  | StmtExec "gval list"
  | StmtClose
  | TxRollback
  | TxCommit

record mig_env =
  me_db :: db_env
  me_dialect :: SQLDialect
  me_answer :: "(sql_call \<times> bool) list \<Rightarrow> sql_call \<Rightarrow> string option"
  me_json :: "gval \<Rightarrow> string res"
  me_time :: "gval \<Rightarrow> string"

type_synonym 'a mig_op = "(Database \<times> (sql_call \<times> bool) list, 'a) op"

definition sqlCall :: "mig_env \<Rightarrow> sql_call \<Rightarrow> unit mig_op" where
  "sqlCall env c s =
     (case me_answer env (snd s) c of
        None \<Rightarrow> (Ok (), (fst s, snd s @ [(c, True)]))
      | Some message \<Rightarrow> (Err (Errorf message), (fst s, snd s @ [(c, False)])))"

definition wrapping :: "string \<Rightarrow> 'a mig_op \<Rightarrow> 'a mig_op" where
  "wrapping message m s = (case m s of (Err e, s') \<Rightarrow> (Err (WrapError message e), s') | r \<Rightarrow> r)"

text \<open>MySQL has no \<^verbatim>\<open>IF NOT EXISTS\<close> for indexes: the error that the index exists is ignored.\<close>

definition duplicateIndexMessage :: "error \<Rightarrow> bool" where
  "duplicateIndexMessage e = (case e of Errorf message \<Rightarrow>
       strings_Contains message ''1061'' \<or> strings_Contains (strings_ToLower message) ''duplicate key name'' | _ \<Rightarrow> False)"

definition createIndex :: "mig_env \<Rightarrow> string \<Rightarrow> IndexMetadata \<Rightarrow> unit mig_op" where
  "createIndex env tableName indexMetadata =
     (if strings_ToLower (FieldName indexMetadata) = ''id'' then returnD ()
      else
        bindD (attemptD (sqlCall env (Exec (indexSQL (me_dialect env) tableName indexMetadata)))) (\<lambda>r.
          case r of
            Inr _ \<Rightarrow> returnD ()
          | Inl e \<Rightarrow> if me_dialect env = DialectMySQL \<and> duplicateIndexMessage e then returnD ()
                     else liftD (Err (WrapError ''failed to create index'' e))))"

text \<open>After a failure inside the SQL transaction the statement is closed and the transaction rolled back;
  the errors of these two calls are dropped.\<close>

definition abandon :: "mig_env \<Rightarrow> string \<Rightarrow> error \<Rightarrow> 'a mig_op" where
  "abandon env message e =
     bindD (attemptD (sqlCall env StmtClose)) (\<lambda>_.
       bindD (attemptD (sqlCall env TxRollback)) (\<lambda>_. liftD (Err (WrapError message e))))"

definition bindRecord :: "mig_env \<Rightarrow> gfield list \<Rightarrow> gval \<Rightarrow> gval list res" where
  "bindRecord env fs record =
     mapM (\<lambda>(f, v). bindValue (me_json env) (me_time env) (fldPkgPath f = []) v (me_dialect env))
       (zip fs (case structValues record of None \<Rightarrow> [] | Some vs \<Rightarrow> vs))"

definition insertRow :: "mig_env \<Rightarrow> gfield list \<Rightarrow> gval \<Rightarrow> unit \<Rightarrow> unit mig_op" where
  "insertRow env fs record _ =
     (case bindRecord env fs record of
        Ok arguments \<Rightarrow>
          bindD (attemptD (sqlCall env (StmtExec arguments))) (\<lambda>r.
            case r of Inr _ \<Rightarrow> returnD () | Inl e \<Rightarrow> abandon env ''failed to insert record'' e)
      | Err e \<Rightarrow> abandon env ''failed to bind field value'' e
      | Panic p \<Rightarrow> liftD (Panic p)
      | NoFuel \<Rightarrow> liftD NoFuel)"

definition insertRows :: "mig_env \<Rightarrow> string \<Rightarrow> gfield list \<Rightarrow> gval list \<Rightarrow> unit mig_op" where
  "insertRows env tableName fs records =
     bindD (wrapping ''failed to begin SQL transaction'' (sqlCall env Begin)) (\<lambda>_.
       bindD (attemptD (sqlCall env (Prepare (insertSQL (me_dialect env) tableName fs)))) (\<lambda>r.
         case r of
           Inl e \<Rightarrow> bindD (attemptD (sqlCall env TxRollback)) (\<lambda>_. liftD (Err (WrapError ''failed to prepare insert statement'' e)))
         | Inr _ \<Rightarrow>
             bindD (forD records (insertRow env fs) ()) (\<lambda>_.
               bindD (attemptD (sqlCall env StmtClose)) (\<lambda>_.
                 wrapping ''failed to commit SQL transaction'' (sqlCall env TxCommit)))))"

definition inStore :: "'a db_op \<Rightarrow> 'a mig_op" where
  "inStore m s = (case m (fst s) of (r, database) \<Rightarrow> (r, (database, snd s)))"

definition migrateTable :: "mig_env \<Rightarrow> string \<times> TableState \<Rightarrow> unit \<Rightarrow> unit mig_op" where
  "migrateTable env entry _ =
     (case entry of (tableName, tableState) \<Rightarrow>
       bindD (inStore (tableStorage (me_db env) tableName)) (\<lambda>_.
         case (if isPtrType (EntityType tableState) then None else structFields (EntityType tableState)) of
           None \<Rightarrow> liftD (Err (Errorf ''entity type must be a struct''))
         | Some fs \<Rightarrow>
             bindD (wrapping ''failed to create table'' (sqlCall env (Exec (createTableSQL (me_dialect env) tableName fs)))) (\<lambda>_.
               bindD (forD (IndexMetadataList tableState) (\<lambda>indexMetadata _. createIndex env tableName indexMetadata) ()) (\<lambda>_.
                 bindD (wrapping ''failed to load shadow index'' (inStore (getShadowNamedIndex (me_db env) tableName))) (\<lambda>_.
                   bindD (wrapping ''failed to scan B+ tree'' (inStore (scanTable (me_db env) tableName (EntityType tableState)))) (\<lambda>records.
                     if records = [] then returnD () else insertRows env tableName fs records))))))"

definition Migrate :: "mig_env \<Rightarrow> unit mig_op" where
  "Migrate env s = forD (Tables (committedState (fst s))) (migrateTable env) () s"

end
