(* ===== verification/MigrationLaws.thy ===== *)
theory MigrationLaws
  imports Migration TableStore
begin

text \<open>
  The export to SQL: the rows of a table are inserted in one SQL transaction, which commits only when
  every row has been inserted and is closed on every error path.
\<close>

section \<open>The trace of SQL calls\<close>

text \<open>Whether a transaction is open after a list of calls; a failing commit or rollback ends it too.\<close>

definition sqlStep :: "bool \<Rightarrow> sql_call \<times> bool \<Rightarrow> bool" where
  "sqlStep opened call = (case fst call of Begin \<Rightarrow> opened \<or> snd call | TxRollback \<Rightarrow> False | TxCommit \<Rightarrow> False | _ \<Rightarrow> opened)"

definition sqlOpen :: "(sql_call \<times> bool) list \<Rightarrow> bool" where
  "sqlOpen calls = foldl sqlStep False calls"

lemma sqlOpen_snoc [simp]: "sqlOpen (calls @ [c]) = sqlStep (sqlOpen calls) c" "\<not> sqlOpen []"
  by (simp_all add: sqlOpen_def)

lemma sqlCall_cases:
  obtains "sqlCall env c (db, calls) = (Ok (), (db, calls @ [(c, True)]))"
  | e where "sqlCall env c (db, calls) = (Err e, (db, calls @ [(c, False)]))"
  by (cases "me_answer env calls c") (auto simp: sqlCall_def)

text \<open>The values a row is inserted with.\<close>

definition boundRow :: "mig_env \<Rightarrow> gfield list \<Rightarrow> gval \<Rightarrow> gval list" where
  "boundRow env fs r = (case bindRecord env fs r of Ok vs \<Rightarrow> vs | _ \<Rightarrow> [])"

text \<open>The calls that end a failed insertion.\<close>

definition closing :: "(sql_call \<times> bool) list \<Rightarrow> bool" where
  "closing zs = (map fst zs = [StmtClose, TxRollback])"

definition execs :: "(sql_call \<times> bool) list \<Rightarrow> bool" where
  "execs xs = list_all (\<lambda>c. case fst c of StmtExec vs \<Rightarrow> True | _ \<Rightarrow> False) xs"

lemma abandon_run:
  "\<exists>zs. closing zs \<and> abandon env message e (db, calls) = (Err (WrapError message e), (db, calls @ zs))"
  by (rule sqlCall_cases [of env StmtClose db calls];
      rule sqlCall_cases [of env TxRollback db "calls @ [(StmtClose, True)]"];
      rule sqlCall_cases [of env TxRollback db "calls @ [(StmtClose, False)]"])
     (auto simp: abandon_def closing_def)

lemma insertRow_run:
  obtains "insertRow env fs r () (db, calls) = (Ok (), (db, calls @ [(StmtExec (boundRow env fs r), True)]))"
  | e xs zs where "insertRow env fs r () (db, calls) = (Err e, (db, calls @ xs @ zs))" "execs xs" "closing zs"
  | db' calls' p where "insertRow env fs r () (db, calls) = (Panic p, (db', calls'))"
  | db' calls' where "insertRow env fs r () (db, calls) = (NoFuel, (db', calls'))"
proof (cases "bindRecord env fs r")
  case (Ok vs)
  show ?thesis
  proof (rule sqlCall_cases [of env "StmtExec vs" db calls])
    assume "sqlCall env (StmtExec vs) (db, calls) = (Ok (), (db, calls @ [(StmtExec vs, True)]))"
    then show ?thesis using Ok that(1) by (simp add: insertRow_def boundRow_def)
  next
    fix e assume a: "sqlCall env (StmtExec vs) (db, calls) = (Err e, (db, calls @ [(StmtExec vs, False)]))"
    obtain zs where "closing zs" "abandon env ''failed to insert record'' e (db, calls @ [(StmtExec vs, False)])
        = (Err (WrapError ''failed to insert record'' e) :: unit res, (db, (calls @ [(StmtExec vs, False)]) @ zs))"
      using abandon_run by blast
    then show ?thesis using a Ok that(2) [of _ "[(StmtExec vs, False)]" zs] by (simp add: insertRow_def execs_def)
  qed
next
  case (Err e)
  obtain zs where "closing zs" "abandon env ''failed to bind field value'' e (db, calls)
      = (Err (WrapError ''failed to bind field value'' e) :: unit res, (db, calls @ zs))"
    using abandon_run by blast
  then show ?thesis using Err that(2) [of _ "[]" zs] by (simp add: insertRow_def execs_def)
qed (use that(3,4) in \<open>simp_all add: insertRow_def\<close>)

text \<open>The loop over the rows.\<close>

definition rowCalls :: "mig_env \<Rightarrow> gfield list \<Rightarrow> gval list \<Rightarrow> (sql_call \<times> bool) list" where
  "rowCalls env fs records = map (\<lambda>r. (StmtExec (boundRow env fs r), True)) records"

lemma rows_run:
  assumes "forD records (insertRow env fs) () (db, calls) = (res, (db', calls'))" "res = Ok () \<or> (\<exists>e. res = Err e)"
  shows "db' = db \<and> (res = Ok () \<and> calls' = calls @ rowCalls env fs records
    \<or> (\<exists>e xs zs. res = Err e \<and> calls' = calls @ xs @ zs \<and> execs xs \<and> closing zs))"
  using assms
proof (induction records arbitrary: calls)
  case (Cons r rs)
  show ?case
  proof (rule insertRow_run [of env fs r db calls])
    let ?c = "(StmtExec (boundRow env fs r), True)"
    assume a: "insertRow env fs r () (db, calls) = (Ok (), (db, calls @ [?c]))"
    then have "forD rs (insertRow env fs) () (db, calls @ [?c]) = (res, (db', calls'))" using Cons.prems(1) by simp
    from Cons.IH [OF this Cons.prems(2)] show ?thesis
    proof (elim conjE disjE exE)
      fix e xs zs assume "db' = db" "res = Err e" "calls' = (calls @ [?c]) @ xs @ zs" "execs xs" "closing zs"
      then show ?thesis by (intro conjI disjI2 exI [of _ e] exI [of _ "?c # xs"] exI [of _ zs]) (simp_all add: execs_def)
    qed (simp add: rowCalls_def)
  next
    fix e xs zs assume "insertRow env fs r () (db, calls) = (Err e, (db, calls @ xs @ zs))" "execs xs" "closing zs"
    then show ?thesis using Cons.prems by auto
  qed (use Cons.prems in auto)
qed (auto simp: rowCalls_def)

lemma sqlOpen_execs: "execs xs \<Longrightarrow> sqlOpen (calls @ xs) = sqlOpen calls"
  by (induction xs arbitrary: calls) (auto simp: sqlOpen_def execs_def sqlStep_def split: sql_call.splits)

lemma sqlOpen_closing: "closing zs \<Longrightarrow> \<not> sqlOpen (calls @ zs)"
  by (auto simp: closing_def sqlOpen_def sqlStep_def)

lemma noCommit: "execs xs \<Longrightarrow> (TxCommit, b) \<notin> set xs" "closing zs \<Longrightarrow> (TxCommit, b) \<notin> set zs"
  by (auto simp: execs_def closing_def list_all_iff)

lemma wrapping_run [simp]:
  "m s = (Ok x, s') \<Longrightarrow> wrapping message m s = (Ok x, s')"
  "m s = (Err e, s') \<Longrightarrow> wrapping message m s = (Err (WrapError message e), s')"
  by (simp_all add: wrapping_def)

text \<open>After the transaction has begun and the statement is prepared: the rows, then the commit.\<close>

definition fillAndCommit :: "mig_env \<Rightarrow> gfield list \<Rightarrow> gval list \<Rightarrow> unit mig_op" where
  "fillAndCommit env fs records =
     bindD (forD records (insertRow env fs) ()) (\<lambda>_.
       bindD (attemptD (sqlCall env StmtClose)) (\<lambda>_.
         wrapping ''failed to commit SQL transaction'' (sqlCall env TxCommit)))"

text \<open>What an insertion leaves behind: no transaction open, and a commit exactly when it succeeded.\<close>

definition committedRows :: "mig_env \<Rightarrow> gfield list \<Rightarrow> gval list \<Rightarrow> (sql_call \<times> bool) list \<Rightarrow> bool" where
  "committedRows env fs records new \<longleftrightarrow>
     (\<exists>c. fst c = StmtClose \<and> new = rowCalls env fs records @ [c, (TxCommit, True)])"

definition settled :: "mig_env \<Rightarrow> gfield list \<Rightarrow> gval list \<Rightarrow> unit res \<Rightarrow> (sql_call \<times> bool) list \<Rightarrow> bool" where
  "settled env fs records res new \<longleftrightarrow>
     (if res = Ok () then committedRows env fs records new else (TxCommit, True) \<notin> set new)"

lemma sqlOpen_commit [simp]: "\<not> sqlOpen (calls @ xs @ [c, (TxCommit, b)])" "\<not> sqlOpen (calls @ [c, (TxRollback, b)])"
  by (simp_all add: sqlOpen_def sqlStep_def)

lemma fillAndCommit_run:
  assumes run: "fillAndCommit env fs records (db, calls) = (res, (db', calls'))" and res: "res = Ok () \<or> (\<exists>e. res = Err e)"
  shows "db' = db \<and> \<not> sqlOpen calls' \<and> (\<exists>new. calls' = calls @ new \<and> settled env fs records res new)"
proof -
  obtain r d c where loop: "forD records (insertRow env fs) () (db, calls) = (r, (d, c))" by (metis prod.exhaust)
  have "r = Ok () \<or> (\<exists>e. r = Err e)" using run loop res by (cases r) (auto simp: fillAndCommit_def)
  from rows_run [OF loop this] show ?thesis
  proof (elim conjE disjE exE)
    fix e xs zs assume "d = db" "r = Err e" "c = calls @ xs @ zs" "execs xs" "closing zs"
    then show ?thesis using run loop sqlOpen_closing [of zs "calls @ xs"] noCommit
      by (auto simp: fillAndCommit_def settled_def)
  next
    assume d: "d = db" and r: "r = Ok ()" and c: "c = calls @ rowCalls env fs records"
    obtain b where close: "\<exists>x. attemptD (sqlCall env StmtClose) (db, c) = (Ok x, (db, c @ [(StmtClose, b)]))"
      by (rule sqlCall_cases [of env StmtClose db c]) auto
    have no: "(TxCommit, True) \<notin> set (rowCalls env fs records)" by (auto simp: rowCalls_def)
    show ?thesis
    proof (rule sqlCall_cases [of env TxCommit db "c @ [(StmtClose, b)]"])
      assume "sqlCall env TxCommit (db, c @ [(StmtClose, b)]) = (Ok (), (db, (c @ [(StmtClose, b)]) @ [(TxCommit, True)]))"
      then show ?thesis using run loop d r c close by (auto simp: fillAndCommit_def settled_def committedRows_def)
    next
      fix e assume "sqlCall env TxCommit (db, c @ [(StmtClose, b)]) = (Err e, (db, (c @ [(StmtClose, b)]) @ [(TxCommit, False)]))"
      then show ?thesis using run loop d r c close no by (auto simp: fillAndCommit_def settled_def)
    qed
  qed
qed

lemma insertRows_run:
  assumes run: "insertRows env n fs records (db, calls) = (res, (db', calls'))" and res: "res = Ok () \<or> (\<exists>e. res = Err e)"
    and closed: "\<not> sqlOpen calls"
  shows "db' = db \<and> \<not> sqlOpen calls' \<and> (\<exists>before new. calls' = calls @ before @ new \<and> settled env fs records res new
    \<and> (TxCommit, True) \<notin> set before
    \<and> (res = Ok () \<longrightarrow> before = [(Begin, True), (Prepare (insertSQL (me_dialect env) n fs), True)]))"
proof (rule sqlCall_cases [of env Begin db calls])
  fix e assume "sqlCall env Begin (db, calls) = (Err e, (db, calls @ [(Begin, False)]))"
  then have f: "\<exists>e. res = Err e" "db' = db" "calls' = calls @ [(Begin, False)]" using run by (auto simp: insertRows_def)
  show ?thesis
    by (intro conjI, use f closed in \<open>simp_all add: sqlStep_def\<close>, rule exI [of _ "[(Begin, False)]"], rule exI [of _ "[]"])
       (auto simp: settled_def)
next
  let ?p = "Prepare (insertSQL (me_dialect env) n fs)" and ?c = "calls @ [(Begin, True)]"
  assume b: "sqlCall env Begin (db, calls) = (Ok (), (db, ?c))"
  show ?thesis
  proof (rule sqlCall_cases [of env ?p db ?c])
    assume "sqlCall env ?p (db, ?c) = (Ok (), (db, ?c @ [(?p, True)]))"
    then have "fillAndCommit env fs records (db, ?c @ [(?p, True)]) = (res, (db', calls'))"
      using run b by (simp add: insertRows_def fillAndCommit_def)
    from fillAndCommit_run [OF this res] obtain new where
      f: "db' = db" "\<not> sqlOpen calls'" "calls' = (?c @ [(?p, True)]) @ new" "settled env fs records res new" by blast
    show ?thesis
      by (intro conjI, rule f, rule f, rule exI [of _ "[(Begin, True), (?p, True)]"], rule exI [of _ new]) (use f in auto)
  next
    fix e assume p: "sqlCall env ?p (db, ?c) = (Err e, (db, ?c @ [(?p, False)]))"
    obtain x where "\<exists>y. attemptD (sqlCall env TxRollback) (db, ?c @ [(?p, False)]) = (Ok y, (db, ?c @ [(?p, False), (TxRollback, x)]))"
      by (rule sqlCall_cases [of env TxRollback db "?c @ [(?p, False)]"]) auto
    then have f: "\<exists>e. res = Err e" "db' = db" "calls' = calls @ [(Begin, True), (?p, False), (TxRollback, x)]"
      using run b p by (auto simp: insertRows_def)
    show ?thesis
      by (intro conjI, use f sqlOpen_commit(2) [of "calls @ [(Begin, True)]"] in simp_all,
          rule exI [of _ "[(Begin, True), (?p, False), (TxRollback, x)]"], rule exI [of _ "[]"]) (auto simp: settled_def)
  qed
qed

section \<open>The whole migration\<close>

text \<open>An operation that never returns with an SQL transaction left open.\<close>

definition tidy :: "'a mig_op \<Rightarrow> bool" where
  "tidy m \<longleftrightarrow> (\<forall>s res s'. m s = (res, s') \<longrightarrow> \<not> sqlOpen (snd s) \<longrightarrow> ((\<exists>x. res = Ok x) \<or> (\<exists>e. res = Err e)) \<longrightarrow> \<not> sqlOpen (snd s'))"

named_theorems tidy

lemma tidyD:
  assumes "tidy m" "m s = (res, s')" "\<not> sqlOpen (snd s)" "(\<exists>x. res = Ok x) \<or> (\<exists>e. res = Err e)"
  shows "\<not> sqlOpen (snd s')"
  using assms unfolding tidy_def by blast

lemma tidy_pure [tidy]: "tidy (returnD x)" "tidy (liftD r)" "tidy (inStore m)"
  by (auto simp: tidy_def inStore_def split: prod.splits)

lemma tidy_bind [tidy]:
  assumes "tidy m" "\<And>x. tidy (f x)"
  shows "tidy (bindD m f)"
  unfolding tidy_def
proof (intro allI impI)
  fix s res s' assume run: "bindD m f s = (res, s')" and "\<not> sqlOpen (snd s)" and "(\<exists>x. res = Ok x) \<or> (\<exists>e. res = Err e)"
  moreover obtain r t where "m s = (r, t)" by (metis prod.exhaust)
  ultimately show "\<not> sqlOpen (snd s')"
    using tidyD [OF assms(1), of s r t] tidyD [OF assms(2), of _ t res s'] by (cases r) auto
qed

lemma tidy_attempt [tidy]: "tidy m \<Longrightarrow> tidy (attemptD m)"
  by (auto simp: tidy_def attemptD_def split: res.splits prod.splits)

lemma tidy_wrapping [tidy]: "tidy m \<Longrightarrow> tidy (wrapping message m)"
  by (auto simp: tidy_def wrapping_def split: res.splits prod.splits)

lemma tidy_for [tidy]: "(\<And>b x. tidy (f b x)) \<Longrightarrow> tidy (forD bs f x)"
  by (induction bs arbitrary: x) (simp_all add: tidy)

lemma tidy_exec [tidy]: "tidy (sqlCall env (Exec q))"
  by (auto simp: tidy_def sqlCall_def sqlStep_def split: option.splits)

lemma tidy_createIndex [tidy]: "tidy (createIndex env n im)"
  unfolding createIndex_def by (auto intro!: tidy split: sum.splits)

lemma tidy_insertRows [tidy]: "tidy (insertRows env n fs records)"
  using insertRows_run unfolding tidy_def by (metis prod.collapse unit.exhaust)

lemma tidy_migrateTable [tidy]: "tidy (migrateTable env entry u)"
  unfolding migrateTable_def by (auto intro!: tidy split: prod.splits option.splits)

section \<open>Example\<close>

text \<open>An SQLite database that refuses the \<open>n\<close>-th call.\<close>

definition sqliteFailingAt :: "nat \<Rightarrow> mig_env" where
  "sqliteFailingAt n = \<lparr>me_db = quiet, me_dialect = DialectSQLite,
     me_answer = (\<lambda>calls c. if length calls = n then Some ''disk I/O error'' else None),
     me_json = (\<lambda>v. Ok []), me_time = (\<lambda>v. [])\<rparr>"

text \<open>C23: When the rows of a table are inserted into the SQL database and no panic ends the run, the
  database itself is untouched and no SQL transaction stays open. On success the new calls are exactly a
  begin, the prepared insert statement, one execution per row in order with that row's bound values, the
  close of the statement and a commit; on failure there is no successful commit, so no row is kept.\<close>
theorem migrated_rows_all_or_nothing:
  assumes "insertRows env tableName fs records (db, calls) = (res, (db', calls'))"
    and "res = Ok () \<or> (\<exists>e. res = Err e)" and "\<not> sqlOpen calls"
  shows "db' = db \<and> \<not> sqlOpen calls' \<and> (if res = Ok ()
     then \<exists>b. calls' = calls @ [(Begin, True), (Prepare (insertSQL (me_dialect env) tableName fs), True)]
       @ map (\<lambda>r. (StmtExec (boundRow env fs r), True)) records @ [(StmtClose, b), (TxCommit, True)]
     else \<exists>new. calls' = calls @ new \<and> (TxCommit, True) \<notin> set new)"
proof -
  from insertRows_run [OF assms] obtain before new where f: "db' = db" "\<not> sqlOpen calls'" "calls' = calls @ before @ new"
    "settled env fs records res new" "(TxCommit, True) \<notin> set before"
    "res = Ok () \<Longrightarrow> before = [(Begin, True), (Prepare (insertSQL (me_dialect env) tableName fs), True)]" by blast
  show ?thesis
  proof (cases "res = Ok ()")
    case True
    then show ?thesis using f by (auto simp: settled_def committedRows_def rowCalls_def)
  next
    case False
    then have "(TxCommit, True) \<notin> set (before @ new)" using f by (simp add: settled_def)
    then show ?thesis using False f(1-3) by auto
  qed
qed

text \<open>Two users; the second execution fails.\<close>

lemma failing_insert_run:
  "\<exists>calls'. insertRows (sqliteFailingAt 3) ''users'' userFields [user ''7'' ''Ada'', user ''8'' ''Bob''] (usersDb, [])
   = (Err (WrapError ''failed to insert record'' (Errorf ''disk I/O error'')), (usersDb, calls')) \<and> length calls' = 6"
proof -
  have b: "bindRecord (sqliteFailingAt 3) userFields (user ''7'' ''Ada'') = Ok [VString ''7'', VString ''Ada'']"
    "bindRecord (sqliteFailingAt 3) userFields (user ''8'' ''Bob'') = Ok [VString ''8'', VString ''Bob'']" by code_simp+
  show ?thesis
    by (simp add: insertRows_def sqlCall_def sqliteFailingAt_def insertRow_def b [unfolded sqliteFailingAt_def] abandon_def)
qed

theorem migrated_rows_all_or_nothing_witness:
  "\<exists>calls'. insertRows (sqliteFailingAt 3) ''users'' userFields [user ''7'' ''Ada'', user ''8'' ''Bob''] (usersDb, [])
     = (Err (WrapError ''failed to insert record'' (Errorf ''disk I/O error'')), (usersDb, calls'))
   \<and> length calls' = 6 \<and> \<not> sqlOpen calls' \<and> (TxCommit, True) \<notin> set calls'"
proof -
  from failing_insert_run obtain calls' where r:
    "insertRows (sqliteFailingAt 3) ''users'' userFields [user ''7'' ''Ada'', user ''8'' ''Bob''] (usersDb, [])
     = (Err (WrapError ''failed to insert record'' (Errorf ''disk I/O error'')), (usersDb, calls'))" "length calls' = 6" by blast
  then show ?thesis using migrated_rows_all_or_nothing [OF r(1)] by simp
qed

text \<open>C24: However a migration of the whole database ends short of a panic, and whichever of its SQL calls
  fail, it leaves no SQL transaction open.\<close>
theorem migrate_leaves_no_transaction:
  assumes "Migrate env (db, calls) = (res, (db', calls'))" "res = Ok () \<or> (\<exists>e. res = Err e)" "\<not> sqlOpen calls"
  shows "\<not> sqlOpen calls'"
proof -
  have "tidy (forD (Tables (committedState db)) (migrateTable env) ())" by (intro tidy)
  from tidyD [OF this, of "(db, calls)" res "(db', calls')"] show ?thesis using assms by (simp add: Migrate_def)
qed

theorem migrate_leaves_no_transaction_witness:
  "fst (Migrate (sqliteFailingAt 0) (usersDb, [])) \<noteq> Ok () \<and> snd (snd (Migrate (sqliteFailingAt 0) (usersDb, []))) \<noteq> []
   \<and> \<not> sqlOpen (snd (snd (Migrate (sqliteFailingAt 0) (usersDb, []))))"
proof -
  have t: "Tables (committedState usersDb) = [(''users'', NewTableState ''users'' TString (tb_Type users) [])]"
    by (simp add: usersDb_def usersState_def users_def)
  have s: "\<exists>ts. tableStorage quiet ''users'' usersDb = (Ok ts, usersDb)"
    by (simp add: tableStorage_def getTableStorage_def usersDb_def)
  have m: "\<exists>e c. Migrate (sqliteFailingAt 0) (usersDb, []) = (Err e, (usersDb, [c]))"
    using s by (auto simp: Migrate_def t migrateTable_def inStore_def sqlCall_def sqliteFailingAt_def wrapping_def NewTableState_def
        users_def isPtrType_def bindD_def)
  then obtain e c where r: "Migrate (sqliteFailingAt 0) (usersDb, []) = (Err e, (usersDb, [c]))" by blast
  from migrate_leaves_no_transaction [OF r] r show ?thesis by simp
qed

end
